(* ===== verification/Rust_Prelude.thy ===== *)
theory Rust_Prelude
  imports Main "HOL-Library.Word" "HOL-Library.Monad_Syntax"
begin

text \<open>
  The vocabulary every component of the node shares.  Machine integers are
  words and their arithmetic wraps, as in the release profile of
  \<^verbatim>\<open>Cargo.toml\<close>, which leaves overflow checks off; \<open>usize\<close> has 64 bits.
  A \<open>SystemTime\<close> is an instant in nanoseconds, a \<open>Duration\<close> a number of
  nanoseconds, and every operation that reads the clock takes the instant it
  reads as an argument.  A panic of the source (an index out of range) is
  \<open>None\<close>, an \<open>Err\<close> is the left side of a sum.
\<close>

section \<open>Lemma collections\<close>

named_theorems hm_simps \<open>how the hash map operations act on lookups, keys and sums\<close>
named_theorems invar_intros \<open>operations that keep a component's invariant\<close>

section \<open>Machine integers\<close>

type_synonym u8 = "8 word"
type_synonym u16 = "16 word"
type_synonym u32 = "32 word"
type_synonym i32 = "32 word"
type_synonym u64 = "64 word"
type_synonym i64 = "64 word"
type_synonym usize = "64 word"

definition saturating_sub :: "'a::len word \<Rightarrow> 'a word \<Rightarrow> 'a word" where
  "saturating_sub a b = (if a < b then 0 else a - b)"

definition saturating_mul :: "'a::len word \<Rightarrow> 'a word \<Rightarrow> 'a word" where
  "saturating_mul a b = (if unat a * unat b < 2 ^ LENGTH('a) then a * b else - 1)"

definition checked_add :: "'a::len word \<Rightarrow> 'a word \<Rightarrow> 'a word option" where
  "checked_add a b = (if unat a + unat b < 2 ^ LENGTH('a) then Some (a + b) else None)"

text \<open>\<open>x.max(0)\<close> and \<open>x.abs()\<close> on a signed integer; the casts to and from the
  unsigned type of the same width keep the bits.\<close>

definition signed_max0 :: "'a::len word \<Rightarrow> 'a word" where
  "signed_max0 x = (if sint x < 0 then 0 else x)"

definition signed_abs :: "'a::len word \<Rightarrow> 'a word" where
  "signed_abs x = (if sint x < 0 then - x else x)"

lemma unat_saturating_sub [simp]: "unat (saturating_sub a b) = unat a - unat b"
  by (auto simp: saturating_sub_def unat_sub word_less_nat_alt word_le_nat_alt)

lemma unat_word_max: "unat (- 1 :: 'a::len word) = 2 ^ LENGTH('a) - 1"
proof -
  have "unat (0 - 1 :: 'a word) = 2 ^ LENGTH('a) - 1"
    by (simp only: unat_sub_if') (simp add: unat_0)
  then show ?thesis by simp
qed

lemma unat_saturating_mul:
  "unat (saturating_mul a b :: 'a::len word) = min (unat a * unat b) (2 ^ LENGTH('a) - 1)"
proof (cases "unat a * unat b < 2 ^ LENGTH('a)")
  case True
  then have "min (unat a * unat b) (2 ^ LENGTH('a) - 1) = unat a * unat b" by linarith
  with True show ?thesis by (simp add: saturating_mul_def unat_word_ariths)
next
  case False
  then have "min (unat a * unat b) (2 ^ LENGTH('a) - 1) = 2 ^ LENGTH('a) - 1" by linarith
  with False show ?thesis by (simp only: saturating_mul_def unat_word_max if_False)
qed

lemma checked_add_Some:
  "checked_add a b = Some c \<longleftrightarrow> unat a + unat b < 2 ^ LENGTH('a) \<and> c = a + (b :: 'a::len word)"
  by (auto simp: checked_add_def)

lemma checked_add_None:
  "checked_add a b = None \<longleftrightarrow> 2 ^ LENGTH('a) \<le> unat a + unat (b :: 'a::len word)"
  by (auto simp: checked_add_def)

lemma unat_add_no_overflow:
  "unat a + unat b < 2 ^ LENGTH('a) \<Longrightarrow> unat (a + b :: 'a::len word) = unat a + unat b"
  by (simp add: unat_word_ariths)

lemma unat_sum_list:
  "sum_list (map unat ws) < 2 ^ LENGTH('a) \<Longrightarrow> unat (sum_list (ws :: 'a::len word list)) = sum_list (map unat ws)"
proof (induction ws)
  case (Cons w ws)
  then have "unat (sum_list ws) = sum_list (map unat ws)" by simp
  with Cons.prems show ?case by (simp add: unat_add_no_overflow)
qed simp

section \<open>Time\<close>

type_synonym instant = int
type_synonym duration = nat

definition from_secs :: "nat \<Rightarrow> duration" where
  "from_secs s = s * 1000000000"

text \<open>\<open>now.duration_since(t)\<close> fails when \<open>t\<close> is later than \<open>now\<close>.\<close>

definition duration_since :: "instant \<Rightarrow> instant \<Rightarrow> duration option" where
  "duration_since now t = (if t \<le> now then Some (nat (now - t)) else None)"

definition elapsed_or_zero :: "instant \<Rightarrow> instant \<Rightarrow> duration" where
  "elapsed_or_zero now t = (case duration_since now t of Some d \<Rightarrow> d | None \<Rightarrow> 0)"

lemma elapsed_or_zero_eq [simp]: "elapsed_or_zero now t = nat (now - t)"
  by (simp add: elapsed_or_zero_def duration_since_def)

section \<open>Floating point\<close>

text \<open>
  The operations of \<open>f64\<close> are an argument of the definitions that use them, and no
  theorem depends on how they round: \<open>f64_lit p q\<close> is the double nearest to \<open>p / q\<close>,
  which is what a literal and the cast of an integer give.
\<close>

record 'f f64_ops =
  f64_lit :: "nat \<Rightarrow> nat \<Rightarrow> 'f"
  f64_add :: "'f \<Rightarrow> 'f \<Rightarrow> 'f"
  f64_sub :: "'f \<Rightarrow> 'f \<Rightarrow> 'f"
  f64_mul :: "'f \<Rightarrow> 'f \<Rightarrow> 'f"
  f64_div :: "'f \<Rightarrow> 'f \<Rightarrow> 'f"
  f64_min :: "'f \<Rightarrow> 'f \<Rightarrow> 'f"
  f64_max :: "'f \<Rightarrow> 'f \<Rightarrow> 'f"
  f64_le :: "'f \<Rightarrow> 'f \<Rightarrow> bool"

section \<open>Indexing\<close>

definition rust_index :: "'a list \<Rightarrow> nat \<Rightarrow> 'a option" where
  "rust_index xs i = (if i < length xs then Some (xs ! i) else None)"

lemma rust_index_in_range [simp]: "i < length xs \<Longrightarrow> rust_index xs i = Some (xs ! i)"
  by (simp add: rust_index_def)

lemma rust_index_eq_None [simp]: "rust_index xs i = None \<longleftrightarrow> length xs \<le> i"
  by (auto simp: rust_index_def)

section \<open>Iteration order\<close>

text \<open>
  A hash container is iterated in an order the program does not control.  An
  operation that depends on it takes the order as an argument: a function that
  rearranges the elements, the same elements with the same multiplicities.
\<close>

definition iteration_order :: "('a list \<Rightarrow> 'a list) \<Rightarrow> bool" where
  "iteration_order ord \<longleftrightarrow>
     (\<forall>xs. set (ord xs) = set xs \<and> length (ord xs) = length xs \<and> (distinct xs \<longrightarrow> distinct (ord xs)))"

lemma iteration_order_id: "iteration_order (\<lambda>xs. xs)"
  by (simp add: iteration_order_def)

lemma iteration_order_rev: "iteration_order rev"
  by (simp add: iteration_order_def)

lemma iteration_orderD:
  assumes "iteration_order ord"
  shows "set (ord xs) = set xs" and "length (ord xs) = length xs"
    and "distinct xs \<Longrightarrow> distinct (ord xs)"
  using assms by (auto simp: iteration_order_def)

section \<open>Components as invariant-preserving machines\<close>

text \<open>
  The contract every stateful component meets: an initial state, one step per
  operation with its arguments as the event, an invariant the initial state has
  and every admissible step keeps.  What holds of one step then holds of every
  run, whatever the order of the operations.
\<close>

locale invariant_machine =
  fixes init :: 's
    and step :: "'e \<Rightarrow> 's \<Rightarrow> 's"
    and ok :: "'e \<Rightarrow> bool"
    and invar :: "'s \<Rightarrow> bool"
  assumes invar_init: "invar init"
    and invar_step: "ok e \<Longrightarrow> invar s \<Longrightarrow> invar (step e s)"
begin

lemma invar_run: "list_all ok es \<Longrightarrow> invar s \<Longrightarrow> invar (fold step es s)"
  by (induction es arbitrary: s) (auto intro: invar_step)

lemma invar_reachable: "list_all ok es \<Longrightarrow> invar (fold step es init)"
  by (rule invar_run [OF _ invar_init])

end

end
