(* ===== verification/Hash_Collections.thy ===== *)
theory Hash_Collections
  imports Rust_Prelude "HOL-Library.AList"
begin

text \<open>
  \<open>HashMap\<close>, \<open>DashMap\<close> and \<open>HashSet\<close> of the standard library and of dashmap, as the
  node uses them.  A map is an association list with distinct keys, a set a
  list with distinct elements; the list fixes no iteration order, since every
  operation that iterates takes the order as an argument.  The interface a
  client relies on is the locale \<open>hash_map\<close>, and the laws that only need the
  interface (bulk insertion and bulk removal) are proved there once.
\<close>

section \<open>The map interface\<close>

locale hash_map =
  fixes empty :: 'm
    and get :: "'m \<Rightarrow> 'k \<Rightarrow> 'v option"
    and insert :: "'k \<Rightarrow> 'v \<Rightarrow> 'm \<Rightarrow> 'm"
    and remove :: "'k \<Rightarrow> 'm \<Rightarrow> 'm"
    and modify :: "'k \<Rightarrow> ('v \<Rightarrow> 'v) \<Rightarrow> 'm \<Rightarrow> 'm"
    and wf :: "'m \<Rightarrow> bool"
  assumes get_empty: "get empty = Map.empty"
    and get_insert: "get (insert k v m) = (get m)(k \<mapsto> v)"
    and get_remove: "get (remove k m) = (get m)(k := None)"
    and get_modify: "get (modify k f m) = (get m)(k := map_option f (get m k))"
    and wf_empty: "wf empty"
    and wf_insert: "wf m \<Longrightarrow> wf (insert k v m)"
    and wf_remove: "wf m \<Longrightarrow> wf (remove k m)"
    and wf_modify: "wf m \<Longrightarrow> wf (modify k f m)"
begin

lemma get_fold_insert:
  "get (fold (\<lambda>k. insert k v) ks m) k = (if k \<in> set ks then Some v else get m k)"
  by (induction ks arbitrary: m) (auto simp: get_insert)

lemma get_fold_remove:
  "get (fold remove ks m) k = (if k \<in> set ks then None else get m k)"
  by (induction ks arbitrary: m) (auto simp: get_remove)

lemma get_fold_modify:
  "distinct ks \<Longrightarrow> get (fold (\<lambda>k. modify k f) ks m) k
    = (if k \<in> set ks then map_option f (get m k) else get m k)"
  by (induction ks arbitrary: m) (auto simp: get_modify)

lemma get_fold_modify_order:
  assumes "distinct ks" and "distinct ks'" and "set ks = set ks'"
  shows "get (fold (\<lambda>k. modify k f) ks m) = get (fold (\<lambda>k. modify k f) ks' m)"
  using assms by (simp add: fun_eq_iff get_fold_modify)

lemma wf_fold_insert: "wf m \<Longrightarrow> wf (fold (\<lambda>k. insert k v) ks m)"
  by (induction ks arbitrary: m) (auto intro: wf_insert)

lemma wf_fold_remove: "wf m \<Longrightarrow> wf (fold remove ks m)"
  by (induction ks arbitrary: m) (auto intro: wf_remove)

lemma wf_fold_modify: "wf m \<Longrightarrow> wf (fold (\<lambda>k. modify k f) ks m)"
  by (induction ks arbitrary: m) (auto intro: wf_modify)

end

section \<open>Maps as association lists\<close>

type_synonym ('k, 'v) hmap = "('k \<times> 'v) list"

abbreviation hm_get :: "('k, 'v) hmap \<Rightarrow> 'k \<Rightarrow> 'v option" where
  "hm_get \<equiv> map_of"

abbreviation hm_insert :: "'k \<Rightarrow> 'v \<Rightarrow> ('k, 'v) hmap \<Rightarrow> ('k, 'v) hmap" where
  "hm_insert \<equiv> AList.update"

definition hm_remove :: "'k \<Rightarrow> ('k, 'v) hmap \<Rightarrow> ('k, 'v) hmap" where
  "hm_remove k m = filter (\<lambda>p. fst p \<noteq> k) m"

definition hm_modify :: "'k \<Rightarrow> ('v \<Rightarrow> 'v) \<Rightarrow> ('k, 'v) hmap \<Rightarrow> ('k, 'v) hmap" where
  "hm_modify k f m = map (\<lambda>(k', v). (k', if k' = k then f v else v)) m"

definition hm_contains :: "('k, 'v) hmap \<Rightarrow> 'k \<Rightarrow> bool" where
  "hm_contains m k \<longleftrightarrow> map_of m k \<noteq> None"

definition hm_keys :: "('k, 'v) hmap \<Rightarrow> 'k list" where
  "hm_keys m = map fst m"

definition hm_values :: "('k, 'v) hmap \<Rightarrow> 'v list" where
  "hm_values m = map snd m"

definition hm_wf :: "('k, 'v) hmap \<Rightarrow> bool" where
  "hm_wf m \<longleftrightarrow> distinct (map fst m)"

definition hm_sum :: "('v \<Rightarrow> 'n::comm_monoid_add) \<Rightarrow> ('k, 'v) hmap \<Rightarrow> 'n" where
  "hm_sum f m = sum_list (map (\<lambda>p. f (snd p)) m)"

subsection \<open>Lookups\<close>

lemma hm_get_remove: "hm_get (hm_remove k m) = (hm_get m)(k := None)"
  by (induction m) (auto simp: hm_remove_def fun_eq_iff)

lemma hm_get_modify: "hm_get (hm_modify k f m) = (hm_get m)(k := map_option f (hm_get m k))"
  by (induction m) (auto simp: hm_modify_def fun_eq_iff)

lemma hm_keys_modify [simp]: "map fst (hm_modify k f m) = map fst m"
  by (simp add: hm_modify_def case_prod_beta comp_def)

lemma hm_wf_modify [simp]: "hm_wf (hm_modify k f m) \<longleftrightarrow> hm_wf m"
  by (simp add: hm_wf_def)

lemma hm_wf_remove: "hm_wf m \<Longrightarrow> hm_wf (hm_remove k m)"
  by (simp add: hm_wf_def hm_remove_def distinct_map_filter)

lemma hm_wf_insert: "hm_wf m \<Longrightarrow> hm_wf (hm_insert k v m)"
  by (simp add: hm_wf_def distinct_update)

lemma hm_wf_Nil [simp]: "hm_wf []"
  by (simp add: hm_wf_def)

interpretation hm: hash_map "[]" hm_get hm_insert hm_remove hm_modify hm_wf
  by unfold_locales
    (simp_all add: hm_get_remove hm_get_modify hm_wf_insert hm_wf_remove update_conv')

lemmas hm_gets [hm_simps] = update_conv' hm_get_remove hm_get_modify
  hm.get_fold_insert hm.get_fold_remove hm.get_fold_modify

lemma hm_contains_iff: "hm_contains m k \<longleftrightarrow> k \<in> set (hm_keys m)"
  by (simp add: hm_contains_def hm_keys_def map_of_eq_None_iff)

lemma hm_get_in_set: "hm_wf m \<Longrightarrow> (k, v) \<in> set m \<longleftrightarrow> hm_get m k = Some v"
  by (simp add: hm_wf_def map_of_eq_Some_iff)

lemma hm_values_iff: "hm_wf m \<Longrightarrow> v \<in> set (hm_values m) \<longleftrightarrow> (\<exists>k. hm_get m k = Some v)"
  by (force simp: hm_values_def hm_get_in_set [symmetric])

lemma hm_insert_fresh: "hm_get m k = None \<Longrightarrow> hm_insert k v m = m @ [(k, v)]"
  by (induction m) (auto split: if_splits)

subsection \<open>Sums over the values\<close>

lemma hm_sum_Nil [simp]: "hm_sum f [] = 0"
  by (simp add: hm_sum_def)

lemma hm_sum_Cons [simp]: "hm_sum f (p # m) = f (snd p) + hm_sum f m"
  by (simp add: hm_sum_def)

lemma hm_sum_modify: "(\<And>v. f (g v) = f v) \<Longrightarrow> hm_sum f (hm_modify k g m) = hm_sum f m"
  by (induction m) (auto simp: hm_modify_def)

lemma hm_sum_fold_modify:
  "(\<And>v. f (g v) = f v) \<Longrightarrow> hm_sum f (fold (\<lambda>k. hm_modify k g) ks m) = hm_sum f m"
  by (induction ks arbitrary: m) (auto simp: hm_sum_modify)

lemma hm_sum_insert_fresh:
  "hm_get m k = None \<Longrightarrow> hm_sum f (hm_insert k v m) = hm_sum f m + (f v :: 'n::comm_monoid_add)"
  by (simp add: hm_insert_fresh hm_sum_def)

lemma hm_remove_absent: "hm_get m k = None \<Longrightarrow> hm_remove k m = m"
  by (force simp: hm_remove_def filter_id_conv map_of_eq_None_iff)

lemma hm_sum_remove:
  assumes "hm_wf m" and "hm_get m k = Some v"
  shows "hm_sum f m = f v + (hm_sum f (hm_remove k m) :: 'n::comm_monoid_add)"
  using assms
proof (induction m)
  case Nil
  then show ?case by simp
next
  case (Cons p m)
  show ?case
  proof (cases "fst p = k")
    case True
    with Cons.prems have "hm_get m k = None" and "snd p = v"
      by (auto simp: hm_wf_def map_of_eq_None_iff split: if_splits)
    with True show ?thesis
      using hm_remove_absent [of m k] by (simp add: hm_remove_def)
  next
    case False
    with Cons.prems have "hm_get m k = Some v" and "hm_wf m"
      by (auto simp: hm_wf_def split: if_splits)
    from Cons.IH [OF this(2,1)] have "hm_sum f m = f v + hm_sum f (hm_remove k m)" .
    with False show ?thesis by (simp add: hm_remove_def add.left_commute)
  qed
qed

lemma hm_length_eq_sum: "length m = hm_sum (\<lambda>_. 1) m"
  by (induction m) auto

lemma hm_length_remove:
  assumes "hm_wf m" and "hm_get m k = Some v"
  shows "length m = Suc (length (hm_remove k m))"
  using hm_sum_remove [OF assms, of "\<lambda>_. 1 :: nat"] by (simp add: hm_length_eq_sum)

section \<open>Sets as distinct lists\<close>

type_synonym 'a hset = "'a list"

abbreviation hs_insert :: "'a \<Rightarrow> 'a hset \<Rightarrow> 'a hset" where
  "hs_insert \<equiv> List.insert"

abbreviation hs_remove :: "'a \<Rightarrow> 'a hset \<Rightarrow> 'a hset" where
  "hs_remove \<equiv> removeAll"

lemma distinct_hs_remove: "distinct xs \<Longrightarrow> distinct (hs_remove x xs)"
  by (rule distinct_removeAll)

end
