(* ===== verification/Net_Types.thy ===== *)
theory Net_Types
  imports Hash_Collections "HOL-Library.Multiset"
begin

text \<open>
  The types the networking components share: block hashes, socket addresses and
  the networks of the bitcoin crate, and the counters kept in hash maps
  (\<open>*m.entry(k).or_default() += 1\<close>).
\<close>

type_synonym block_hash = "256 word"

datatype network = Bitcoin | Testnet | Testnet4 | Signet | Regtest

datatype socket_addr = SocketAddrV4 u32 u16 | SocketAddrV6 "128 word" u16

section \<open>Counters\<close>

definition hm_count :: "('k, nat) hmap \<Rightarrow> 'k \<Rightarrow> nat" where
  "hm_count m k = (case hm_get m k of None \<Rightarrow> 0 | Some n \<Rightarrow> n)"

definition hm_bump :: "'k \<Rightarrow> ('k, nat) hmap \<Rightarrow> ('k, nat) hmap" where
  "hm_bump k m = hm_insert k (hm_count m k + 1) m"

lemma hm_count_Nil [simp]: "hm_count [] k = 0"
  by (simp add: hm_count_def)

lemma hm_count_bump: "hm_count (hm_bump k m) a = hm_count m a + of_bool (a = k)"
  by (auto simp: hm_count_def hm_bump_def hm_simps)

lemma hm_wf_bump: "hm_wf m \<Longrightarrow> hm_wf (hm_bump k m)"
  by (simp add: hm_bump_def hm_wf_insert)

lemma hm_count_modify:
  "f 0 = 0 \<Longrightarrow> hm_count (hm_modify k f m) a = (if a = k then f (hm_count m a) else hm_count m a)"
  by (auto simp: hm_count_def hm_simps split: option.splits)

lemma hm_count_fold_bump: "hm_count (fold hm_bump ks m) a = hm_count m a + count_list ks a"
  by (induction ks arbitrary: m) (auto simp: hm_count_bump)

lemma hm_wf_fold_bump: "hm_wf m \<Longrightarrow> hm_wf (fold hm_bump ks m)"
  by (induction ks arbitrary: m) (auto simp: hm_wf_bump)

lemma hm_count_fold_sub:
  "distinct (map fst ds) \<Longrightarrow>
   hm_count (fold (\<lambda>(k, n). hm_modify k (\<lambda>c. c - n)) ds m) a = hm_count m a - hm_count ds a"
proof (induction ds arbitrary: m)
  case Nil
  then show ?case by simp
next
  case (Cons d ds)
  obtain k n where d: "d = (k, n)" by (cases d)
  with Cons.prems have "hm_count ds k = 0"
    by (auto simp: hm_count_def dest: map_of_SomeD split: option.splits) (metis fst_conv image_eqI)
  with Cons d show ?case by (auto simp: hm_count_modify) (auto simp: hm_count_def)
qed

section \<open>Sums after an overwrite\<close>

lemma hm_sum_insert:
  "hm_wf m \<Longrightarrow> hm_sum f (hm_insert k v m) = f v + (hm_sum f (hm_remove k m) :: 'n::comm_monoid_add)"
proof (cases "hm_get m k")
  case None
  then show "hm_wf m \<Longrightarrow> ?thesis" by (simp add: hm_sum_insert_fresh hm_remove_absent add.commute)
next
  case (Some w)
  assume wf: "hm_wf m"
  have "hm_remove k (hm_insert k v m) = hm_remove k m"
    by (induction m) (auto simp: hm_remove_def)
  with hm_sum_remove [OF hm_wf_insert [OF wf], of k v k v f] show ?thesis by (simp add: hm_simps)
qed

lemma hm_sum_remove_le: "hm_wf m \<Longrightarrow> hm_sum f (hm_remove k m) \<le> (hm_sum f m :: nat)"
  by (cases "hm_get m k") (simp_all add: hm_remove_absent hm_sum_remove)

lemma hm_length_insert: "hm_wf m \<Longrightarrow> length (hm_insert k v m) \<le> Suc (length m)"
  using hm_sum_insert [of m "\<lambda>_. 1 :: nat" k v] hm_sum_remove_le [of m "\<lambda>_. 1 :: nat" k]
  by (simp add: hm_length_eq_sum)

section \<open>Filtering a map (\<open>retain\<close>)\<close>

lemma hm_get_filter:
  assumes "hm_wf m"
  shows "hm_get (filter (\<lambda>p. P (fst p) (snd p)) m) k =
    (case hm_get m k of None \<Rightarrow> None | Some v \<Rightarrow> if P k v then Some v else None)"
  using assms
proof (induction m)
  case Nil
  then show ?case by simp
next
  case (Cons p m)
  then have "hm_get m (fst p) = None" by (simp add: hm_wf_def map_of_eq_None_iff)
  with Cons show ?case by (auto simp: hm_wf_def split: option.splits)
qed

lemma hm_wf_filter: "hm_wf m \<Longrightarrow> hm_wf (filter P m)"
  by (simp add: hm_wf_def distinct_map_filter)

lemma iteration_order_mset:
  assumes "iteration_order ord" and "distinct m"
  shows "mset (ord m) = mset m"
  using assms by (metis iteration_orderD(1,3) set_eq_iff_mset_eq_distinct)

lemma iteration_order_count_list:
  assumes "iteration_order ord" and "hm_wf m"
  shows "count_list (map f (filter P (ord m))) a = count_list (map f (filter P m)) a"
proof -
  have "distinct m" using assms(2) by (simp add: hm_wf_def distinct_map)
  then have "mset (map f (filter P (ord m))) = mset (map f (filter P m))"
    using iteration_order_mset [OF assms(1)] by simp
  then show ?thesis by (metis count_mset)
qed

end
