(* ===== verification/Inventory.thy ===== *)
theory Inventory
  imports Net_Types
begin

text \<open>
  The inventory manager of \<^verbatim>\<open>src/p2p/inventory.rs\<close>: which transactions and blocks
  are wanted, requested, held and announced.  \<open>ord\<close> is the iteration order of a
  hash container, \<open>clk k\<close> the clock at the \<open>k\<close>-th pass of a loop.
\<close>

section \<open>Inventory types\<close>

datatype inv_type = TxT | BlockT | FilteredBlockT | CompactBlockT | WitnessTxT | WitnessBlockT

fun to_u32 :: "inv_type \<Rightarrow> u32" where
  "to_u32 TxT = 1"
| "to_u32 BlockT = 2"
| "to_u32 FilteredBlockT = 3"
| "to_u32 CompactBlockT = 4"
| "to_u32 WitnessTxT = 0x40000001"
| "to_u32 WitnessBlockT = 0x40000002"

definition from_u32 :: "u32 \<Rightarrow> inv_type option" where
  "from_u32 v =
     (if v = 1 then Some TxT else if v = 2 then Some BlockT else if v = 3 then Some FilteredBlockT
      else if v = 4 then Some CompactBlockT else if v = 0x40000001 then Some WitnessTxT
      else if v = 0x40000002 then Some WitnessBlockT else None)"

text \<open>The wire code of an inventory type decodes to it and to nothing else, and every
  other code is refused.\<close>

theorem inv_type_roundtrip: "from_u32 v = Some t \<longleftrightarrow> to_u32 t = v"
  by (cases t) (auto simp: from_u32_def)

datatype inv_id = InvTx "256 word" | InvBlock block_hash

fun as_tx :: "inv_id \<Rightarrow> 256 word option" where
  "as_tx (InvTx t) = Some t"
| "as_tx _ = None"

fun as_block :: "inv_id \<Rightarrow> block_hash option" where
  "as_block (InvBlock h) = Some h"
| "as_block _ = None"

section \<open>State and operations\<close>

record request_state =
  rs_peer :: socket_addr
  requested_at :: instant
  attempts :: u32

record inventory_manager =
  wanted :: "inv_id hset"
  in_flight :: "(inv_id, request_state) hmap"
  have_items :: "inv_id hset"
  announced :: "(inv_id, socket_addr hset) hmap"
  request_timeout :: duration
  max_per_peer :: nat
  max_in_flight :: nat

definition inventory_new :: inventory_manager where
  "inventory_new =
     \<lparr>wanted = [], in_flight = [], have_items = [], announced = [], request_timeout = from_secs 120,
      max_per_peer = 16, max_in_flight = 256\<rparr>"

definition want :: "inv_id \<Rightarrow> inventory_manager \<Rightarrow> inventory_manager" where
  "want i m =
     (if i \<notin> set (have_items m) \<and> \<not> hm_contains (in_flight m) i
      then m\<lparr>wanted := hs_insert i (wanted m)\<rparr> else m)"

definition mark_received :: "inv_id \<Rightarrow> inventory_manager \<Rightarrow> inventory_manager" where
  "mark_received i m =
     m\<lparr>wanted := hs_remove i (wanted m), in_flight := hm_remove i (in_flight m),
       have_items := hs_insert i (have_items m)\<rparr>"

definition announce :: "inv_id \<Rightarrow> socket_addr \<Rightarrow> inventory_manager \<Rightarrow> inventory_manager" where
  "announce i peer m =
     (let known = (case hm_get (announced m) i of None \<Rightarrow> [] | Some ps \<Rightarrow> ps);
          m' = m\<lparr>announced := hm_insert i (hs_insert peer known) (announced m)\<rparr>
      in if i \<notin> set (have_items m') then m'\<lparr>wanted := hs_insert i (wanted m')\<rparr> else m')"

definition peer_requests :: "socket_addr \<Rightarrow> inventory_manager \<Rightarrow> nat" where
  "peer_requests peer m = length (filter (\<lambda>st. rs_peer st = peer) (hm_values (in_flight m)))"

definition announced_by :: "socket_addr \<Rightarrow> inventory_manager \<Rightarrow> inv_id \<Rightarrow> bool" where
  "announced_by peer m i =
     (case hm_get (announced m) i of None \<Rightarrow> False | Some ps \<Rightarrow> peer \<in> set ps)"

fun select_requests ::
  "socket_addr \<Rightarrow> inventory_manager \<Rightarrow> nat \<Rightarrow> inv_id list \<Rightarrow> inv_id list \<Rightarrow> inv_id list" where
  "select_requests peer m current [] requests = requests"
| "select_requests peer m current (i # is) requests =
     (if length requests \<ge> max_per_peer m - current then requests
      else if length (in_flight m) + length requests \<ge> max_in_flight m then requests
      else select_requests peer m current is
             (if announced_by peer m i then requests @ [i] else requests))"

fun mark_in_flight ::
  "(nat \<Rightarrow> instant) \<Rightarrow> nat \<Rightarrow> socket_addr \<Rightarrow> inv_id list \<Rightarrow> inventory_manager \<Rightarrow> inventory_manager" where
  "mark_in_flight clk k peer [] m = m"
| "mark_in_flight clk k peer (i # is) m =
     mark_in_flight clk (k + 1) peer is
       (m\<lparr>wanted := hs_remove i (wanted m),
          in_flight := hm_insert i \<lparr>rs_peer = peer, requested_at = clk k, attempts = 1\<rparr> (in_flight m)\<rparr>)"

definition get_requests ::
  "(inv_id list \<Rightarrow> inv_id list) \<Rightarrow> (nat \<Rightarrow> instant) \<Rightarrow> socket_addr \<Rightarrow> inventory_manager \<Rightarrow>
   inv_id list \<times> inventory_manager" where
  "get_requests ord clk peer m =
     (if length (in_flight m) \<ge> max_in_flight m then ([], m)
      else
        let current_peer_requests = peer_requests peer m in
        if current_peer_requests \<ge> max_per_peer m then ([], m)
        else
          let requests = select_requests peer m current_peer_requests (ord (wanted m)) []
          in (requests, mark_in_flight clk 0 peer requests m))"

definition timed_out :: "instant \<Rightarrow> duration \<Rightarrow> request_state \<Rightarrow> bool" where
  "timed_out now tmo st =
     (case duration_since now (requested_at st) of None \<Rightarrow> False | Some elapsed \<Rightarrow> elapsed > tmo)"

definition retry_request :: "inv_id \<times> u32 \<Rightarrow> inventory_manager \<Rightarrow> inventory_manager" where
  "retry_request = (\<lambda>(i, att) m.
     let m' = m\<lparr>in_flight := hm_remove i (in_flight m)\<rparr>
     in if att < 3 then m'\<lparr>wanted := hs_insert i (wanted m')\<rparr> else m')"

definition check_timeouts ::
  "((inv_id \<times> request_state) list \<Rightarrow> (inv_id \<times> request_state) list) \<Rightarrow> (inv_id list \<Rightarrow> inv_id list) \<Rightarrow>
   instant \<Rightarrow> inventory_manager \<Rightarrow> inv_id list \<times> inventory_manager" where
  "check_timeouts ord word now m =
     (let late = map (\<lambda>(i, st). (i, attempts st))
                   (filter (\<lambda>(i, st). timed_out now (request_timeout m) st) (ord (in_flight m)));
          m' = fold retry_request late m
      in (word (wanted m'), m'))"

definition wanted_count :: "inventory_manager \<Rightarrow> nat" where
  "wanted_count m = length (wanted m)"

definition in_flight_count :: "inventory_manager \<Rightarrow> nat" where
  "in_flight_count m = length (in_flight m)"

definition has_item :: "inv_id \<Rightarrow> inventory_manager \<Rightarrow> bool" where
  "has_item i m \<longleftrightarrow> i \<in> set (have_items m)"

definition prune_have :: "(inv_id list \<Rightarrow> inv_id list) \<Rightarrow> nat \<Rightarrow> inventory_manager \<Rightarrow> inventory_manager" where
  "prune_have ord keep m =
     (if length (have_items m) > keep
      then let to_remove = length (have_items m) - keep;
               remove_list = take to_remove (ord (have_items m))
           in m\<lparr>have_items := fold hs_remove remove_list (have_items m)\<rparr>
      else m)"

section \<open>The invariant\<close>

text \<open>Requests stay within both limits, nothing held is wanted or requested, every
  request went to a peer that announced the item, and every request is a first
  attempt.\<close>

definition inv_limits :: "inventory_manager \<Rightarrow> bool" where
  "inv_limits m \<longleftrightarrow> length (in_flight m) \<le> max_in_flight m \<and> (\<forall>p. peer_requests p m \<le> max_per_peer m)"

definition inv_requests_ok :: "inventory_manager \<Rightarrow> bool" where
  "inv_requests_ok m \<longleftrightarrow>
     (\<forall>i st. hm_get (in_flight m) i = Some st \<longrightarrow>
        i \<notin> set (have_items m) \<and> announced_by (rs_peer st) m i \<and> attempts st = 1)"

definition inv_invar :: "inventory_manager \<Rightarrow> bool" where
  "inv_invar m \<longleftrightarrow> distinct (wanted m) \<and> distinct (have_items m) \<and> hm_wf (in_flight m) \<and>
     set (wanted m) \<inter> set (have_items m) = {} \<and> inv_limits m \<and> inv_requests_ok m"

lemma peer_requests_sum: "peer_requests p m = hm_sum (\<lambda>st. of_bool (rs_peer st = p)) (in_flight m)"
proof -
  have "length (filter (\<lambda>st. rs_peer st = p) (hm_values f)) = hm_sum (\<lambda>st. of_bool (rs_peer st = p)) f" for f
    by (induction f) (auto simp: hm_values_def)
  then show ?thesis by (simp add: peer_requests_def)
qed

lemma peer_requests_remove:
  assumes "hm_wf (in_flight m)" and "in_flight m' = hm_remove i (in_flight m)"
  shows "peer_requests p m' \<le> peer_requests p m" and "length (in_flight m') \<le> length (in_flight m)"
  using hm_sum_remove_le [OF assms(1)] assms(2)
  by (simp_all add: peer_requests_sum hm_length_eq_sum)

lemma peer_requests_insert:
  assumes "hm_wf (in_flight m)" and "in_flight m' = hm_insert i st (in_flight m)"
  shows "peer_requests p m' \<le> peer_requests p m + of_bool (p = rs_peer st)"
  using hm_sum_insert [OF assms(1), of "\<lambda>st. of_bool (rs_peer st = p) :: nat" i st]
    hm_sum_remove_le [OF assms(1), of "\<lambda>st. of_bool (rs_peer st = p)" i] assms(2)
  by (auto simp: peer_requests_sum)

lemma inv_invar_new [invar_intros]: "inv_invar inventory_new"
  by (simp add: inv_invar_def inventory_new_def inv_limits_def inv_requests_ok_def peer_requests_def hm_values_def)

lemma inv_frame:
  assumes "in_flight m' = in_flight m" "max_per_peer m' = max_per_peer m" "max_in_flight m' = max_in_flight m"
  shows "inv_limits m' \<longleftrightarrow> inv_limits m"
  using assms by (simp add: inv_limits_def peer_requests_def)

lemma inv_limits_remove:
  assumes "hm_wf (in_flight m)" and "in_flight m' = hm_remove i (in_flight m)"
    and "max_per_peer m' = max_per_peer m" "max_in_flight m' = max_in_flight m" and "inv_limits m"
  shows "inv_limits m'"
  using peer_requests_remove [OF assms(1,2)] assms(3-5) unfolding inv_limits_def
  by (metis order_trans)

lemma inv_invar_want [invar_intros]: "inv_invar m \<Longrightarrow> inv_invar (want i m)"
  using inv_frame [of "want i m" m]
  by (auto simp: inv_invar_def want_def inv_requests_ok_def announced_by_def)

lemma inv_invar_announce [invar_intros]:
  assumes "inv_invar m"
  shows "inv_invar (announce i p m)"
proof -
  have "announced_by q m j \<Longrightarrow> announced_by q (announce i p m) j" for q j
    by (auto simp: announced_by_def announce_def Let_def hm_simps split: option.splits)
  with assms inv_frame [of "announce i p m" m] show ?thesis
    by (auto simp: inv_invar_def announce_def Let_def inv_requests_ok_def)
qed

lemma inv_invar_mark_received [invar_intros]:
  assumes "inv_invar m"
  shows "inv_invar (mark_received i m)"
proof -
  have wf: "hm_wf (in_flight m)" using assms by (simp add: inv_invar_def)
  have "inv_limits (mark_received i m)"
    using inv_limits_remove [OF wf] assms by (simp add: inv_invar_def mark_received_def)
  with assms wf show ?thesis
    by (auto simp: inv_invar_def mark_received_def inv_requests_ok_def announced_by_def hm_wf_remove
        distinct_removeAll hm_simps split: if_splits)
qed

lemma inv_invar_prune_have [invar_intros]:
  assumes "inv_invar m"
  shows "inv_invar (prune_have ord keep m)"
proof -
  have f: "set (fold hs_remove xs ys) = set ys - set xs" "distinct ys \<Longrightarrow> distinct (fold hs_remove xs ys)"
    for xs ys :: "inv_id list"
    by (induction xs arbitrary: ys) (auto simp: distinct_removeAll)
  with assms inv_frame [of "prune_have ord keep m" m] show ?thesis
    by (auto simp: inv_invar_def prune_have_def Let_def inv_requests_ok_def announced_by_def)
qed

subsection \<open>Requests\<close>

lemma select_requests_ok:
  assumes "distinct (requests @ is)" and "list_all (announced_by peer m) requests"
    and "length requests \<le> max_per_peer m - current" and "length (in_flight m) + length requests \<le> max_in_flight m"
    and "r = select_requests peer m current is requests"
  shows "distinct r \<and> set requests \<subseteq> set r \<and> set r \<subseteq> set requests \<union> set is \<and> list_all (announced_by peer m) r \<and>
     length r \<le> max_per_peer m - current \<and> length (in_flight m) + length r \<le> max_in_flight m \<and>
     (length r < max_per_peer m - current \<and> length (in_flight m) + length r < max_in_flight m \<longrightarrow>
        set r = set requests \<union> {i \<in> set is. announced_by peer m i})"
  using assms
proof (induction "is" arbitrary: requests)
  case Nil
  then show ?case by simp
next
  case (Cons i "is")
  show ?case
  proof (cases "length requests \<ge> max_per_peer m - current \<or> length (in_flight m) + length requests \<ge> max_in_flight m")
    case True
    with Cons.prems show ?thesis by auto
  next
    case False
    let ?rs = "if announced_by peer m i then requests @ [i] else requests"
    have "r = select_requests peer m current is ?rs" using False Cons.prems(5) by auto
    from Cons.IH [OF _ _ _ _ this] False Cons.prems(1,2) show ?thesis
      by (cases "announced_by peer m i") auto
  qed
qed

lemma mark_in_flight_fields:
  assumes "r = mark_in_flight clk k peer is m"
  shows "set (wanted r) = set (wanted m) - set is" "distinct (wanted m) \<Longrightarrow> distinct (wanted r)"
    "have_items r = have_items m" "announced r = announced m" "request_timeout r = request_timeout m"
    "max_per_peer r = max_per_peer m" "max_in_flight r = max_in_flight m"
    "j \<notin> set is \<Longrightarrow> hm_get (in_flight r) j = hm_get (in_flight m) j"
    "distinct is \<Longrightarrow> j \<in> set is \<Longrightarrow> \<exists>t. hm_get (in_flight r) j = Some \<lparr>rs_peer = peer, requested_at = t, attempts = 1\<rparr>"
  using assms
  by (induction "is" arbitrary: k m) (auto simp: hm_simps distinct_removeAll)

lemma mark_in_flight_counts:
  assumes "hm_wf (in_flight m)" and "r = mark_in_flight clk k peer is m"
  shows "hm_wf (in_flight r) \<and> length (in_flight r) \<le> length (in_flight m) + length is \<and>
    peer_requests p r \<le> peer_requests p m + (if p = peer then length is else 0)"
  using assms
proof (induction "is" arbitrary: k m)
  case Nil
  then show ?case by simp
next
  case (Cons i "is")
  let ?m = "m\<lparr>wanted := hs_remove i (wanted m),
          in_flight := hm_insert i \<lparr>rs_peer = peer, requested_at = clk k, attempts = 1\<rparr> (in_flight m)\<rparr>"
  have "hm_wf (in_flight ?m)" using Cons.prems(1) by (simp add: hm_wf_insert)
  from Cons.IH [OF this, of "k + 1"] Cons.prems(2) hm_length_insert [OF Cons.prems(1)]
    peer_requests_insert [OF Cons.prems(1), of ?m i "\<lparr>rs_peer = peer, requested_at = clk k, attempts = 1\<rparr>" p]
  show ?case by (auto split: if_splits intro: order_trans)
qed

text \<open>What \<open>get_requests\<close> does when the capacity checks pass.\<close>

lemma get_requests_cases:
  assumes inv: "inv_invar m" and ord: "iteration_order ord" and g: "get_requests ord clk peer m = (rs, m')"
  obtains (full) "rs = []" "m' = m" "length (in_flight m) \<ge> max_in_flight m \<or> peer_requests peer m \<ge> max_per_peer m"
  | (room) "m' = mark_in_flight clk 0 peer rs m" "distinct rs" "set rs \<subseteq> set (wanted m)"
    "list_all (announced_by peer m) rs" "length rs + peer_requests peer m \<le> max_per_peer m"
    "length (in_flight m) + length rs \<le> max_in_flight m"
    "length rs + peer_requests peer m < max_per_peer m \<and> length (in_flight m) + length rs < max_in_flight m
       \<longrightarrow> set rs = {i \<in> set (wanted m). announced_by peer m i}"
proof (cases "length (in_flight m) \<ge> max_in_flight m \<or> peer_requests peer m \<ge> max_per_peer m")
  case True
  with g have "rs = []" "m' = m" by (auto simp: get_requests_def Let_def split: if_splits)
  with True full show ?thesis by blast
next
  case False
  then have rs: "rs = select_requests peer m (peer_requests peer m) (ord (wanted m)) []"
    and m': "m' = mark_in_flight clk 0 peer rs m"
    using g by (auto simp: get_requests_def Let_def)
  have d: "distinct ([] @ ord (wanted m))" using inv iteration_orderD(3) [OF ord] by (simp add: inv_invar_def)
  have lim: "length r \<le> max_per_peer m - peer_requests peer m \<longleftrightarrow> length r + peer_requests peer m \<le> max_per_peer m"
    "length r < max_per_peer m - peer_requests peer m \<longleftrightarrow> length r + peer_requests peer m < max_per_peer m"
    for r :: "inv_id list"
    using False by auto
  show ?thesis
    using select_requests_ok [OF d _ _ _ rs] False
    by (intro room) (simp_all add: m' lim iteration_orderD(1) [OF ord])
qed

lemma inv_invar_get_requests [invar_intros]:
  assumes inv: "inv_invar m" and ord: "iteration_order ord"
  shows "inv_invar (snd (get_requests ord clk peer m))"
proof -
  obtain rs m' where g: "get_requests ord clk peer m = (rs, m')" by fastforce
  from inv ord g show ?thesis
  proof (cases rule: get_requests_cases)
    case full
    with g inv show ?thesis by simp
  next
    case room
    have wf: "hm_wf (in_flight m)" using inv by (simp add: inv_invar_def)
    note f = mark_in_flight_fields [OF room(1)] and c = mark_in_flight_counts [OF wf room(1)]
    have "peer_requests p m' \<le> max_per_peer m" for p
      using c [of p] room(5) inv by (auto simp: inv_invar_def inv_limits_def split: if_splits intro: order_trans)
    then have "inv_limits m'" using c room(6) f(6,7) by (auto simp: inv_limits_def intro: order_trans)
    moreover have "inv_requests_ok m'"
      unfolding inv_requests_ok_def
    proof (intro allI impI)
      fix i st
      assume st: "hm_get (in_flight m') i = Some st"
      show "i \<notin> set (have_items m') \<and> announced_by (rs_peer st) m' i \<and> attempts st = 1"
      proof (cases "i \<in> set rs")
        case True
        with f(9) [OF room(2)] st have "rs_peer st = peer" "attempts st = 1" by fastforce+
        moreover have "i \<notin> set (have_items m)" "announced_by peer m i"
          using True room(3,4) inv by (auto simp: inv_invar_def list_all_iff)
        ultimately show ?thesis using f(3,4) by (simp add: announced_by_def)
      next
        case False
        with st f(3,4,8) inv show ?thesis by (simp add: inv_invar_def inv_requests_ok_def announced_by_def)
      qed
    qed
    ultimately show ?thesis using g c f(1-3) inv by (auto simp: inv_invar_def)
  qed
qed

subsection \<open>Timeouts\<close>

lemma inv_invar_retry:
  assumes "inv_invar m" and "i \<notin> set (have_items m)"
  shows "inv_invar (retry_request (i, att) m)"
proof -
  have wf: "hm_wf (in_flight m)" using assms by (simp add: inv_invar_def)
  have "in_flight (retry_request (i, att) m) = hm_remove i (in_flight m)"
    by (simp add: retry_request_def Let_def)
  moreover have "max_per_peer (retry_request (i, att) m) = max_per_peer m"
    "max_in_flight (retry_request (i, att) m) = max_in_flight m"
    by (simp_all add: retry_request_def Let_def)
  ultimately have "inv_limits (retry_request (i, att) m)"
    using inv_limits_remove [OF wf] assms(1) by (simp add: inv_invar_def)
  with assms wf show ?thesis
    by (auto simp: inv_invar_def retry_request_def Let_def inv_requests_ok_def announced_by_def hm_wf_remove
        hm_simps split: if_splits)
qed

lemma retry_fields [simp]:
  "have_items (retry_request (i, att) m) = have_items m"
  "hm_get (in_flight (retry_request (i, att) m)) = (hm_get (in_flight m))(i := None)"
  "set (wanted (retry_request (i, att) m)) = set (wanted m) \<union> (if att < 3 then {i} else {})"
  by (auto simp: retry_request_def Let_def hm_simps)

lemma fold_retry:
  "have_items (fold retry_request late m) = have_items m \<and>
   hm_get (in_flight (fold retry_request late m)) j =
     (if j \<in> fst ` set late then None else hm_get (in_flight m) j) \<and>
   set (wanted (fold retry_request late m)) = set (wanted m) \<union> {i. \<exists>att. (i, att) \<in> set late \<and> att < 3}"
proof (induction late arbitrary: m)
  case Nil
  then show ?case by simp
next
  case (Cons x late)
  obtain i att where x: "x = (i, att)" by (cases x)
  from Cons [of "retry_request (i, att) m"] show ?case by (auto simp: x)
qed

lemma inv_invar_fold_retry:
  "inv_invar m \<Longrightarrow> \<forall>(i, att) \<in> set late. i \<notin> set (have_items m) \<Longrightarrow> inv_invar (fold retry_request late m)"
  by (induction late arbitrary: m) (auto simp: inv_invar_retry)

lemma late_items:
  assumes "inv_invar m" and "iteration_order ord"
    and "late = map (\<lambda>(i, st). (i, attempts st))
      (filter (\<lambda>(i, st). timed_out now (request_timeout m) st) (ord (in_flight m)))"
  shows "(i, att) \<in> set late \<longleftrightarrow>
    (\<exists>st. hm_get (in_flight m) i = Some st \<and> timed_out now (request_timeout m) st \<and> att = 1)"
proof -
  have wf: "hm_wf (in_flight m)" using assms(1) by (simp add: inv_invar_def)
  have one: "hm_get (in_flight m) i = Some st \<Longrightarrow> attempts st = 1" for i st
    using assms(1) by (simp add: inv_invar_def inv_requests_ok_def)
  show ?thesis
    using one unfolding assms(3)
    by (force simp: iteration_orderD(1) [OF assms(2)] hm_get_in_set [OF wf])
qed

lemma inv_invar_check_timeouts [invar_intros]:
  assumes "inv_invar m" and "iteration_order ord"
  shows "inv_invar (snd (check_timeouts ord word now m))"
proof -
  let ?late = "map (\<lambda>(i, st). (i, attempts st))
      (filter (\<lambda>(i, st). timed_out now (request_timeout m) st) (ord (in_flight m)))"
  have "i \<notin> set (have_items m)" if "(i, att) \<in> set ?late" for i att
    using that late_items [OF assms refl, of i att now] assms(1)
    unfolding inv_invar_def inv_requests_ok_def by blast
  then have "inv_invar (fold retry_request ?late m)"
    by (intro inv_invar_fold_retry [OF assms(1)]) blast
  then show ?thesis by (simp add: check_timeouts_def Let_def)
qed

section \<open>Runs\<close>

datatype inv_op =
    Want inv_id
  | Received inv_id
  | Announce inv_id socket_addr
  | Requests "inv_id list \<Rightarrow> inv_id list" "nat \<Rightarrow> instant" socket_addr
  | Timeouts "(inv_id \<times> request_state) list \<Rightarrow> (inv_id \<times> request_state) list" "inv_id list \<Rightarrow> inv_id list" instant
  | Prune "inv_id list \<Rightarrow> inv_id list" nat

fun inv_step :: "inv_op \<Rightarrow> inventory_manager \<Rightarrow> inventory_manager" where
  "inv_step (Want i) m = want i m"
| "inv_step (Received i) m = mark_received i m"
| "inv_step (Announce i p) m = announce i p m"
| "inv_step (Requests ord clk p) m = snd (get_requests ord clk p m)"
| "inv_step (Timeouts ord word now) m = snd (check_timeouts ord word now m)"
| "inv_step (Prune ord keep) m = prune_have ord keep m"

fun inv_ok :: "inv_op \<Rightarrow> bool" where
  "inv_ok (Requests ord clk p) = iteration_order ord"
| "inv_ok (Timeouts ord word now) = iteration_order ord"
| "inv_ok _ = True"

interpretation inventory_machine: invariant_machine inventory_new inv_step inv_ok inv_invar
proof unfold_locales
  show "inv_invar (inv_step e s)" if "inv_ok e" "inv_invar s" for e s
    using that by (cases e) (simp_all add: invar_intros)
qed (rule inv_invar_new)

lemma fold_retry_limits:
  "max_per_peer (fold retry_request late m) = max_per_peer m \<and> max_in_flight (fold retry_request late m) = max_in_flight m"
  by (induction late arbitrary: m) (auto simp: retry_request_def Let_def)

lemma inv_step_limits: "max_per_peer (inv_step op m) = max_per_peer m \<and> max_in_flight (inv_step op m) = max_in_flight m"
  by (cases op) (auto simp: want_def mark_received_def announce_def prune_have_def get_requests_def check_timeouts_def
      Let_def mark_in_flight_fields(6,7) [OF refl] fold_retry_limits)

abbreviation inv_run :: "inv_op list \<Rightarrow> inventory_manager" where
  "inv_run ops \<equiv> fold inv_step ops inventory_new"

lemma inv_run_limits: "max_per_peer (inv_run ops) = 16 \<and> max_in_flight (inv_run ops) = 256"
  by (induction ops rule: rev_induct) (simp_all add: inv_step_limits, simp add: inventory_new_def)

subsection \<open>A sample run\<close>

abbreviation peer_1 :: socket_addr where "peer_1 \<equiv> SocketAddrV4 1 8333"
abbreviation peer_2 :: socket_addr where "peer_2 \<equiv> SocketAddrV4 2 8333"

definition sample_inv :: "inv_op list" where
  "sample_inv =
     [Announce (InvTx 7) peer_1, Announce (InvTx 8) peer_1, Announce (InvTx 9) peer_2,
      Requests rev (\<lambda>_. 0) peer_1, Received (InvTx 8)]"

lemma sample_inv_ok: "list_all inv_ok sample_inv"
  by (simp add: sample_inv_def iteration_order_rev)

lemmas inv_exec = announce_def want_def mark_received_def get_requests_def announced_by_def
  peer_requests_def hm_values_def hm_remove_def Let_def List.insert_def

lemma sample_inv_result:
  "inv_run sample_inv =
     \<lparr>wanted = [InvTx 9], in_flight = [(InvTx 7, \<lparr>rs_peer = peer_1, requested_at = 0, attempts = 1\<rparr>)],
      have_items = [InvTx 8], announced = [(InvTx 7, [peer_1]), (InvTx 8, [peer_1]), (InvTx 9, [peer_2])],
      request_timeout = from_secs 120, max_per_peer = 16, max_in_flight = 256\<rparr>"
  by (simp add: sample_inv_def inventory_new_def inv_exec)

section \<open>Properties\<close>

text \<open>C34. In every run of the manager at most 256 items are requested at once, at most 16
  from any peer, every request goes to a peer that announced the item, and no item
  that is held is wanted or requested.\<close>

theorem inventory_limits_respected:
  assumes "list_all inv_ok ops" and "m = inv_run ops"
  shows "length (in_flight m) \<le> 256 \<and> peer_requests p m \<le> 16 \<and>
    set (have_items m) \<inter> (set (wanted m) \<union> dom (hm_get (in_flight m))) = {} \<and>
    (\<forall>i st. hm_get (in_flight m) i = Some st \<longrightarrow> announced_by (rs_peer st) m i)"
proof -
  have "inv_invar m" using inventory_machine.invar_reachable [OF assms(1)] assms(2) by simp
  with inv_run_limits [of ops] assms(2) show ?thesis
    by (auto simp: inv_invar_def inv_limits_def inv_requests_ok_def)
qed

theorem inventory_limits_respected_witness:
  "length (in_flight (inv_run sample_inv)) = 1 \<and> peer_requests peer_1 (inv_run sample_inv) \<le> 16 \<and>
   InvTx 8 \<in> set (have_items (inv_run sample_inv))"
  using inventory_limits_respected [OF sample_inv_ok refl, of peer_1] by (simp add: sample_inv_result)

text \<open>A request batch for a peer holds distinct wanted items the peer announced, fits
  both limits, takes every such item unless a limit stops it, and moves exactly the
  batch from wanted to requested.\<close>

theorem get_requests_batch:
  assumes "inv_invar m" and "iteration_order ord" and "get_requests ord clk peer m = (rs, m')"
  shows "distinct rs \<and> set rs \<subseteq> {i \<in> set (wanted m). announced_by peer m i} \<and>
    (length rs + peer_requests peer m < max_per_peer m \<and> length (in_flight m) + length rs < max_in_flight m
       \<longrightarrow> set rs = {i \<in> set (wanted m). announced_by peer m i}) \<and>
    set (wanted m') = set (wanted m) - set rs \<and>
    dom (hm_get (in_flight m')) = dom (hm_get (in_flight m)) \<union> set rs \<and>
    (\<forall>i \<in> set rs. \<exists>st. hm_get (in_flight m') i = Some st \<and> rs_peer st = peer)"
  using assms
proof (cases rule: get_requests_cases)
  case full
  then show ?thesis by auto
next
  case room
  note f = mark_in_flight_fields [OF room(1)]
  have req: "\<forall>i \<in> set rs. \<exists>st. hm_get (in_flight m') i = Some st \<and> rs_peer st = peer"
    using f(9) [OF room(2)] by force
  have "i \<in> dom (hm_get (in_flight m')) \<longleftrightarrow> i \<in> dom (hm_get (in_flight m)) \<union> set rs" for i
    using f(8) [of i] req by (cases "i \<in> set rs") (auto simp: domIff)
  then have "dom (hm_get (in_flight m')) = dom (hm_get (in_flight m)) \<union> set rs" by blast
  moreover have "set rs \<subseteq> {i \<in> set (wanted m). announced_by peer m i}" using room(3,4) by (auto simp: list_all_iff)
  ultimately show ?thesis using room(2,7) f(1) req by blast
qed

theorem get_requests_batch_witness:
  "fst (get_requests rev (\<lambda>_. 0) peer_2 (inv_run sample_inv)) = [InvTx 9] \<and>
   InvTx 9 \<in> dom (hm_get (in_flight (snd (get_requests rev (\<lambda>_. 0) peer_2 (inv_run sample_inv)))))"
proof -
  have "inv_invar (inv_run sample_inv)" by (rule inventory_machine.invar_reachable [OF sample_inv_ok])
  from get_requests_batch [OF this iteration_order_rev prod.collapse [symmetric], of "\<lambda>_. 0" peer_2]
  have "dom (hm_get (in_flight (snd (get_requests rev (\<lambda>_. 0) peer_2 (inv_run sample_inv))))) =
      dom (hm_get (in_flight (inv_run sample_inv))) \<union> set (fst (get_requests rev (\<lambda>_. 0) peer_2 (inv_run sample_inv)))"
    by blast
  moreover have "fst (get_requests rev (\<lambda>_. 0) peer_2 (inv_run sample_inv)) = [InvTx 9]"
    by (simp add: sample_inv_result inv_exec)
  ultimately show ?thesis by simp
qed

text \<open>A request that times out is always retried: the item goes back from requested to
  wanted, and every other request stays.  The limit of three attempts never takes
  effect, because a new request always starts at one.\<close>

theorem timed_out_requests_retried:
  assumes "list_all inv_ok ops" and "m = inv_run ops" and "iteration_order ord"
    and "check_timeouts ord word now m = (ids, m')"
  shows "set (wanted m') = set (wanted m) \<union>
      {i. \<exists>st. hm_get (in_flight m) i = Some st \<and> timed_out now (request_timeout m) st} \<and>
    dom (hm_get (in_flight m')) =
      {i. \<exists>st. hm_get (in_flight m) i = Some st \<and> \<not> timed_out now (request_timeout m) st}"
proof -
  define late where "late = map (\<lambda>(i, st). (i, attempts st))
      (filter (\<lambda>(i, st). timed_out now (request_timeout m) st) (ord (in_flight m)))"
  have inv: "inv_invar m" using inventory_machine.invar_reachable [OF assms(1)] assms(2) by simp
  have l: "(i, att) \<in> set late \<longleftrightarrow>
      (\<exists>st. hm_get (in_flight m) i = Some st \<and> timed_out now (request_timeout m) st \<and> att = 1)" for i att
    by (rule late_items [OF inv assms(3) late_def])
  have m': "m' = fold retry_request late m" using assms(4) by (auto simp: check_timeouts_def Let_def late_def)
  have "set (wanted m') = set (wanted m) \<union> {i. \<exists>att. (i, att) \<in> set late \<and> att < 3}"
    unfolding m' using fold_retry [of late m] by blast
  moreover have "{i. \<exists>att. (i, att) \<in> set late \<and> att < 3} =
      {i. \<exists>st. hm_get (in_flight m) i = Some st \<and> timed_out now (request_timeout m) st}"
    unfolding l by auto
  moreover have gone: "i \<in> fst ` set late \<longleftrightarrow>
      (\<exists>st. hm_get (in_flight m) i = Some st \<and> timed_out now (request_timeout m) st)" for i
    using l by (auto simp: image_iff split_paired_Ex) (metis fst_conv)
  have "hm_get (in_flight m') i = (if i \<in> fst ` set late then None else hm_get (in_flight m) i)" for i
    unfolding m' using fold_retry [of late m i] by blast
  then have "dom (hm_get (in_flight m')) =
      {i. \<exists>st. hm_get (in_flight m) i = Some st \<and> \<not> timed_out now (request_timeout m) st}"
    by (auto simp: gone split: if_splits)
  ultimately show ?thesis by simp
qed

theorem timed_out_requests_retried_witness:
  "InvTx 7 \<in> set (wanted (snd (check_timeouts rev rev (10 ^ 12) (inv_run sample_inv))))"
proof -
  have "timed_out (10 ^ 12) (from_secs 120) \<lparr>rs_peer = peer_1, requested_at = 0, attempts = 1\<rparr>"
    by (simp add: timed_out_def duration_since_def from_secs_def)
  with timed_out_requests_retried [OF sample_inv_ok refl iteration_order_rev prod.collapse [symmetric], of rev "10 ^ 12"]
  show ?thesis by (simp add: sample_inv_result)
qed

section \<open>Where the code departs from its intent\<close>

text \<open>An announcement of an item already requested makes it wanted again, so a second
  peer is asked for it while the first request is outstanding; \<open>want\<close> excludes that.\<close>

lemma announced_while_requested:
  "InvTx 7 \<in> dom (hm_get (in_flight (inv_run sample_inv))) \<and>
   fst (get_requests (\<lambda>xs. xs) (\<lambda>_. 0) peer_2 (announce (InvTx 7) peer_2 (inv_run sample_inv)))
     = [InvTx 7, InvTx 9]"
  by (simp add: sample_inv_result inv_exec)

end
