(* ===== verification/Addr_Man.thy ===== *)
theory Addr_Man
  imports Net_Types Complex_Main
begin

text \<open>
  The address manager of \<^verbatim>\<open>src/addrman.rs\<close>: a table of new and a table of tried
  addresses, each backed by buckets of at most 64 entries.

  The hash that chooses a bucket, the outcomes of the random generator, the
  \<open>f64\<close> operations and the iteration order of the hash containers are arguments.
  An operation reads the clock once, except where two readings are stored.
\<close>

section \<open>Addresses\<close>

record address_info =
  ai_addr :: socket_addr
  ai_services :: u64
  last_success :: "instant option"
  last_try :: "instant option"
  last_seen :: instant
  ai_attempts :: u32
  ai_source :: "socket_addr option"
  random_pos :: usize

definition address_info_new ::
  "instant \<Rightarrow> usize \<Rightarrow> socket_addr \<Rightarrow> u64 \<Rightarrow> socket_addr option \<Rightarrow> address_info" where
  "address_info_new now rnd addr services source =
     \<lparr>ai_addr = addr, ai_services = services, last_success = None, last_try = None, last_seen = now,
      ai_attempts = 0, ai_source = source, random_pos = rnd\<rparr>"

definition is_good :: "instant \<Rightarrow> address_info \<Rightarrow> bool" where
  "is_good now info =
     (case last_success info of
        None \<Rightarrow> False
      | Some t \<Rightarrow> elapsed_or_zero now t < from_secs 3600 \<and> ai_attempts info < 3)"

definition is_terrible :: "instant \<Rightarrow> address_info \<Rightarrow> bool" where
  "is_terrible now info \<longleftrightarrow>
     ai_attempts info > 10 \<or>
     (case last_try info of None \<Rightarrow> False | Some t \<Rightarrow> elapsed_or_zero now t < from_secs 60)"

section \<open>The manager\<close>

record address_manager =
  am_network :: network
  new_addrs :: "(socket_addr, address_info) hmap"
  tried_addrs :: "(socket_addr, address_info) hmap"
  new_buckets :: "socket_addr hset list"
  tried_buckets :: "socket_addr hset list"
  own_addrs :: "socket_addr hset"

definition max_addresses :: nat where "max_addresses = 20000"
definition new_buckets_count :: nat where "new_buckets_count = 1024"
definition tried_buckets_count :: nat where "tried_buckets_count = 256"
definition bucket_size :: nat where "bucket_size = 64"

text \<open>The standard library's hasher.\<close>

record addr_hasher =
  hash_new :: "socket_addr \<Rightarrow> socket_addr option \<Rightarrow> u64"
  hash_tried :: "socket_addr \<Rightarrow> u64"

definition get_new_bucket :: "addr_hasher \<Rightarrow> socket_addr \<Rightarrow> socket_addr option \<Rightarrow> nat" where
  "get_new_bucket A addr source = unat (hash_new A addr source) mod new_buckets_count"

definition get_tried_bucket :: "addr_hasher \<Rightarrow> socket_addr \<Rightarrow> nat" where
  "get_tried_bucket A addr = unat (hash_tried A addr) mod tried_buckets_count"

definition address_manager_new :: "network \<Rightarrow> address_manager" where
  "address_manager_new net =
     \<lparr>am_network = net, new_addrs = [], tried_addrs = [],
      new_buckets = replicate new_buckets_count [], tried_buckets = replicate tried_buckets_count [],
      own_addrs = []\<rparr>"

text \<open>Making room in a bucket: the first element in iteration order goes, from the bucket
  and from its table.\<close>

definition make_room ::
  "('a list \<Rightarrow> 'a list) \<Rightarrow> nat \<Rightarrow> 'a hset list \<times> ('a, 'i) hmap \<Rightarrow> 'a hset list \<times> ('a, 'i) hmap" where
  "make_room ord b = (\<lambda>(bs, tbl).
     if length (bs ! b) \<ge> bucket_size
     then case ord (bs ! b) of
            [] \<Rightarrow> (bs, tbl)
          | evict # _ \<Rightarrow> (bs[b := hs_remove evict (bs ! b)], hm_remove evict tbl)
     else (bs, tbl))"

definition mark_seen :: "instant \<Rightarrow> u64 \<Rightarrow> address_info \<Rightarrow> address_info" where
  "mark_seen now services info =
     (let info = info\<lparr>last_seen := now\<rparr> in if services \<noteq> 0 then info\<lparr>ai_services := services\<rparr> else info)"

definition am_add ::
  "addr_hasher \<Rightarrow> (socket_addr list \<Rightarrow> socket_addr list) \<Rightarrow> instant \<Rightarrow> usize \<Rightarrow> socket_addr \<Rightarrow> u64 \<Rightarrow>
   socket_addr option \<Rightarrow> address_manager \<Rightarrow> bool \<times> address_manager" where
  "am_add A ord now rnd addr services source am =
     (if addr \<in> set (own_addrs am) then (False, am)
      else if hm_contains (tried_addrs am) addr then (False, am)
      else case hm_get (new_addrs am) addr of
        Some info \<Rightarrow> (False, am\<lparr>new_addrs := hm_modify addr (mark_seen now services) (new_addrs am)\<rparr>)
      | None \<Rightarrow>
          let info = address_info_new now rnd addr services source;
              b = get_new_bucket A addr source;
              (bs, tbl) = make_room ord b (new_buckets am, new_addrs am)
          in if length tbl \<ge> max_addresses then (False, am\<lparr>new_buckets := bs, new_addrs := tbl\<rparr>)
             else (True, am\<lparr>new_buckets := bs[b := hs_insert addr (bs ! b)],
                            new_addrs := hm_insert addr info tbl\<rparr>))"

definition mark_good :: "instant \<Rightarrow> instant \<Rightarrow> address_info \<Rightarrow> address_info" where
  "mark_good t1 t2 info = info\<lparr>last_success := Some t1, last_try := Some t2, ai_attempts := 0\<rparr>"

definition am_good ::
  "addr_hasher \<Rightarrow> (socket_addr list \<Rightarrow> socket_addr list) \<Rightarrow> instant \<Rightarrow> instant \<Rightarrow> socket_addr \<Rightarrow>
   address_manager \<Rightarrow> address_manager" where
  "am_good A ord t1 t2 addr am =
     (case hm_get (new_addrs am) addr of
        Some info0 \<Rightarrow>
          let info = mark_good t1 t2 info0;
              b = get_new_bucket A addr (ai_source info);
              tb = get_tried_bucket A addr;
              (bs, tbl) = make_room ord tb (tried_buckets am, tried_addrs am)
          in am\<lparr>new_addrs := hm_remove addr (new_addrs am),
                new_buckets := (new_buckets am)[b := hs_remove addr (new_buckets am ! b)],
                tried_buckets := bs[tb := hs_insert addr (bs ! tb)],
                tried_addrs := hm_insert addr info tbl\<rparr>
      | None \<Rightarrow> am\<lparr>tried_addrs := hm_modify addr (mark_good t1 t2) (tried_addrs am)\<rparr>)"

definition mark_attempt :: "instant \<Rightarrow> address_info \<Rightarrow> address_info" where
  "mark_attempt now info = info\<lparr>last_try := Some now, ai_attempts := ai_attempts info + 1\<rparr>"

definition am_attempt :: "instant \<Rightarrow> socket_addr \<Rightarrow> address_manager \<Rightarrow> address_manager" where
  "am_attempt now addr am =
     (if hm_contains (new_addrs am) addr
      then am\<lparr>new_addrs := hm_modify addr (mark_attempt now) (new_addrs am)\<rparr>
      else am\<lparr>tried_addrs := hm_modify addr (mark_attempt now) (tried_addrs am)\<rparr>)"

section \<open>Selection\<close>

definition chance_by_attempts :: "'f f64_ops \<Rightarrow> address_info \<Rightarrow> 'f" where
  "chance_by_attempts F info =
     (if ai_attempts info > 0 then f64_div F (f64_lit F 1 1) (f64_lit F (unat (1 + ai_attempts info)) 1) else f64_lit F 1 1)"

definition get_chance :: "'f f64_ops \<Rightarrow> instant \<Rightarrow> address_info \<Rightarrow> 'f" where
  "get_chance F now info =
     (let chance = chance_by_attempts F info;
          chance = (case last_try info of
                      None \<Rightarrow> chance
                    | Some t \<Rightarrow> if elapsed_or_zero now t < from_secs 600 then f64_mul F chance (f64_lit F 1 100) else chance);
          chance = (case last_success info of
                      None \<Rightarrow> chance
                    | Some t \<Rightarrow> if elapsed_or_zero now t < from_secs 1200 then f64_mul F chance (f64_lit F 2 1) else chance)
      in f64_max F (f64_min F chance (f64_lit F 1 1)) (f64_lit F 0 1))"

text \<open>Exact arithmetic on the rationals meets the same signature; concrete runs use it.\<close>

definition exact_f64 :: "rat f64_ops" where
  "exact_f64 = \<lparr>f64_lit = (\<lambda>p q. of_nat p / of_nat q), f64_add = (+), f64_sub = (-), f64_mul = (*),
     f64_div = (/), f64_min = min, f64_max = max, f64_le = (\<le>)\<rparr>"

text \<open>The outcome of the random generator and the iteration order of one selection.\<close>

record 'f draw =
  use_tried :: bool
  gen_range :: "nat \<Rightarrow> nat"
  gen_f64 :: 'f
  d_order :: "(socket_addr \<times> address_info) list \<Rightarrow> (socket_addr \<times> address_info) list"

text \<open>The loop that uses up the threshold; \<open>None\<close> when no candidate does.\<close>

fun draw_loop :: "'f f64_ops \<Rightarrow> instant \<Rightarrow> 'f \<Rightarrow> (socket_addr \<times> address_info) list \<Rightarrow> socket_addr option" where
  "draw_loop F now threshold [] = None"
| "draw_loop F now threshold ((addr, info) # cs) =
     (let threshold' = f64_sub F threshold (get_chance F now info)
      in if f64_le F threshold' (f64_lit F 0 1) then Some addr else draw_loop F now threshold' cs)"

definition select_from_map ::
  "'f f64_ops \<Rightarrow> 'f draw \<Rightarrow> instant \<Rightarrow> (socket_addr, address_info) hmap \<Rightarrow> socket_addr option" where
  "select_from_map F D now m =
     (let candidates = filter (\<lambda>(_, info). \<not> is_terrible now info) (d_order D m)
      in if candidates = [] then None
         else let total_weight = foldl (f64_add F) (f64_lit F 0 1) (map (\<lambda>(_, info). get_chance F now info) candidates)
              in if f64_le F total_weight (f64_lit F 0 1)
                 then Some (fst (candidates ! gen_range D (length candidates)))
                 else case draw_loop F now (f64_mul F (gen_f64 D) total_weight) candidates of
                        Some addr \<Rightarrow> Some addr
                      | None \<Rightarrow> Some (fst (hd candidates)))"

definition am_select :: "'f f64_ops \<Rightarrow> 'f draw \<Rightarrow> instant \<Rightarrow> address_manager \<Rightarrow> socket_addr option" where
  "am_select F D now am =
     (if use_tried D \<and> tried_addrs am \<noteq> [] then select_from_map F D now (tried_addrs am)
      else if new_addrs am \<noteq> [] then select_from_map F D now (new_addrs am)
      else if tried_addrs am \<noteq> [] then select_from_map F D now (tried_addrs am)
      else None)"

fun select_loop ::
  "'f f64_ops \<Rightarrow> (nat \<Rightarrow> 'f draw) \<Rightarrow> instant \<Rightarrow> address_manager \<Rightarrow> nat \<Rightarrow> nat \<Rightarrow> nat \<Rightarrow> socket_addr list \<Rightarrow> socket_addr list" where
  "select_loop F Ds now am wanted_n k 0 result = result"
| "select_loop F Ds now am wanted_n k (Suc n) result =
     (if length result \<ge> wanted_n then result
      else select_loop F Ds now am wanted_n (k + 1) n
             (case am_select F (Ds k) now am of
                None \<Rightarrow> result
              | Some a \<Rightarrow> if a \<in> set result then result else result @ [a]))"

definition select_multiple :: "'f f64_ops \<Rightarrow> (nat \<Rightarrow> 'f draw) \<Rightarrow> instant \<Rightarrow> nat \<Rightarrow> address_manager \<Rightarrow> socket_addr list" where
  "select_multiple F Ds now wanted_n am = select_loop F Ds now am wanted_n 0 (wanted_n * 3) []"

fun collect_addrs ::
  "(address_info \<Rightarrow> bool) \<Rightarrow> nat \<Rightarrow> (socket_addr \<times> address_info) list \<Rightarrow> (socket_addr \<times> u64) list \<Rightarrow>
   (socket_addr \<times> u64) list" where
  "collect_addrs P max_count [] result = result"
| "collect_addrs P max_count ((a, info) # rest) result =
     (if length result \<ge> max_count then result
      else collect_addrs P max_count rest (if P info then result @ [(a, ai_services info)] else result))"

definition get_addresses ::
  "((socket_addr \<times> address_info) list \<Rightarrow> (socket_addr \<times> address_info) list) \<Rightarrow> instant \<Rightarrow> nat \<Rightarrow> address_manager \<Rightarrow>
   (socket_addr \<times> u64) list" where
  "get_addresses ord now max_count am =
     collect_addrs (\<lambda>i. \<not> is_terrible now i) max_count (ord (new_addrs am))
       (collect_addrs (\<lambda>i. is_good now i \<and> \<not> is_terrible now i) max_count (ord (tried_addrs am)) [])"

section \<open>The rest\<close>

definition add_own_address :: "socket_addr \<Rightarrow> address_manager \<Rightarrow> address_manager" where
  "add_own_address addr am = am\<lparr>own_addrs := hs_insert addr (own_addrs am)\<rparr>"

record address_manager_stats =
  new_count :: nat
  tried_count :: nat
  total_count :: nat

definition am_get_stats :: "address_manager \<Rightarrow> address_manager_stats" where
  "am_get_stats am =
     \<lparr>new_count = length (new_addrs am), tried_count = length (tried_addrs am),
      total_count = length (new_addrs am) + length (tried_addrs am)\<rparr>"

definition am_clear :: "address_manager \<Rightarrow> address_manager" where
  "am_clear am =
     am\<lparr>new_addrs := [], tried_addrs := [], new_buckets := map (\<lambda>_. []) (new_buckets am),
        tried_buckets := map (\<lambda>_. []) (tried_buckets am)\<rparr>"

section \<open>Bucketed tables\<close>

text \<open>A table agrees with its buckets: every bucket has distinct elements within the
  capacity, and an address is in a bucket exactly when the table holds it with that
  bucket.\<close>

definition bucketed ::
  "nat \<Rightarrow> ('a \<Rightarrow> 'i \<Rightarrow> nat) \<Rightarrow> 'a hset list \<Rightarrow> ('a, 'i) hmap \<Rightarrow> bool" where
  "bucketed n slot bs tbl \<longleftrightarrow> length bs = n \<and> hm_wf tbl \<and>
     (\<forall>b < n. distinct (bs ! b) \<and> length (bs ! b) \<le> bucket_size \<and>
        (\<forall>a. a \<in> set (bs ! b) \<longleftrightarrow> (\<exists>i. hm_get tbl a = Some i \<and> slot a i = b)))"

lemma length_concat_le: "(\<And>xs. xs \<in> set xss \<Longrightarrow> length xs \<le> c) \<Longrightarrow> length (concat xss) \<le> length xss * c"
  by (induction xss) (auto simp: add_mono)

locale bucket_table =
  fixes n :: nat and slot :: "'a \<Rightarrow> 'i \<Rightarrow> nat"
  assumes slot_less: "slot a i < n"
begin

lemma bucketed_empty: "bucketed n slot (replicate n []) []"
  by (simp add: bucketed_def)

lemma bucketed_insert:
  assumes "bucketed n slot bs tbl" and "hm_get tbl a = None" and "length (bs ! slot a i) < bucket_size"
  shows "bucketed n slot (bs[slot a i := hs_insert a (bs ! slot a i)]) (hm_insert a i tbl)"
proof -
  let ?b = "slot a i"
  have new: "a \<notin> set (bs ! b)" if "b < n" for b using assms(1,2) that by (auto simp: bucketed_def)
  have "distinct (bs[?b := hs_insert a (bs ! ?b)] ! b) \<and> length (bs[?b := hs_insert a (bs ! ?b)] ! b) \<le> bucket_size \<and>
      (\<forall>x. x \<in> set (bs[?b := hs_insert a (bs ! ?b)] ! b) \<longleftrightarrow> (\<exists>j. hm_get (hm_insert a i tbl) x = Some j \<and> slot x j = b))"
    if b: "b < n" for b
  proof (cases "b = ?b")
    case True
    with assms b new [OF b] show ?thesis by (auto simp: bucketed_def hm_simps List.insert_def)
  next
    case False
    with assms b new [OF b] show ?thesis by (auto simp: bucketed_def hm_simps)
  qed
  with assms(1) show ?thesis unfolding bucketed_def by (simp add: hm_wf_insert)
qed

lemma bucketed_remove:
  assumes "bucketed n slot bs tbl" and "hm_get tbl a = Some i"
  shows "bucketed n slot (bs[slot a i := hs_remove a (bs ! slot a i)]) (hm_remove a tbl)"
proof -
  let ?b = "slot a i"
  have "length (bs ! ?b) \<le> bucket_size" using assms(1) slot_less [of a i] by (simp add: bucketed_def)
  then have len: "length (hs_remove a (bs ! ?b)) \<le> bucket_size"
    using length_removeAll_less_eq [of a "bs ! ?b"] by (rule order_trans [rotated])
  have "distinct (bs[?b := hs_remove a (bs ! ?b)] ! b) \<and> length (bs[?b := hs_remove a (bs ! ?b)] ! b) \<le> bucket_size \<and>
      (\<forall>x. x \<in> set (bs[?b := hs_remove a (bs ! ?b)] ! b) \<longleftrightarrow> (\<exists>j. hm_get (hm_remove a tbl) x = Some j \<and> slot x j = b))"
    if b: "b < n" for b
  proof (cases "b = ?b")
    case True
    with assms b len show ?thesis by (auto simp: bucketed_def hm_simps distinct_removeAll)
  next
    case False
    with assms b show ?thesis by (auto simp: bucketed_def hm_simps)
  qed
  with assms(1) show ?thesis unfolding bucketed_def by (simp add: hm_wf_remove)
qed

lemma bucketed_update:
  assumes "bucketed n slot bs tbl" and "hm_get tbl' = (hm_get tbl)(a := map_option g (hm_get tbl a))"
    and "hm_wf tbl'" and "\<And>i. slot a (g i) = slot a i"
  shows "bucketed n slot bs tbl'"
  using assms unfolding bucketed_def by (auto split: if_splits)

lemma bucketed_length:
  assumes "bucketed n slot bs tbl"
  shows "length tbl \<le> n * bucket_size"
proof -
  have "set (map fst tbl) \<subseteq> set (concat bs)"
  proof
    fix a
    assume "a \<in> set (map fst tbl)"
    then obtain i where "hm_get tbl a = Some i" by (metis list.set_map map_of_eq_None_iff option.exhaust)
    with assms slot_less [of a i] have "a \<in> set (bs ! slot a i)" "slot a i < length bs" by (auto simp: bucketed_def)
    then show "a \<in> set (concat bs)" by auto
  qed
  then have "card (set (map fst tbl)) \<le> card (set (concat bs))" by (intro card_mono) simp_all
  also have "\<dots> \<le> length (concat bs)" by (rule card_length)
  finally have "length tbl \<le> length (concat bs)"
    using assms distinct_card [of "map fst tbl"] by (simp add: bucketed_def hm_wf_def)
  also have "\<dots> \<le> length bs * bucket_size"
    using assms by (intro length_concat_le) (auto simp: bucketed_def in_set_conv_nth)
  also have "\<dots> = n * bucket_size" using assms by (simp add: bucketed_def)
  finally show ?thesis .
qed

end

lemma make_room_cases:
  assumes "make_room ord b (bs, tbl) = (bs', tbl')" and "iteration_order ord"
  obtains (room) "bs' = bs" "tbl' = tbl" "length (bs ! b) < bucket_size"
  | (evict) e where "e \<in> set (bs ! b)" "bs' = bs[b := hs_remove e (bs ! b)]" "tbl' = hm_remove e tbl"
      "length (bs ! b) \<ge> bucket_size"
proof (cases "length (bs ! b) < bucket_size")
  case True
  with assms(1) room show ?thesis by (simp add: make_room_def)
next
  case False
  then have "ord (bs ! b) \<noteq> []"
    using iteration_orderD(2) [OF assms(2), of "bs ! b"] by (auto simp: bucket_size_def)
  then obtain e es where e: "ord (bs ! b) = e # es" by (cases "ord (bs ! b)") auto
  then have "e \<in> set (bs ! b)" using iteration_orderD(1) [OF assms(2), of "bs ! b"] by auto
  with False e assms(1) evict show ?thesis by (auto simp: make_room_def)
qed

context bucket_table
begin

lemma bucketed_evict:
  assumes t: "bucketed n slot bs tbl" and b: "b < n" and e: "e \<in> set (bs ! b)"
  shows "bucketed n slot (bs[b := hs_remove e (bs ! b)]) (hm_remove e tbl)"
    and "length (hs_remove e (bs ! b)) < length (bs ! b)"
proof -
  obtain i where i: "hm_get tbl e = Some i" "slot e i = b" using t b e by (auto simp: bucketed_def)
  from bucketed_remove [OF t i(1)] i(2) show "bucketed n slot (bs[b := hs_remove e (bs ! b)]) (hm_remove e tbl)" by simp
  show "length (hs_remove e (bs ! b)) < length (bs ! b)" using e by (rule length_removeAll_less)
qed

text \<open>After \<open>make_room\<close> the bucket has room, the table still agrees with its buckets and
  has lost at most one address.\<close>

lemma make_room_bucketed:
  assumes "bucketed n slot bs tbl" and "b < n"
    and "iteration_order ord" and "make_room ord b (bs, tbl) = (bs', tbl')"
  shows "bucketed n slot bs' tbl'" and "length (bs' ! b) < bucket_size" and "length tbl' \<le> length tbl"
    and "hm_get tbl' x = Some i \<Longrightarrow> hm_get tbl x = Some i"
proof -
  have "bucketed n slot bs' tbl' \<and> length (bs' ! b) < bucket_size \<and> length tbl' \<le> length tbl \<and>
    (hm_get tbl' x = Some i \<longrightarrow> hm_get tbl x = Some i)"
    using assms(4,3)
  proof (cases rule: make_room_cases)
    case room
    with assms(1) show ?thesis by simp
  next
    case (evict e)
    have "length (bs ! b) \<le> bucket_size" and "b < length bs" using assms(1,2) by (simp_all add: bucketed_def)
    moreover have "length (hm_remove e tbl) \<le> length tbl" by (simp add: hm_remove_def)
    ultimately show ?thesis
      using evict bucketed_evict [OF assms(1,2) evict(1)] by (auto simp: hm_simps split: if_splits)
  qed
  then show "bucketed n slot bs' tbl'" and "length (bs' ! b) < bucket_size" and "length tbl' \<le> length tbl"
    and "hm_get tbl' x = Some i \<Longrightarrow> hm_get tbl x = Some i" by blast+
qed

end

definition new_slot :: "addr_hasher \<Rightarrow> socket_addr \<Rightarrow> address_info \<Rightarrow> nat" where
  "new_slot A a info = get_new_bucket A a (ai_source info)"

definition tried_slot :: "addr_hasher \<Rightarrow> socket_addr \<Rightarrow> address_info \<Rightarrow> nat" where
  "tried_slot A a info = get_tried_bucket A a"

interpretation new_table: bucket_table new_buckets_count "new_slot A" for A
  by unfold_locales (simp add: new_slot_def get_new_bucket_def new_buckets_count_def)

interpretation tried_table: bucket_table tried_buckets_count "tried_slot A" for A
  by unfold_locales (simp add: tried_slot_def get_tried_bucket_def tried_buckets_count_def)

definition am_invar :: "addr_hasher \<Rightarrow> address_manager \<Rightarrow> bool" where
  "am_invar A am \<longleftrightarrow>
     bucketed new_buckets_count (new_slot A) (new_buckets am) (new_addrs am) \<and>
     bucketed tried_buckets_count (tried_slot A) (tried_buckets am) (tried_addrs am) \<and>
     dom (hm_get (new_addrs am)) \<inter> dom (hm_get (tried_addrs am)) = {} \<and>
     length (new_addrs am) \<le> max_addresses"

section \<open>The invariant is kept\<close>

lemma sources_kept [simp]:
  "ai_source (mark_seen now services i) = ai_source i"
  "ai_source (mark_good t1 t2 i) = ai_source i"
  "ai_source (mark_attempt now i) = ai_source i"
  "ai_source (address_info_new now rnd a services source) = source"
  by (simp_all add: mark_seen_def mark_good_def mark_attempt_def address_info_new_def Let_def)

lemma hm_length_modify [simp]: "length (hm_modify k f m) = length m"
  by (simp add: hm_modify_def)

lemma dom_modify [simp]: "dom (hm_get (hm_modify k f m)) = dom (hm_get m)"
  by (auto simp: hm_simps)

context bucket_table
begin

lemma bucketed_modify:
  assumes "bucketed n slot bs tbl" and "\<And>i. slot a (g i) = slot a i"
  shows "bucketed n slot bs (hm_modify a g tbl)"
  using bucketed_update [OF assms(1), of "hm_modify a g tbl" a g] assms
  by (simp add: hm_simps bucketed_def)

lemma bucketed_wf: "bucketed n slot bs tbl \<Longrightarrow> hm_wf tbl"
  by (simp add: bucketed_def)

end

lemma am_invar_modify:
  assumes "am_invar A am" and "\<And>i. ai_source (g i) = ai_source i"
  shows "am_invar A (am\<lparr>new_addrs := hm_modify a g (new_addrs am)\<rparr>)"
    and "am_invar A (am\<lparr>tried_addrs := hm_modify a g (tried_addrs am)\<rparr>)"
  using assms new_table.bucketed_modify [of A "new_buckets am" "new_addrs am" a g]
    tried_table.bucketed_modify [of A "tried_buckets am" "tried_addrs am" a g]
  by (simp_all add: am_invar_def new_slot_def tried_slot_def)

lemma am_invar_init: "am_invar A (address_manager_new net)"
  using new_table.bucketed_empty tried_table.bucketed_empty by (simp add: am_invar_def address_manager_new_def)

lemma am_invar_add [invar_intros]:
  assumes inv: "am_invar A am" and ord: "iteration_order ord"
  shows "am_invar A (snd (am_add A ord now rnd addr services source am))"
proof (cases "addr \<in> set (own_addrs am) \<or> hm_contains (tried_addrs am) addr \<or> hm_get (new_addrs am) addr \<noteq> None")
  case True
  with am_invar_modify(1) [OF inv, of "mark_seen now services" addr] inv show ?thesis
    by (auto simp: am_add_def split: option.splits)
next
  case False
  let ?info = "address_info_new now rnd addr services source"
  let ?b = "get_new_bucket A addr source"
  have slot: "new_slot A addr ?info = ?b" by (simp add: new_slot_def)
  have b: "?b < new_buckets_count" using new_table.slot_less [of A addr ?info] by (simp add: slot)
  have t: "bucketed new_buckets_count (new_slot A) (new_buckets am) (new_addrs am)" using inv by (simp add: am_invar_def)
  obtain bs tbl where r: "make_room ord ?b (new_buckets am, new_addrs am) = (bs, tbl)" by fastforce
  note room = new_table.make_room_bucketed [OF t b ord r]
  have dom: "dom (hm_get tbl) \<subseteq> dom (hm_get (new_addrs am))" using room(4) by blast
  have new: "hm_get tbl addr = None" using False room(4) [of addr] by fastforce
  have ins: "bucketed new_buckets_count (new_slot A) (bs[?b := hs_insert addr (bs ! ?b)]) (hm_insert addr ?info tbl)"
    using new_table.bucketed_insert [OF room(1) new, of ?info] room(2) by (simp add: slot)
  have len: "length (hm_insert addr ?info tbl) = Suc (length tbl)" using new by (simp add: hm_insert_fresh)
  have other: "bucketed tried_buckets_count (tried_slot A) (tried_buckets am) (tried_addrs am)" using inv by (simp add: am_invar_def)
  have disj: "dom (hm_get (new_addrs am)) \<inter> dom (hm_get (tried_addrs am)) = {}" and "length (new_addrs am) \<le> max_addresses"
    using inv by (simp_all add: am_invar_def)
  then have d: "dom (hm_get tbl) \<inter> dom (hm_get (tried_addrs am)) = {}" and "length tbl \<le> max_addresses"
    using dom room(3) by (blast, simp)
  moreover have "addr \<notin> dom (hm_get (tried_addrs am))" using False by (auto simp: hm_contains_def)
  then have "dom (hm_get (hm_insert addr ?info tbl)) \<inter> dom (hm_get (tried_addrs am)) = {}"
    using d by (simp add: hm_simps)
  ultimately show ?thesis using False r ins len other room(1) by (simp add: am_add_def am_invar_def Let_def)
qed

lemma am_invar_good [invar_intros]:
  assumes inv: "am_invar A am" and ord: "iteration_order ord"
  shows "am_invar A (am_good A ord t1 t2 addr am)"
proof (cases "hm_get (new_addrs am) addr")
  case None
  with am_invar_modify(2) [OF inv, of "mark_good t1 t2" addr] show ?thesis by (simp add: am_good_def)
next
  case (Some info)
  let ?info = "mark_good t1 t2 info"
  let ?b = "get_tried_bucket A addr"
  have slot: "tried_slot A addr ?info = ?b" by (simp add: tried_slot_def)
  have b: "?b < tried_buckets_count" using tried_table.slot_less [of A addr ?info] by (simp add: slot)
  have t: "bucketed tried_buckets_count (tried_slot A) (tried_buckets am) (tried_addrs am)"
    and nt: "bucketed new_buckets_count (new_slot A) (new_buckets am) (new_addrs am)"
    and disj: "dom (hm_get (new_addrs am)) \<inter> dom (hm_get (tried_addrs am)) = {}"
    and len: "length (new_addrs am) \<le> max_addresses"
    using inv by (simp_all add: am_invar_def)
  obtain bs tbl where r: "make_room ord ?b (tried_buckets am, tried_addrs am) = (bs, tbl)" by fastforce
  note room = tried_table.make_room_bucketed [OF t b ord r]
  have dom: "dom (hm_get tbl) \<subseteq> dom (hm_get (tried_addrs am))" using room(4) by blast
  have new: "hm_get tbl addr = None" using Some disj dom by blast
  have "bucketed tried_buckets_count (tried_slot A) (bs[?b := hs_insert addr (bs ! ?b)]) (hm_insert addr ?info tbl)"
    using tried_table.bucketed_insert [OF room(1) new, of ?info] room(2) by (simp add: slot)
  moreover have "bucketed new_buckets_count (new_slot A)
      ((new_buckets am)[get_new_bucket A addr (ai_source info) := hs_remove addr (new_buckets am ! get_new_bucket A addr (ai_source info))])
      (hm_remove addr (new_addrs am))"
    using new_table.bucketed_remove [OF nt Some] by (simp add: new_slot_def)
  moreover have "dom (hm_get (hm_remove addr (new_addrs am))) \<inter> dom (hm_get (hm_insert addr ?info tbl)) = {}"
    using disj dom by (simp add: hm_simps) blast
  moreover have "length (hm_remove addr (new_addrs am)) \<le> max_addresses"
    using len hm_length_remove [OF new_table.bucketed_wf [OF nt] Some] by simp
  ultimately show ?thesis using Some r by (simp add: am_good_def am_invar_def Let_def)
qed

lemma am_invar_attempt [invar_intros]: "am_invar A am \<Longrightarrow> am_invar A (am_attempt now addr am)"
  by (simp add: am_attempt_def am_invar_modify)

lemma am_invar_own [invar_intros]: "am_invar A am \<Longrightarrow> am_invar A (add_own_address addr am)"
  by (simp add: add_own_address_def am_invar_def)

lemma am_invar_clear [invar_intros]: "am_invar A am \<Longrightarrow> am_invar A (am_clear am)"
  by (simp add: am_clear_def am_invar_def bucketed_def)

section \<open>Runs\<close>

datatype am_event =
  Add_addr "socket_addr list \<Rightarrow> socket_addr list" instant usize socket_addr u64 "socket_addr option"
| Good_addr "socket_addr list \<Rightarrow> socket_addr list" instant instant socket_addr
| Attempt_addr instant socket_addr
| Own_addr socket_addr
| Clear_addrs

fun am_event_ok :: "am_event \<Rightarrow> bool" where
  "am_event_ok (Add_addr ord now rnd addr services source) = iteration_order ord"
| "am_event_ok (Good_addr ord t1 t2 addr) = iteration_order ord"
| "am_event_ok _ = True"

fun am_step :: "addr_hasher \<Rightarrow> am_event \<Rightarrow> address_manager \<Rightarrow> address_manager" where
  "am_step A (Add_addr ord now rnd addr services source) am = snd (am_add A ord now rnd addr services source am)"
| "am_step A (Good_addr ord t1 t2 addr) am = am_good A ord t1 t2 addr am"
| "am_step A (Attempt_addr now addr) am = am_attempt now addr am"
| "am_step A (Own_addr addr) am = add_own_address addr am"
| "am_step A Clear_addrs am = am_clear am"

interpretation am_machine: invariant_machine "address_manager_new net" "am_step A" am_event_ok "am_invar A" for net A
proof
  show "am_invar A (address_manager_new net)" by (rule am_invar_init)
  show "am_invar A (am_step A e am)" if "am_event_ok e" and "am_invar A am" for e am
    using that by (cases e) (auto intro: invar_intros)
qed

lemma bucketed_iff:
  assumes "bucketed n slot bs tbl" and "b < n"
  shows "a \<in> set (bs ! b) \<longleftrightarrow> (\<exists>i. hm_get tbl a = Some i \<and> slot a i = b)"
  using assms by (simp add: bucketed_def)

text \<open>C32. In every run of the address manager, in any order of calls and whatever the hash
  and the evictions: no address is both new and tried, an address is in a bucket exactly
  when the table of that bucket holds it with that bucket, the new table has at most
  20000 entries, the tried table at most 256 buckets of 64, and the statistics add up.\<close>

theorem address_tables_consistent:
  fixes A :: addr_hasher and net :: network
  assumes "list_all am_event_ok es"
  defines "am \<equiv> fold (am_step A) es (address_manager_new net)"
  shows "(hm_get (new_addrs am) a = None \<or> hm_get (tried_addrs am) a = None) \<and>
    (b < new_buckets_count \<longrightarrow> (a \<in> set (new_buckets am ! b) \<longleftrightarrow>
       (\<exists>info. hm_get (new_addrs am) a = Some info \<and> get_new_bucket A a (ai_source info) = b))) \<and>
    (b < tried_buckets_count \<longrightarrow> (a \<in> set (tried_buckets am ! b) \<longleftrightarrow>
       hm_contains (tried_addrs am) a \<and> get_tried_bucket A a = b)) \<and>
    new_count (am_get_stats am) \<le> max_addresses \<and>
    tried_count (am_get_stats am) \<le> tried_buckets_count * bucket_size \<and>
    total_count (am_get_stats am) = card (dom (hm_get (new_addrs am)) \<union> dom (hm_get (tried_addrs am)))"
proof -
  have "am_invar A am" unfolding am_def by (rule am_machine.invar_reachable [OF assms(1)])
  then have n: "bucketed new_buckets_count (new_slot A) (new_buckets am) (new_addrs am)"
    and t: "bucketed tried_buckets_count (tried_slot A) (tried_buckets am) (tried_addrs am)"
    and disj: "dom (hm_get (new_addrs am)) \<inter> dom (hm_get (tried_addrs am)) = {}"
    and len: "length (new_addrs am) \<le> max_addresses"
    by (simp_all add: am_invar_def)
  have card: "card (dom (hm_get m)) = length m" if "hm_wf m" for m :: "(socket_addr, address_info) hmap"
    using that distinct_card [of "map fst m"] by (simp add: hm_wf_def dom_map_of_conv_image_fst)
  have "total_count (am_get_stats am) = card (dom (hm_get (new_addrs am)) \<union> dom (hm_get (tried_addrs am)))"
    using card [OF new_table.bucketed_wf [OF n]] card [OF tried_table.bucketed_wf [OF t]] disj
    by (simp add: am_get_stats_def card_Un_disjoint finite_dom_map_of)
  moreover have "hm_get (new_addrs am) a = None \<or> hm_get (tried_addrs am) a = None" using disj by blast
  ultimately show ?thesis
    using len tried_table.bucketed_length [OF t] bucketed_iff [OF n, of b a] bucketed_iff [OF t, of b a]
    by (auto simp: am_get_stats_def new_slot_def tried_slot_def hm_contains_def)
qed

section \<open>Learning and promoting an address\<close>

lemma make_room_loss:
  assumes "make_room ord b (bs, tbl) = (bs', tbl')" and "iteration_order ord"
  shows "\<exists>e. \<forall>x. x \<noteq> e \<longrightarrow> hm_get tbl' x = hm_get tbl x"
  using assms by (cases rule: make_room_cases) (auto simp: hm_simps)

text \<open>Learning an address: \<open>add\<close> answers true exactly when the address is neither our
  own nor known and the table has room once the full bucket has lost an entry.  Then the
  address is new with the given services and no attempts; the tried table is untouched
  and at most one other address is dropped.\<close>

theorem am_add_result:
  assumes "am_invar A am" and "iteration_order ord"
    and "am_add A ord now rnd addr services source am = (ok, am')"
  shows "(ok \<longleftrightarrow> addr \<notin> set (own_addrs am) \<and> \<not> hm_contains (tried_addrs am) addr \<and> \<not> hm_contains (new_addrs am) addr \<and>
       (length (new_addrs am) < max_addresses \<or> bucket_size \<le> length (new_buckets am ! get_new_bucket A addr source))) \<and>
    (ok \<longrightarrow> hm_get (new_addrs am') addr = Some (address_info_new now rnd addr services source)) \<and>
    tried_addrs am' = tried_addrs am \<and> own_addrs am' = own_addrs am \<and>
    (\<exists>e. \<forall>x. x \<noteq> addr \<longrightarrow> x \<noteq> e \<longrightarrow> hm_get (new_addrs am') x = hm_get (new_addrs am) x)"
proof (cases "addr \<in> set (own_addrs am) \<or> hm_contains (tried_addrs am) addr \<or> hm_contains (new_addrs am) addr")
  case True
  with assms(3) show ?thesis by (auto simp: am_add_def hm_contains_def hm_simps split: if_splits option.splits)
next
  case False
  let ?b = "get_new_bucket A addr source"
  have nt: "bucketed new_buckets_count (new_slot A) (new_buckets am) (new_addrs am)" and len: "length (new_addrs am) \<le> max_addresses"
    using assms(1) by (simp_all add: am_invar_def)
  obtain bs tbl where r: "make_room ord ?b (new_buckets am, new_addrs am) = (bs, tbl)" by fastforce
  have b: "?b < new_buckets_count"
    using new_table.slot_less [of A addr "address_info_new now rnd addr services source"] by (simp add: new_slot_def)
  have room: "length tbl < max_addresses \<longleftrightarrow> length (new_addrs am) < max_addresses \<or> bucket_size \<le> length (new_buckets am ! ?b)"
    using r assms(2)
  proof (cases rule: make_room_cases)
    case room
    then show ?thesis by auto
  next
    case (evict e)
    then obtain i where "hm_get (new_addrs am) e = Some i" using bucketed_iff [OF nt b] by auto
    with evict len show ?thesis using hm_length_remove [OF new_table.bucketed_wf [OF nt]] by fastforce
  qed
  have "new_addrs am' = tbl \<or> (\<exists>i. new_addrs am' = hm_insert addr i tbl)"
    using False r assms(3) by (auto simp: am_add_def Let_def hm_contains_def split: if_splits)
  then have "\<forall>x. x \<noteq> addr \<longrightarrow> hm_get (new_addrs am') x = hm_get tbl x" by (auto simp: hm_simps)
  with make_room_loss [OF r assms(2)]
  have "\<exists>e. \<forall>x. x \<noteq> addr \<longrightarrow> x \<noteq> e \<longrightarrow> hm_get (new_addrs am') x = hm_get (new_addrs am) x" by metis
  moreover have "ok \<longleftrightarrow> length tbl < max_addresses"
    and "ok \<longrightarrow> hm_get (new_addrs am') addr = Some (address_info_new now rnd addr services source)"
    and "tried_addrs am' = tried_addrs am" and "own_addrs am' = own_addrs am"
    using False r assms(3) by (auto simp: am_add_def Let_def hm_contains_def hm_simps split: if_splits)
  ultimately show ?thesis using False room by blast
qed

text \<open>A successful connection to a new address moves it to the tried table with its
  attempts reset, takes it out of the new table and its bucket, leaves every other new
  address alone and drops at most one tried address.\<close>

theorem am_good_promotes:
  fixes t1 t2 :: instant
  assumes "am_invar A am" and "iteration_order ord" and "hm_get (new_addrs am) addr = Some info"
  defines "am' \<equiv> am_good A ord t1 t2 addr am"
  shows "hm_get (tried_addrs am') addr = Some (info\<lparr>last_success := Some t1, last_try := Some t2, ai_attempts := 0\<rparr>) \<and>
    hm_get (new_addrs am') = (hm_get (new_addrs am))(addr := None) \<and>
    addr \<notin> set (new_buckets am' ! get_new_bucket A addr (ai_source info)) \<and>
    addr \<in> set (tried_buckets am' ! get_tried_bucket A addr) \<and>
    (\<exists>e. \<forall>x. x \<noteq> addr \<longrightarrow> x \<noteq> e \<longrightarrow> hm_get (tried_addrs am') x = hm_get (tried_addrs am) x)"
proof -
  have invar: "am_invar A am'" unfolding am'_def by (rule am_invar_good [OF assms(1,2)])
  obtain bs tbl where r: "make_room ord (get_tried_bucket A addr) (tried_buckets am, tried_addrs am) = (bs, tbl)" by fastforce
  have t: "hm_get (tried_addrs am') = (hm_get tbl)(addr \<mapsto> mark_good t1 t2 info)"
    and n: "hm_get (new_addrs am') = (hm_get (new_addrs am))(addr := None)"
    using assms(3) r by (simp_all add: am'_def am_good_def Let_def hm_simps)
  have "get_new_bucket A addr (ai_source info) < new_buckets_count" "get_tried_bucket A addr < tried_buckets_count"
    using new_table.slot_less [of A addr info] tried_table.slot_less [of A addr info] by (simp_all add: new_slot_def tried_slot_def)
  then have "addr \<notin> set (new_buckets am' ! get_new_bucket A addr (ai_source info))"
    and "addr \<in> set (tried_buckets am' ! get_tried_bucket A addr)"
    using invar n t by (auto simp: am_invar_def bucketed_iff tried_slot_def)
  moreover obtain e where "\<forall>x. x \<noteq> e \<longrightarrow> hm_get tbl x = hm_get (tried_addrs am) x"
    using make_room_loss [OF r assms(2)] by blast
  ultimately show ?thesis using t n by (auto simp: mark_good_def)
qed

section \<open>Choosing and sharing addresses\<close>

text \<open>The random generator's range is respected and the order is one of the container.\<close>

definition draw_ok :: "'f draw \<Rightarrow> bool" where
  "draw_ok D \<longleftrightarrow> iteration_order (d_order D) \<and> (\<forall>n > 0. gen_range D n < n)"

lemma draw_loop_mem: "draw_loop F now th cs = Some a \<Longrightarrow> \<exists>info. (a, info) \<in> set cs"
  by (induction F now th cs rule: draw_loop.induct) (auto simp: Let_def split: if_splits)

definition candidates_of :: "'f draw \<Rightarrow> instant \<Rightarrow> (socket_addr, address_info) hmap \<Rightarrow> (socket_addr \<times> address_info) list" where
  "candidates_of D now m = filter (\<lambda>(_, info). \<not> is_terrible now info) (d_order D m)"

lemma set_candidates_of: "draw_ok D \<Longrightarrow> set (candidates_of D now m) = {c \<in> set m. \<not> is_terrible now (snd c)}"
  by (auto simp: candidates_of_def draw_ok_def iteration_orderD)

lemma select_from_map_cases:
  assumes "draw_ok D" and "select_from_map F D now m = Some a"
  shows "a \<in> fst ` set (candidates_of D now m)"
proof -
  let ?cs = "candidates_of D now m"
  have ne: "?cs \<noteq> []" using assms(2) by (auto simp: select_from_map_def candidates_of_def Let_def)
  then have "fst (?cs ! gen_range D (length ?cs)) \<in> fst ` set ?cs" and "fst (hd ?cs) \<in> fst ` set ?cs"
    using assms(1) by (simp_all add: draw_ok_def)
  moreover have "x \<in> fst ` set ?cs" if "draw_loop F now th ?cs = Some x" for th x
    using draw_loop_mem [OF that] by force
  ultimately show ?thesis
    using assms(2) ne unfolding select_from_map_def Let_def candidates_of_def [symmetric]
    by (auto simp del: nth_mem split: if_splits option.split_asm)
qed

lemma select_from_map_Some:
  assumes "draw_ok D" and "select_from_map F D now m = Some a"
  shows "\<exists>info. (a, info) \<in> set m \<and> \<not> is_terrible now info"
  using select_from_map_cases [OF assms] unfolding set_candidates_of [OF assms(1)] by auto

lemma select_from_map_None:
  assumes "draw_ok D"
  shows "select_from_map F D now m = None \<longleftrightarrow> (\<forall>(a, info) \<in> set m. is_terrible now info)"
  using assms
  by (auto simp: select_from_map_def Let_def draw_ok_def iteration_orderD filter_empty_conv split: option.splits)

text \<open>An address a manager knows and may offer.\<close>

definition offered :: "instant \<Rightarrow> address_manager \<Rightarrow> socket_addr \<Rightarrow> bool" where
  "offered now am a \<longleftrightarrow> (\<exists>info. (hm_get (new_addrs am) a = Some info \<or> hm_get (tried_addrs am) a = Some info) \<and> \<not> is_terrible now info)"

lemma am_select_offered:
  assumes "am_invar A am" and "draw_ok D" and "am_select F D now am = Some a"
  shows "offered now am a"
proof -
  have wf: "hm_wf (new_addrs am)" "hm_wf (tried_addrs am)" using assms(1) by (simp_all add: am_invar_def bucketed_def)
  have "select_from_map F D now (new_addrs am) = Some a \<or> select_from_map F D now (tried_addrs am) = Some a"
    using assms(3) by (auto simp: am_select_def split: if_splits)
  then show ?thesis using select_from_map_Some [OF assms(2)] wf unfolding offered_def hm_get_in_set [OF wf(1), symmetric]
    hm_get_in_set [OF wf(2), symmetric] by blast
qed

lemma select_loop_sound:
  assumes "\<And>k a. am_select F (Ds k) now am = Some a \<Longrightarrow> P a"
  shows "distinct result \<Longrightarrow> list_all P result \<Longrightarrow> length result \<le> wanted_n \<Longrightarrow>
    (let r = select_loop F Ds now am wanted_n k n result in distinct r \<and> list_all P r \<and> length r \<le> wanted_n)"
proof (induction n arbitrary: k result)
  case 0
  then show ?case by simp
next
  case (Suc n)
  show ?case
  proof (cases "wanted_n \<le> length result")
    case True
    with Suc.prems show ?thesis by simp
  next
    case False
    with Suc.prems assms [of k] show ?thesis
      by (auto split: option.splits intro!: Suc.IH)
  qed
qed

text \<open>Choosing addresses to connect to: whatever the random generator draws and however
  the \<open>f64\<close> weights round, the addresses are distinct, at most as many as asked for, known
  to the manager and not terrible.\<close>

theorem select_multiple_sound:
  assumes "am_invar A am" and "\<forall>k. draw_ok (Ds k)"
  shows "distinct (select_multiple F Ds now wanted_n am) \<and>
    length (select_multiple F Ds now wanted_n am) \<le> wanted_n \<and>
    (\<forall>a \<in> set (select_multiple F Ds now wanted_n am). \<exists>info.
       (hm_get (new_addrs am) a = Some info \<or> hm_get (tried_addrs am) a = Some info) \<and> \<not> is_terrible now info)"
proof -
  have "offered now am a" if "am_select F (Ds k) now am = Some a" for k a
    using am_select_offered [OF assms(1) _ that] assms(2) by simp
  from select_loop_sound [of F Ds now am "offered now am" "[]" wanted_n 0 "wanted_n * 3", OF this] show ?thesis
    by (simp add: select_multiple_def Let_def list_all_iff offered_def)
qed

lemma collect_addrs_eq:
  "collect_addrs P max_count xs result =
     (if max_count \<le> length result then result
      else result @ take (max_count - length result) (map (\<lambda>(a, i). (a, ai_services i)) (filter (\<lambda>p. P (snd p)) xs)))"
proof (induction P max_count xs result rule: collect_addrs.induct)
  case (2 P max_count a info rest result)
  then show ?case by (auto simp: take_Cons' Suc_diff_le)
qed simp

text \<open>The addresses shared with a peer are the good tried ones followed by the new ones
  that are not terrible, cut at the limit; no address is listed twice.\<close>

theorem get_addresses_exact:
  assumes "am_invar A am" and "iteration_order ord"
  shows "get_addresses ord now max_count am =
      take max_count (map (\<lambda>(a, info). (a, ai_services info))
        (filter (\<lambda>(_, info). is_good now info \<and> \<not> is_terrible now info) (ord (tried_addrs am)) @
         filter (\<lambda>(_, info). \<not> is_terrible now info) (ord (new_addrs am)))) \<and>
    distinct (map fst (get_addresses ord now max_count am))"
proof -
  let ?t = "filter (\<lambda>(_, info). is_good now info \<and> \<not> is_terrible now info) (ord (tried_addrs am))"
  let ?n = "filter (\<lambda>(_, info). \<not> is_terrible now info) (ord (new_addrs am))"
  have eq: "get_addresses ord now max_count am = take max_count (map (\<lambda>(a, info). (a, ai_services info)) (?t @ ?n))"
    by (auto simp: get_addresses_def collect_addrs_eq case_prod_beta')
  have wf: "hm_wf (new_addrs am)" "hm_wf (tried_addrs am)"
    and disj: "dom (hm_get (new_addrs am)) \<inter> dom (hm_get (tried_addrs am)) = {}"
    using assms(1) by (simp_all add: am_invar_def bucketed_def)
  have keys: "distinct (map fst (filter P (ord m))) \<and> fst ` set (filter P (ord m)) \<subseteq> dom (hm_get m)" if "hm_wf m" for P m
  proof -
    have "distinct m" and "inj_on fst (set m)" using that by (auto simp: hm_wf_def distinct_map)
    then have "distinct (map fst (ord m))" using iteration_orderD [OF assms(2), of m] by (simp add: distinct_map)
    then show ?thesis using iteration_orderD(1) [OF assms(2), of m] that
      by (auto simp: distinct_map_filter hm_get_in_set [symmetric])
  qed
  have "fst ` set ?t \<inter> fst ` set ?n = {}" using keys [OF wf(1)] keys [OF wf(2)] disj by blast
  then have "distinct (map fst (?t @ ?n))" using keys [OF wf(1)] keys [OF wf(2)] by (simp only: map_append distinct_append set_map)
  then have "distinct (take max_count (map fst (?t @ ?n)))" by (rule distinct_take)
  then show ?thesis unfolding eq by (simp add: take_map comp_def case_prod_beta')
qed

section \<open>Concrete runs\<close>

definition test_hasher :: addr_hasher where
  "test_hasher = \<lparr>hash_new = (\<lambda>_ _. 7), hash_tried = (\<lambda>_. 9)\<rparr>"

definition seed_addr :: socket_addr where "seed_addr = SocketAddrV4 16909060 8333"
definition other_addr :: socket_addr where "other_addr = SocketAddrV4 84281096 8333"

definition one_new :: address_manager where
  "one_new = am_step test_hasher (Add_addr (\<lambda>xs. xs) 0 0 seed_addr 1 None) (address_manager_new Regtest)"

definition one_tried :: address_manager where
  "one_tried = am_step test_hasher (Good_addr (\<lambda>xs. xs) 5 5 seed_addr) one_new"

definition one_each :: address_manager where
  "one_each = am_step test_hasher (Add_addr (\<lambda>xs. xs) 6 0 other_addr 1 (Some seed_addr)) one_tried"

definition first_draw :: "bool \<Rightarrow> rat draw" where
  "first_draw b = \<lparr>use_tried = b, gen_range = (\<lambda>_. 0), gen_f64 = 1 / 2, d_order = (\<lambda>xs. xs)\<rparr>"

lemma first_draw_ok: "draw_ok (first_draw b)"
  by (simp add: draw_ok_def first_draw_def iteration_order_id)

lemmas concrete_manager_defs = one_new_def one_tried_def one_each_def seed_addr_def other_addr_def test_hasher_def
  address_manager_new_def am_add_def am_good_def make_room_def address_info_new_def mark_good_def hm_contains_def
  get_new_bucket_def get_tried_bucket_def new_buckets_count_def tried_buckets_count_def bucket_size_def max_addresses_def
  hm_remove_def Let_def

lemma one_new_invar: "am_invar test_hasher one_new"
  unfolding one_new_def by (rule am_machine.invar_step) (simp_all add: iteration_order_id am_invar_init)

lemma one_tried_invar: "am_invar test_hasher one_tried"
  unfolding one_tried_def by (rule am_machine.invar_step) (simp_all add: iteration_order_id one_new_invar)

lemma one_each_invar: "am_invar test_hasher one_each"
  unfolding one_each_def by (rule am_machine.invar_step) (simp_all add: iteration_order_id one_tried_invar)

lemma one_new_tables: "new_addrs one_new = [(seed_addr, address_info_new 0 0 seed_addr 1 None)]" "tried_addrs one_new = []"
  by (simp_all add: concrete_manager_defs)

lemma one_each_tables:
  "new_addrs one_each = [(other_addr, address_info_new 6 0 other_addr 1 (Some seed_addr))]"
  "tried_addrs one_each = [(seed_addr, mark_good 5 5 (address_info_new 0 0 seed_addr 1 None))]"
  by (simp_all add: concrete_manager_defs)

theorem address_tables_consistent_witness:
  "\<exists>am. am = fold (am_step test_hasher) [Add_addr (\<lambda>xs. xs) 0 0 seed_addr 1 None, Good_addr rev 5 5 seed_addr, Attempt_addr 6 seed_addr]
       (address_manager_new Regtest) \<and> total_count (am_get_stats am) = card (dom (hm_get (new_addrs am)) \<union> dom (hm_get (tried_addrs am)))"
  using address_tables_consistent [of "[Add_addr (\<lambda>xs. xs) 0 0 seed_addr 1 None, Good_addr rev 5 5 seed_addr, Attempt_addr 6 seed_addr]"
      test_hasher Regtest seed_addr 0]
  by (simp add: iteration_order_id iteration_order_rev)

theorem am_add_result_witness:
  "\<exists>ok am'. am_add test_hasher (\<lambda>xs. xs) 6 0 other_addr 1 None one_new = (ok, am') \<and> ok \<and>
     hm_get (new_addrs am') other_addr = Some (address_info_new 6 0 other_addr 1 None)"
proof -
  obtain ok am' where r: "am_add test_hasher (\<lambda>xs. xs) 6 0 other_addr 1 None one_new = (ok, am')" by fastforce
  have "other_addr \<notin> set (own_addrs one_new)" "\<not> hm_contains (tried_addrs one_new) other_addr"
    "\<not> hm_contains (new_addrs one_new) other_addr" "length (new_addrs one_new) < max_addresses"
    by (simp_all add: concrete_manager_defs)
  with am_add_result [OF one_new_invar iteration_order_id r] r show ?thesis by blast
qed

theorem am_good_promotes_witness:
  "hm_get (tried_addrs (am_good test_hasher (\<lambda>xs. xs) 5 5 seed_addr one_new)) seed_addr \<noteq> None \<and>
   hm_get (new_addrs (am_good test_hasher (\<lambda>xs. xs) 5 5 seed_addr one_new)) seed_addr = None"
  using am_good_promotes [OF one_new_invar iteration_order_id, of seed_addr "address_info_new 0 0 seed_addr 1 None" 5 5]
  by (simp add: one_new_tables)

theorem select_multiple_sound_witness:
  "length (select_multiple exact_f64 (\<lambda>_. first_draw False) 7 1 one_each) \<le> 1 \<and>
   select_multiple exact_f64 (\<lambda>_. first_draw False) 7 1 one_each = [other_addr]"
proof -
  have "select_multiple exact_f64 (\<lambda>_. first_draw False) 7 1 one_each = [other_addr]"
    by (simp add: select_multiple_def numeral_3_eq_3 am_select_def one_each_tables select_from_map_def first_draw_def is_terrible_def
        get_chance_def chance_by_attempts_def exact_f64_def address_info_new_def)
  with select_multiple_sound [OF one_each_invar, of "\<lambda>_. first_draw False" exact_f64 7 1] show ?thesis
    by (simp add: first_draw_ok)
qed

theorem get_addresses_exact_witness:
  "get_addresses (\<lambda>xs. xs) 60000000006 1000 one_each = [(seed_addr, 1), (other_addr, 1)]"
  using get_addresses_exact [OF one_each_invar iteration_order_id, of 60000000006 1000]
  by (simp add: one_each_tables is_good_def is_terrible_def mark_good_def address_info_new_def from_secs_def)

section \<open>Departures from the intent\<close>

text \<open>With a tried table whose addresses were all tried in the last minute, half of the
  draws find nothing although the new table has a candidate.\<close>

lemma select_gives_up_on_tried:
  "am_select F (first_draw True) 7 one_each = None \<and> offered 7 one_each other_addr"
  by (simp add: am_select_def one_each_tables select_from_map_def first_draw_def is_terrible_def offered_def
      address_info_new_def mark_good_def from_secs_def seed_addr_def other_addr_def)

text \<open>An address just marked good counts as terrible for a minute.\<close>

lemma good_address_is_terrible: "is_good now (mark_good now now info) \<and> is_terrible now (mark_good now now info)"
  by (simp add: is_good_def is_terrible_def mark_good_def from_secs_def)

text \<open>An address learned before it is recognised as our own is still offered.\<close>

lemma own_address_offered: "offered now (add_own_address seed_addr one_new) seed_addr"
  by (simp add: offered_def add_own_address_def one_new_tables is_terrible_def address_info_new_def)

end
