(* ===== verification/Mempool_Entry.thy ===== *)
theory Mempool_Entry
  imports Hash_Collections
begin

text \<open>
  \<^verbatim>\<open>src/mempool/entry.rs\<close>: fee rates and mempool entries.  A transaction has the
  public fields of the bitcoin crate that the node reads; what it never reads
  (version, lock time, scripts, witnesses) is the opaque \<open>tx_body\<close>.  The functions
  the crate computes from a transaction are the fields of \<open>tx_api\<close>, an argument
  of every definition that calls them.
\<close>

section \<open>Transactions of the bitcoin crate\<close>

type_synonym txid = "256 word"

record outpoint =
  op_txid :: txid
  op_vout :: u32

record txin =
  previous_output :: outpoint
  sequence :: u32

record txout =
  value_sat :: u64

record transaction =
  tx_input :: "txin list"
  tx_output :: "txout list"
  tx_body :: "u8 list"

record tx_api =
  compute_txid :: "transaction \<Rightarrow> txid"
  tx_vsize :: "transaction \<Rightarrow> usize"
  tx_weight :: "transaction \<Rightarrow> u64"
  consensus_encode :: "transaction \<Rightarrow> string + u8 list"

definition prevouts :: "transaction \<Rightarrow> outpoint list" where
  "prevouts tx = map previous_output (tx_input tx)"

section \<open>Fee rates\<close>

datatype FeeRate = FeeRate u64

instantiation FeeRate :: linorder
begin

fun less_eq_FeeRate :: "FeeRate \<Rightarrow> FeeRate \<Rightarrow> bool" where
  "less_eq_FeeRate (FeeRate a) (FeeRate b) = (a \<le> b)"

fun less_FeeRate :: "FeeRate \<Rightarrow> FeeRate \<Rightarrow> bool" where
  "less_FeeRate (FeeRate a) (FeeRate b) = (a < b)"

instance
proof
  fix x y z :: FeeRate
  show "x < y \<longleftrightarrow> x \<le> y \<and> \<not> y \<le> x" by (cases x; cases y) auto
  show "x \<le> x" by (cases x) simp
  show "x \<le> y \<Longrightarrow> y \<le> z \<Longrightarrow> x \<le> z" by (cases x; cases y; cases z) simp
  show "x \<le> y \<Longrightarrow> y \<le> x \<Longrightarrow> x = y" by (cases x; cases y) simp
  show "x \<le> y \<or> y \<le> x" by (cases x; cases y) auto
qed

end

definition from_sat_per_vb :: "u64 \<Rightarrow> FeeRate" where
  "from_sat_per_vb sat_per_vb = FeeRate sat_per_vb"

definition from_sat_per_kvb :: "u64 \<Rightarrow> FeeRate" where
  "from_sat_per_kvb sat_per_kvb = FeeRate (sat_per_kvb div 1000)"

fun as_sat_per_vb :: "FeeRate \<Rightarrow> u64" where
  "as_sat_per_vb (FeeRate r) = r"

fun as_sat_per_kvb :: "FeeRate \<Rightarrow> u64" where
  "as_sat_per_kvb (FeeRate r) = r * 1000"

fun fee_for_vsize :: "FeeRate \<Rightarrow> u64 \<Rightarrow> u64" where
  "fee_for_vsize (FeeRate r) v = saturating_mul r v"

lemma FeeRate_le_iff: "x \<le> y \<longleftrightarrow> as_sat_per_vb x \<le> as_sat_per_vb y"
  by (cases x; cases y) simp

lemma FeeRate_less_iff: "x < y \<longleftrightarrow> as_sat_per_vb x < as_sat_per_vb y"
  by (cases x; cases y) simp

lemma as_from_sat_per_vb [simp]: "as_sat_per_vb (from_sat_per_vb r) = r"
  by (simp add: from_sat_per_vb_def)

section \<open>Entries\<close>

record mempool_entry =
  tx :: transaction
  txid :: txid
  vsize :: u64
  fee :: u64
  fee_rate :: FeeRate
  entry_time :: instant
  height :: u32
  parents :: "txid hset"
  children :: "txid hset"
  ancestor_size :: u64
  ancestor_count :: usize
  ancestor_fees :: u64
  descendant_size :: u64
  descendant_count :: usize
  descendant_fees :: u64
  signals_replacement :: bool

definition check_rbf_signaling :: "transaction \<Rightarrow> bool" where
  "check_rbf_signaling t \<longleftrightarrow> list_ex (\<lambda>i. sequence i < 0xfffffffe) (tx_input t)"

definition mempool_entry_new :: "tx_api \<Rightarrow> instant \<Rightarrow> transaction \<Rightarrow> u64 \<Rightarrow> u32 \<Rightarrow> mempool_entry" where
  "mempool_entry_new B now t f h =
     (let v = tx_vsize B t in
      \<lparr>tx = t, txid = compute_txid B t, vsize = v, fee = f,
       fee_rate = from_sat_per_vb (f div max v 1),
       entry_time = now, height = h, parents = [], children = [],
       ancestor_size = v, ancestor_count = 1, ancestor_fees = f,
       descendant_size = v, descendant_count = 1, descendant_fees = f,
       signals_replacement = check_rbf_signaling t\<rparr>)"

definition ancestor_fee_rate :: "mempool_entry \<Rightarrow> FeeRate" where
  "ancestor_fee_rate e = from_sat_per_vb (ancestor_fees e div max (ancestor_size e) 1)"

definition descendant_fee_rate :: "mempool_entry \<Rightarrow> FeeRate" where
  "descendant_fee_rate e = from_sat_per_vb (descendant_fees e div max (descendant_size e) 1)"

definition modified_fee_rate :: "mempool_entry \<Rightarrow> FeeRate" where
  "modified_fee_rate e = fee_rate e"

definition age :: "instant \<Rightarrow> mempool_entry \<Rightarrow> duration" where
  "age now e = elapsed_or_zero now (entry_time e)"

definition is_expired :: "instant \<Rightarrow> duration \<Rightarrow> mempool_entry \<Rightarrow> bool" where
  "is_expired now timeout e \<longleftrightarrow> age now e > timeout"

definition update_ancestor_state :: "i64 \<Rightarrow> i64 \<Rightarrow> i64 \<Rightarrow> mempool_entry \<Rightarrow> mempool_entry" where
  "update_ancestor_state size_delta fee_delta count_delta e =
     e\<lparr>ancestor_size := signed_max0 (ancestor_size e + size_delta),
       ancestor_fees := signed_max0 (ancestor_fees e + fee_delta),
       ancestor_count := signed_max0 (ancestor_count e + count_delta)\<rparr>"

definition update_descendant_state :: "i64 \<Rightarrow> i64 \<Rightarrow> i64 \<Rightarrow> mempool_entry \<Rightarrow> mempool_entry" where
  "update_descendant_state size_delta fee_delta count_delta e =
     e\<lparr>descendant_size := signed_max0 (descendant_size e + size_delta),
       descendant_fees := signed_max0 (descendant_fees e + fee_delta),
       descendant_count := signed_max0 (descendant_count e + count_delta)\<rparr>"

lemma mempool_entry_new_sel [simp]:
  "tx (mempool_entry_new B now t f h) = t"
  "txid (mempool_entry_new B now t f h) = compute_txid B t"
  "vsize (mempool_entry_new B now t f h) = tx_vsize B t"
  "fee (mempool_entry_new B now t f h) = f"
  "fee_rate (mempool_entry_new B now t f h) = from_sat_per_vb (f div max (tx_vsize B t) 1)"
  "entry_time (mempool_entry_new B now t f h) = now"
  "parents (mempool_entry_new B now t f h) = []"
  "children (mempool_entry_new B now t f h) = []"
  "signals_replacement (mempool_entry_new B now t f h) = check_rbf_signaling t"
  by (simp_all add: mempool_entry_new_def Let_def)

lemma update_descendant_state_sel [simp]:
  "tx (update_descendant_state a b c e) = tx e"
  "txid (update_descendant_state a b c e) = txid e"
  "vsize (update_descendant_state a b c e) = vsize e"
  "fee (update_descendant_state a b c e) = fee e"
  "fee_rate (update_descendant_state a b c e) = fee_rate e"
  "entry_time (update_descendant_state a b c e) = entry_time e"
  "parents (update_descendant_state a b c e) = parents e"
  "children (update_descendant_state a b c e) = children e"
  "signals_replacement (update_descendant_state a b c e) = signals_replacement e"
  by (simp_all add: update_descendant_state_def)

lemma update_ancestor_state_sel [simp]:
  "tx (update_ancestor_state a b c e) = tx e"
  "txid (update_ancestor_state a b c e) = txid e"
  "vsize (update_ancestor_state a b c e) = vsize e"
  "fee (update_ancestor_state a b c e) = fee e"
  "fee_rate (update_ancestor_state a b c e) = fee_rate e"
  "entry_time (update_ancestor_state a b c e) = entry_time e"
  "parents (update_ancestor_state a b c e) = parents e"
  "children (update_ancestor_state a b c e) = children e"
  "signals_replacement (update_ancestor_state a b c e) = signals_replacement e"
  by (simp_all add: update_ancestor_state_def)

section \<open>The ancestor and descendant counters undo\<close>

text \<open>
  Adding a member's statistics and later subtracting them gives the statistics
  back whenever the running value stays below \<open>2 ^ 63\<close>; from there on the
  signed intermediate is negative and the counter collapses to zero.
\<close>

lemma sint_nonneg_iff: "0 \<le> sint (w :: 64 word) \<longleftrightarrow> unat w < 2 ^ 63"
proof -
  have "0 \<le> sint w \<longleftrightarrow> \<not> bit (uint w) 63"
    by (simp add: sint_uint signed_take_bit_nonnegative_iff)
  also have "\<dots> \<longleftrightarrow> uint w < 2 ^ 63"
  proof (cases "uint w < 2 ^ 63")
    case True
    then show ?thesis by (simp add: bit_iff_odd)
  next
    case False
    then have "uint w div 2 ^ 63 = 1"
      using uint_bounded [of w] by (intro int_div_pos_eq [where r = "uint w - 2 ^ 63"]) auto
    with False show ?thesis by (simp add: bit_iff_odd)
  qed
  also have "\<dots> \<longleftrightarrow> unat w < 2 ^ 63"
    using of_nat_less_iff [of "unat w" "2 ^ 63", where ?'a = int] by simp
  finally show ?thesis .
qed

lemma signed_max0_id: "unat (w :: 64 word) < 2 ^ 63 \<Longrightarrow> signed_max0 w = w"
  using sint_nonneg_iff [of w] by (simp add: signed_max0_def)

lemma signed_max0_high: "2 ^ 63 \<le> unat (w :: 64 word) \<Longrightarrow> signed_max0 w = 0"
  using sint_nonneg_iff [of w] by (simp add: signed_max0_def)

lemma descendant_state_undo:
  assumes "unat (descendant_size e) < 2 ^ 63" "unat (descendant_size e + s) < 2 ^ 63"
    and "unat (descendant_fees e) < 2 ^ 63" "unat (descendant_fees e + f) < 2 ^ 63"
    and "unat (descendant_count e) < 2 ^ 63" "unat (descendant_count e + c) < 2 ^ 63"
  shows "update_descendant_state (- s) (- f) (- c) (update_descendant_state s f c e) = e"
  using assms by (simp add: update_descendant_state_def signed_max0_id)

end
