(* ===== verification/Mempool_Policy.thy ===== *)
theory Mempool_Policy
  imports Mempool_Entry
begin

text \<open>
  \<^verbatim>\<open>src/mempool/policy.rs\<close>: the relay policy, its three presets and its checks.
  An error carries the numbers its message prints.
\<close>

section \<open>Configuration\<close>

record mempool_policy =
  max_size :: usize
  max_size_mb :: usize
  expiry :: duration
  min_relay_fee :: FeeRate
  max_ancestors :: usize
  max_ancestor_size_kb :: usize
  max_descendants :: usize
  max_descendant_size_kb :: usize
  require_standard :: bool
  permit_bare_multisig :: bool
  max_tx_size :: usize
  max_tx_sigops :: usize
  dust_relay_fee :: FeeRate
  incremental_relay_fee :: FeeRate
  enable_rbf :: bool

definition policy_default :: mempool_policy where
  "policy_default =
     \<lparr>max_size = 300 * 1024 * 1024, max_size_mb = 300, expiry = from_secs (336 * 3600),
      min_relay_fee = from_sat_per_vb 1, max_ancestors = 25, max_ancestor_size_kb = 101,
      max_descendants = 25, max_descendant_size_kb = 101, require_standard = True,
      permit_bare_multisig = True, max_tx_size = 100000, max_tx_sigops = 4000,
      dust_relay_fee = from_sat_per_vb 3, incremental_relay_fee = from_sat_per_vb 1,
      enable_rbf = True\<rparr>"

definition policy_mainnet :: mempool_policy where
  "policy_mainnet = policy_default"

definition policy_testnet :: mempool_policy where
  "policy_testnet = policy_default\<lparr>min_relay_fee := from_sat_per_vb 1\<rparr>"

definition policy_regtest :: mempool_policy where
  "policy_regtest = policy_default\<lparr>min_relay_fee := from_sat_per_vb 0, require_standard := False\<rparr>"

section \<open>Checks\<close>

datatype policy_error =
    TooManyAncestors usize usize
  | AncestorSizeTooLarge u64 usize
  | TooManyDescendants usize usize
  | DescendantSizeTooLarge u64 usize
  | RbfDisabled
  | RbfNotSignaled
  | InsufficientFeeBump u64 u64

definition is_fee_acceptable :: "mempool_policy \<Rightarrow> FeeRate \<Rightarrow> bool" where
  "is_fee_acceptable p r \<longleftrightarrow> r \<ge> min_relay_fee p"

definition is_size_acceptable :: "mempool_policy \<Rightarrow> usize \<Rightarrow> bool" where
  "is_size_acceptable p s \<longleftrightarrow> s \<le> max_tx_size p"

definition min_fee_for_size :: "mempool_policy \<Rightarrow> u64 \<Rightarrow> u64" where
  "min_fee_for_size p v = fee_for_vsize (min_relay_fee p) v"

definition check_ancestor_limits :: "mempool_policy \<Rightarrow> usize \<Rightarrow> u64 \<Rightarrow> policy_error + unit" where
  "check_ancestor_limits p count s =
     (if count > max_ancestors p then Inl (TooManyAncestors count (max_ancestors p))
      else if s > max_ancestor_size_kb p * 1024
        then Inl (AncestorSizeTooLarge (s div 1024) (max_ancestor_size_kb p))
      else Inr ())"

definition check_descendant_limits :: "mempool_policy \<Rightarrow> usize \<Rightarrow> u64 \<Rightarrow> policy_error + unit" where
  "check_descendant_limits p count s =
     (if count > max_descendants p then Inl (TooManyDescendants count (max_descendants p))
      else if s > max_descendant_size_kb p * 1024
        then Inl (DescendantSizeTooLarge (s div 1024) (max_descendant_size_kb p))
      else Inr ())"

definition check_rbf :: "mempool_policy \<Rightarrow> bool \<Rightarrow> u64 \<Rightarrow> i64 \<Rightarrow> policy_error + unit" where
  "check_rbf p signals_rbf fee_delta size_delta =
     (if \<not> enable_rbf p then Inl RbfDisabled
      else if \<not> signals_rbf then Inl RbfNotSignaled
      else
        let s = signed_abs size_delta;
            min_fee = fee_for_vsize (incremental_relay_fee p) s
        in if fee_delta < min_fee then Inl (InsufficientFeeBump fee_delta min_fee)
           else Inr ())"

definition dust_threshold :: "mempool_policy \<Rightarrow> usize \<Rightarrow> u64" where
  "dust_threshold p output_size =
     (let total_size = output_size + 148
      in fee_for_vsize (dust_relay_fee p) total_size * 3)"

lemma check_ancestor_limits_ok:
  "check_ancestor_limits p c s = Inr () \<longleftrightarrow>
     c \<le> max_ancestors p \<and> s \<le> max_ancestor_size_kb p * 1024"
  by (auto simp: check_ancestor_limits_def not_less)

lemma check_rbf_ok:
  "check_rbf p sig d sd = Inr () \<longleftrightarrow>
     enable_rbf p \<and> sig \<and> fee_for_vsize (incremental_relay_fee p) (signed_abs sd) \<le> d"
  by (auto simp: check_rbf_def Let_def not_less)

lemma policy_error_cases:
  "check_ancestor_limits p c s = Inl e \<longleftrightarrow>
     (c > max_ancestors p \<and> e = TooManyAncestors c (max_ancestors p)) \<or>
     (c \<le> max_ancestors p \<and> s > max_ancestor_size_kb p * 1024 \<and>
       e = AncestorSizeTooLarge (s div 1024) (max_ancestor_size_kb p))"
  by (auto simp: check_ancestor_limits_def not_less)

end
