(* ===== verification/Fee_Estimator.thy ===== *)
theory Fee_Estimator
  imports Mempool_Entry
begin

text \<open>
  \<^verbatim>\<open>src/mempool/fees.rs\<close>: the fee estimator.  The history is a bounded queue, the
  confirmation counts a table of buckets by block targets.  The two operations
  that index the table are partial: \<open>None\<close> is the panic of an index out of range.
\<close>

section \<open>State\<close>

datatype FeePriority = High | Medium | Low | Economy

fun target_blocks :: "FeePriority \<Rightarrow> nat" where
  "target_blocks High = 1"
| "target_blocks Medium = 3"
| "target_blocks Low = 6"
| "target_blocks Economy = 12"

record historical_tx =
  h_fee_rate :: FeeRate
  h_time :: instant
  confirmed_block :: "u32 option"

record fee_estimator =
  history :: "historical_tx list"
  max_history :: nat
  buckets :: "u64 list"
  confirmations :: "usize list list"
  fe_current_height :: u32
  fe_min_tracked_fee :: FeeRate
  fallback_fee :: FeeRate

definition fee_estimator_new :: fee_estimator where
  "fee_estimator_new =
     (let bs = [1, 2, 3, 5, 10, 20, 30, 50, 100, 200, 300, 500, 1000] in
      \<lparr>history = [], max_history = 10000, buckets = bs,
       confirmations = replicate (length bs) (replicate 25 0),
       fe_current_height = 0, fe_min_tracked_fee = from_sat_per_vb 1,
       fallback_fee = from_sat_per_vb 20\<rparr>)"

section \<open>Operations\<close>

fun trim_history :: "nat \<Rightarrow> historical_tx list \<Rightarrow> historical_tx list" where
  "trim_history m [] = []"
| "trim_history m (h # hs) = (if length (h # hs) > m then trim_history m hs else h # hs)"

definition fe_add_tx :: "instant \<Rightarrow> FeeRate \<Rightarrow> fee_estimator \<Rightarrow> fee_estimator" where
  "fe_add_tx now r fe =
     (if r < fe_min_tracked_fee fe then fe
      else
        let t = \<lparr>h_fee_rate = r, h_time = now, confirmed_block = None\<rparr>
        in fe\<lparr>history := trim_history (max_history fe) (history fe @ [t])\<rparr>)"

fun find_bucket_from :: "u64 \<Rightarrow> nat \<Rightarrow> u64 list \<Rightarrow> nat option" where
  "find_bucket_from s i [] = None"
| "find_bucket_from s i (b # bs) = (if s \<le> b then Some i else find_bucket_from s (Suc i) bs)"

definition find_bucket :: "FeeRate \<Rightarrow> fee_estimator \<Rightarrow> nat" where
  "find_bucket r fe =
     (case find_bucket_from (as_sat_per_vb r) 0 (buckets fe) of
        Some i \<Rightarrow> i
      | None \<Rightarrow> length (buckets fe) - 1)"

text \<open>The last unconfirmed entry of the given rate is marked (\<open>iter_mut().rev()\<close>).\<close>

fun mark_first :: "FeeRate \<Rightarrow> u32 \<Rightarrow> historical_tx list \<Rightarrow> historical_tx list" where
  "mark_first r h [] = []"
| "mark_first r h (t # ts) =
     (if h_fee_rate t = r \<and> confirmed_block t = None
      then t\<lparr>confirmed_block := Some h\<rparr> # ts
      else t # mark_first r h ts)"

definition mark_confirmed :: "FeeRate \<Rightarrow> u32 \<Rightarrow> historical_tx list \<Rightarrow> historical_tx list" where
  "mark_confirmed r h ts = rev (mark_first r h (rev ts))"

definition bump_cell :: "nat \<Rightarrow> nat \<Rightarrow> usize list list \<Rightarrow> usize list list option" where
  "bump_cell i j tbl =
     do { row \<leftarrow> rust_index tbl i;
          c \<leftarrow> rust_index row j;
          Some (tbl[i := row[j := c + 1]]) }"

definition confirm_tx :: "FeeRate \<Rightarrow> u32 \<Rightarrow> fee_estimator \<Rightarrow> fee_estimator option" where
  "confirm_tx r block_height fe =
     (let bucket_idx = find_bucket r fe;
          blocks_to_confirm = unat (saturating_sub block_height (fe_current_height fe))
      in do {
        row0 \<leftarrow> (if blocks_to_confirm > 0 then rust_index (confirmations fe) 0 else Some []);
        tbl \<leftarrow> (if blocks_to_confirm > 0 \<and> blocks_to_confirm < length row0
                 then bump_cell bucket_idx blocks_to_confirm (confirmations fe)
                 else Some (confirmations fe));
        Some (fe\<lparr>confirmations := tbl, history := mark_confirmed r block_height (history fe)\<rparr>)
      })"

definition fe_update_height :: "instant \<Rightarrow> u32 \<Rightarrow> fee_estimator \<Rightarrow> fee_estimator" where
  "fe_update_height now h fe =
     (let cutoff = now - int (from_secs 86400)
      in fe\<lparr>fe_current_height := h,
            history := dropWhile (\<lambda>t. h_time t < cutoff) (history fe)\<rparr>)"

text \<open>\<open>buckets.iter().enumerate().rev()\<close>: the buckets with their indices, last first.\<close>

fun scan_buckets ::
  "usize list list \<Rightarrow> nat \<Rightarrow> FeeRate \<Rightarrow> (nat \<times> u64) list \<Rightarrow> FeeRate option" where
  "scan_buckets tbl target fb [] = Some fb"
| "scan_buckets tbl target fb ((i, sat) # rest) =
     do { row \<leftarrow> rust_index tbl i;
          c \<leftarrow> rust_index row target;
          (if c \<ge> 5 then Some (from_sat_per_vb sat) else scan_buckets tbl target fb rest) }"

definition estimate_fee_for_target :: "nat \<Rightarrow> fee_estimator \<Rightarrow> FeeRate option" where
  "estimate_fee_for_target target fe =
     (if target = 0 then Some (fallback_fee fe)
      else do {
        row0 \<leftarrow> rust_index (confirmations fe) 0;
        (if target \<ge> length row0 then Some (fallback_fee fe)
         else scan_buckets (confirmations fe) target (fallback_fee fe)
                (rev (enumerate 0 (buckets fe)))) })"

definition estimate_fee :: "FeePriority \<Rightarrow> fee_estimator \<Rightarrow> FeeRate option" where
  "estimate_fee p fe = estimate_fee_for_target (target_blocks p) fe"

definition estimate_economy_fee :: "fee_estimator \<Rightarrow> FeeRate option" where
  "estimate_economy_fee fe = estimate_fee Economy fe"

definition estimate_high_priority_fee :: "fee_estimator \<Rightarrow> FeeRate option" where
  "estimate_high_priority_fee fe = estimate_fee High fe"

record fee_estimator_stats =
  tracked_txs :: nat
  st_min_tracked_fee :: FeeRate
  st_fallback_fee :: FeeRate
  st_current_height :: u32
  economy_fee :: FeeRate
  standard_fee :: FeeRate
  high_priority_fee :: FeeRate

definition fe_get_stats :: "fee_estimator \<Rightarrow> fee_estimator_stats option" where
  "fe_get_stats fe =
     do { e \<leftarrow> estimate_economy_fee fe;
          m \<leftarrow> estimate_fee Medium fe;
          h \<leftarrow> estimate_high_priority_fee fe;
          Some \<lparr>tracked_txs = length (history fe), st_min_tracked_fee = fe_min_tracked_fee fe,
                st_fallback_fee = fallback_fee fe, st_current_height = fe_current_height fe,
                economy_fee = e, standard_fee = m, high_priority_fee = h\<rparr> }"

definition set_fallback_fee :: "FeeRate \<Rightarrow> fee_estimator \<Rightarrow> fee_estimator" where
  "set_fallback_fee r fe = fe\<lparr>fallback_fee := r\<rparr>"

definition min_tracked_fee :: "fee_estimator \<Rightarrow> FeeRate" where
  "min_tracked_fee fe = fe_min_tracked_fee fe"

definition fe_clear :: "fee_estimator \<Rightarrow> fee_estimator" where
  "fe_clear fe = fe\<lparr>history := [], confirmations := map (map (\<lambda>_. 0)) (confirmations fe)\<rparr>"

section \<open>The invariant\<close>

text \<open>One row per bucket, every row of the same positive width, buckets in strictly
  ascending order, the history within its bound and never below the tracked rate.\<close>

definition fe_invar :: "fee_estimator \<Rightarrow> bool" where
  "fe_invar fe \<longleftrightarrow>
     buckets fe \<noteq> [] \<and> sorted_wrt (<) (buckets fe) \<and>
     length (confirmations fe) = length (buckets fe) \<and>
     (\<forall>row \<in> set (confirmations fe). length row = length (hd (confirmations fe))) \<and>
     length (history fe) \<le> max_history fe \<and>
     (\<forall>t \<in> set (history fe). fe_min_tracked_fee fe \<le> h_fee_rate t)"

lemma trim_history_eq: "trim_history m hs = drop (length hs - m) hs"
  by (induction hs) (auto simp: Suc_diff_le not_less_eq_eq drop_Cons' split: if_splits)

lemma find_bucket_from_Some:
  "find_bucket_from s i bs = Some j \<Longrightarrow>
     i \<le> j \<and> j < i + length bs \<and> s \<le> bs ! (j - i) \<and> (\<forall>k < j - i. bs ! k < s)"
proof (induction bs arbitrary: i)
  case Nil
  then show ?case by simp
next
  case (Cons b bs)
  show ?case
  proof (cases "s \<le> b")
    case True
    with Cons.prems show ?thesis by simp
  next
    case False
    with Cons.prems have "find_bucket_from s (Suc i) bs = Some j" by simp
    from Cons.IH [OF this] False show ?thesis
      by (auto simp: nth_Cons' not_le)
  qed
qed

lemma find_bucket_from_None: "find_bucket_from s i bs = None \<longleftrightarrow> (\<forall>b \<in> set bs. b < s)"
  by (induction bs arbitrary: i) auto

lemma find_bucket_less: "buckets fe \<noteq> [] \<Longrightarrow> find_bucket r fe < length (buckets fe)"
  by (auto simp: find_bucket_def dest: find_bucket_from_Some split: option.splits)

lemma length_mark_first [simp]: "length (mark_first r h ts) = length ts"
  by (induction ts) auto

lemma mark_first_rates [simp]: "map h_fee_rate (mark_first r h ts) = map h_fee_rate ts"
  by (induction ts) auto

lemma length_mark_confirmed [simp]: "length (mark_confirmed r h ts) = length ts"
  by (simp add: mark_confirmed_def)

lemma mark_confirmed_rates: "h_fee_rate ` set (mark_confirmed r h ts) = h_fee_rate ` set ts"
  by (metis mark_confirmed_def mark_first_rates set_map set_rev)

lemma fe_invar_index:
  assumes "fe_invar fe" and "i < length (buckets fe)"
  shows "rust_index (confirmations fe) i = Some (confirmations fe ! i)"
    and "length (confirmations fe ! i) = length (hd (confirmations fe))"
  using assms by (auto simp: fe_invar_def)

lemma fe_invar_row0:
  "fe_invar fe \<Longrightarrow> rust_index (confirmations fe) 0 = Some (hd (confirmations fe))"
  by (cases "confirmations fe") (auto simp: fe_invar_def rust_index_def)

lemma bump_cell_Some:
  assumes "fe_invar fe" and "i < length (buckets fe)" and "j < length (hd (confirmations fe))"
  shows "bump_cell i j (confirmations fe) =
    Some ((confirmations fe)[i := (confirmations fe ! i)[j := confirmations fe ! i ! j + 1]])"
  using assms fe_invar_index [OF assms(1,2)] by (simp add: bump_cell_def)

lemma confirm_tx_Some:
  assumes inv: "fe_invar fe"
  shows "confirm_tx r bh fe =
    (let i = find_bucket r fe; j = unat bh - unat (fe_current_height fe);
         row = confirmations fe ! i
     in Some (fe\<lparr>confirmations :=
          (if 0 < j \<and> j < length (hd (confirmations fe))
           then (confirmations fe)[i := row[j := row ! j + 1]] else confirmations fe),
        history := mark_confirmed r bh (history fe)\<rparr>))"
proof -
  have "find_bucket r fe < length (buckets fe)"
    using inv by (simp add: fe_invar_def find_bucket_less)
  with inv show ?thesis
    by (auto simp: confirm_tx_def fe_invar_row0 bump_cell_Some Let_def)
qed

subsection \<open>Every operation keeps it\<close>

lemma fe_invar_new: "fe_invar fee_estimator_new"
  by (simp add: fe_invar_def fee_estimator_new_def Let_def)

lemma fe_invar_add_tx: "fe_invar fe \<Longrightarrow> fe_invar (fe_add_tx now r fe)"
  by (auto simp: fe_invar_def fe_add_tx_def trim_history_eq Let_def not_less dest: in_set_dropD)

lemma fe_invar_update_table:
  assumes "fe_invar fe" and "i < length (buckets fe)" and "length row = length (hd (confirmations fe))"
  shows "fe_invar (fe\<lparr>confirmations := (confirmations fe)[i := row]\<rparr>)"
proof -
  have ne: "confirmations fe \<noteq> []" using assms by (auto simp: fe_invar_def)
  have hd_len: "length (hd ((confirmations fe)[i := row])) = length (hd (confirmations fe))"
    using ne assms(3) by (cases "confirmations fe"; cases i) auto
  show ?thesis
    using assms unfolding fe_invar_def
    by (auto simp: hd_len dest: set_update_subset_insert [THEN subsetD])
qed

lemma fe_invar_history:
  assumes "fe_invar fe" and "length hs \<le> length (history fe)"
    and "h_fee_rate ` set hs \<subseteq> h_fee_rate ` set (history fe)"
  shows "fe_invar (fe\<lparr>history := hs\<rparr>)"
proof -
  have "fe_min_tracked_fee fe \<le> h_fee_rate t" if "t \<in> set hs" for t
  proof -
    from that assms(3) obtain t' where "t' \<in> set (history fe)" "h_fee_rate t = h_fee_rate t'" by blast
    with assms(1) show ?thesis by (simp add: fe_invar_def)
  qed
  with assms(1,2) show ?thesis by (simp add: fe_invar_def)
qed

lemma fe_invar_confirm_tx:
  assumes "fe_invar fe" and "confirm_tx r bh fe = Some fe'"
  shows "fe_invar fe'"
proof -
  let ?i = "find_bucket r fe" and ?j = "unat bh - unat (fe_current_height fe)"
  let ?row = "confirmations fe ! ?i"
  let ?tbl = "(confirmations fe)[?i := ?row[?j := ?row ! ?j + 1]]"
  have i: "?i < length (buckets fe)" using assms(1) by (simp add: fe_invar_def find_bucket_less)
  have "fe_invar (fe\<lparr>confirmations := ?tbl\<rparr>)"
    by (rule fe_invar_update_table [OF assms(1) i]) (simp add: fe_invar_index [OF assms(1) i])
  then have "fe_invar (fe\<lparr>confirmations := ?tbl, history := mark_confirmed r bh (history fe)\<rparr>)"
    by (rule fe_invar_history) (simp_all add: mark_confirmed_rates)
  moreover have "fe_invar (fe\<lparr>history := mark_confirmed r bh (history fe)\<rparr>)"
    using assms(1) by (rule fe_invar_history) (simp_all add: mark_confirmed_rates)
  ultimately show ?thesis
    using assms(2) by (auto simp: confirm_tx_Some [OF assms(1)] Let_def split: if_splits)
qed

lemma fe_invar_update_height: "fe_invar fe \<Longrightarrow> fe_invar (fe_update_height now h fe)"
  by (auto simp: fe_invar_def fe_update_height_def Let_def
      intro: le_trans [OF length_dropWhile_le] dest: set_dropWhileD)

lemma fe_invar_clear: "fe_invar fe \<Longrightarrow> fe_invar (fe_clear fe)"
  by (cases "confirmations fe") (auto simp: fe_invar_def fe_clear_def)

lemma fe_invar_set_fallback_fee: "fe_invar fe \<Longrightarrow> fe_invar (set_fallback_fee r fe)"
  by (simp add: fe_invar_def set_fallback_fee_def)

lemmas fe_invar_ops [invar_intros] = fe_invar_new fe_invar_add_tx fe_invar_confirm_tx
  fe_invar_update_height fe_invar_clear fe_invar_set_fallback_fee

section \<open>Estimates\<close>

text \<open>The scan returns the rate of the last bucket that has five confirmations at
  the target, and the fallback when none has.\<close>

definition enough :: "fee_estimator \<Rightarrow> nat \<Rightarrow> nat \<Rightarrow> bool" where
  "enough fe target i \<longleftrightarrow> confirmations fe ! i ! target \<ge> 5"

lemma scan_buckets_eq:
  assumes "fe_invar fe" and "target < length (hd (confirmations fe))"
    and "\<forall>(i, b) \<in> set ibs. i < length (buckets fe)"
  shows "scan_buckets (confirmations fe) target fb ibs =
    Some (case find (\<lambda>(i, b). enough fe target i) ibs of
            None \<Rightarrow> fb | Some (i, b) \<Rightarrow> from_sat_per_vb b)"
  using assms(3)
proof (induction ibs)
  case Nil
  then show ?case by simp
next
  case (Cons ib ibs)
  obtain i b where ib: "ib = (i, b)" by (cases ib)
  with Cons.prems have i: "i < length (buckets fe)" by simp
  note row = fe_invar_index [OF assms(1) i]
  from Cons show ?case by (simp add: ib row assms(2) enough_def)
qed

lemma estimate_eq:
  assumes "fe_invar fe"
  shows "estimate_fee_for_target target fe =
    Some (if target = 0 \<or> length (hd (confirmations fe)) \<le> target then fallback_fee fe
      else (case find (\<lambda>(i, b). enough fe target i) (rev (enumerate 0 (buckets fe))) of
              None \<Rightarrow> fallback_fee fe | Some (i, b) \<Rightarrow> from_sat_per_vb b))"
proof (cases "target = 0 \<or> length (hd (confirmations fe)) \<le> target")
  case True
  then show ?thesis by (auto simp: estimate_fee_for_target_def fe_invar_row0 [OF assms])
next
  case False
  have "\<forall>(i, b) \<in> set (rev (enumerate 0 (buckets fe))). i < length (buckets fe)"
    by (auto simp: in_set_enumerate_eq)
  from scan_buckets_eq [OF assms _ this] False show ?thesis
    by (auto simp: estimate_fee_for_target_def fe_invar_row0 [OF assms] not_le)
qed

lemma estimate_total: "fe_invar fe \<Longrightarrow> \<exists>r. estimate_fee_for_target target fe = Some r"
  by (simp add: estimate_eq)

lemma find_rev_enumerate:
  "find (\<lambda>(i, b). P i) (rev (enumerate 0 bs)) = Some (i, b) \<longleftrightarrow>
     i < length bs \<and> b = bs ! i \<and> P i \<and> (\<forall>j. i < j \<and> j < length bs \<longrightarrow> \<not> P j)"
proof (induction bs rule: rev_induct)
  case Nil
  then show ?case by simp
next
  case (snoc x bs)
  show ?case
  proof (cases "P (length bs)")
    case True
    then show ?thesis by (auto simp: enumerate_append_eq nth_append less_Suc_eq)
  next
    case False
    with snoc show ?thesis
      by (auto simp: enumerate_append_eq nth_append less_Suc_eq)
  qed
qed

section \<open>Runs of the estimator\<close>

datatype fe_op =
    FeAdd instant FeeRate
  | FeConfirm FeeRate u32
  | FeHeight instant u32
  | FeFallback FeeRate
  | FeClear

fun fe_step :: "fe_op \<Rightarrow> fee_estimator option \<Rightarrow> fee_estimator option" where
  "fe_step op None = None"
| "fe_step (FeAdd now r) (Some fe) = Some (fe_add_tx now r fe)"
| "fe_step (FeConfirm r h) (Some fe) = confirm_tx r h fe"
| "fe_step (FeHeight now h) (Some fe) = Some (fe_update_height now h fe)"
| "fe_step (FeFallback r) (Some fe) = Some (set_fallback_fee r fe)"
| "fe_step FeClear (Some fe) = Some (fe_clear fe)"

text \<open>The bucket table and the history bound are fixed by the constructor.\<close>

definition fe_ready :: "fee_estimator option \<Rightarrow> bool" where
  "fe_ready s \<longleftrightarrow> (\<exists>fe. s = Some fe \<and> fe_invar fe \<and> max_history fe = 10000 \<and>
     buckets fe = buckets fee_estimator_new \<and> length (hd (confirmations fe)) = 25)"

lemma confirm_tx_frame:
  assumes "fe_invar fe" and "confirm_tx r h fe = Some fe'"
  shows "max_history fe' = max_history fe" "buckets fe' = buckets fe"
    "length (hd (confirmations fe')) = length (hd (confirmations fe))"
proof -
  have ne: "confirmations fe \<noteq> []" using assms(1) by (auto simp: fe_invar_def)
  show "max_history fe' = max_history fe" "buckets fe' = buckets fe"
    using assms(2) by (auto simp: confirm_tx_Some [OF assms(1)] Let_def)
  show "length (hd (confirmations fe')) = length (hd (confirmations fe))"
    using assms(2) ne
    by (cases "confirmations fe"; cases "find_bucket r fe")
      (auto simp: confirm_tx_Some [OF assms(1)] Let_def)
qed

lemma fe_ready_step: "fe_ready s \<Longrightarrow> fe_ready (fe_step op s)"
proof -
  assume "fe_ready s"
  then obtain fe where s: "s = Some fe" and inv: "fe_invar fe" and m: "max_history fe = 10000"
    and b: "buckets fe = buckets fee_estimator_new" and w: "length (hd (confirmations fe)) = 25"
    by (auto simp: fe_ready_def)
  have ne: "confirmations fe \<noteq> []" using inv by (auto simp: fe_invar_def)
  show ?thesis
  proof (cases op)
    case (FeAdd now r)
    with s fe_invar_add_tx [OF inv, of now r] m b w show ?thesis
      by (simp add: fe_ready_def fe_add_tx_def Let_def)
  next
    case (FeConfirm r h)
    obtain fe' where fe': "confirm_tx r h fe = Some fe'" by (simp add: confirm_tx_Some [OF inv] Let_def)
    with fe_invar_confirm_tx [OF inv fe'] confirm_tx_frame [OF inv fe'] s m b w FeConfirm
    show ?thesis by (simp add: fe_ready_def)
  next
    case (FeHeight now h)
    with s fe_invar_update_height [OF inv, of now h] m b w show ?thesis
      by (simp add: fe_ready_def fe_update_height_def Let_def)
  next
    case (FeFallback r)
    with s fe_invar_set_fallback_fee [OF inv, of r] m b w show ?thesis
      by (simp add: fe_ready_def set_fallback_fee_def)
  next
    case FeClear
    with s fe_invar_clear [OF inv] m b w ne show ?thesis
      by (simp add: fe_ready_def fe_clear_def hd_map)
  qed
qed

interpretation fee_machine: invariant_machine "Some fee_estimator_new" fe_step "\<lambda>_. True" fe_ready
proof unfold_locales
  show "fe_ready (Some fee_estimator_new)"
    using fe_invar_new by (simp add: fe_ready_def fee_estimator_new_def Let_def)
qed (rule fe_ready_step)

text \<open>C35. No sequence of calls on a fresh estimator panics: the table is always
  indexed in range, the history never exceeds its 10000 entries and every later
  estimate returns a rate.\<close>

theorem estimator_runs_total:
  "\<exists>fe. fold fe_step ops (Some fee_estimator_new) = Some fe \<and> length (history fe) \<le> 10000 \<and>
     (\<exists>r. estimate_fee p fe = Some r) \<and> (\<exists>st. fe_get_stats fe = Some st)"
proof -
  have "fe_ready (fold fe_step ops (Some fee_estimator_new))"
    by (rule fee_machine.invar_reachable) (simp add: list_all_def)
  then obtain fe where fe: "fold fe_step ops (Some fee_estimator_new) = Some fe" "fe_invar fe"
    "max_history fe = 10000" by (auto simp: fe_ready_def)
  have "\<exists>r. estimate_fee q fe = Some r" for q
    using estimate_total [OF fe(2)] by (simp add: estimate_fee_def)
  moreover from this have "\<exists>st. fe_get_stats fe = Some st"
    by (simp add: fe_get_stats_def estimate_economy_fee_def estimate_high_priority_fee_def estimate_eq [OF fe(2)] estimate_fee_def)
  moreover have "length (history fe) \<le> 10000" using fe by (simp add: fe_invar_def)
  ultimately show ?thesis using fe(1) by blast
qed


text \<open>Five transactions of the fifth bucket (10 sat/vB) confirmed after six blocks.\<close>

definition sample_estimator :: fee_estimator where
  "sample_estimator = fee_estimator_new\<lparr>confirmations :=
     (confirmations fee_estimator_new)[4 := (replicate 25 0)[6 := 5]]\<rparr>"

lemma sample_estimator_cells:
  "confirmations sample_estimator = (replicate 13 (replicate 25 0))[4 := (replicate 25 0)[6 := 5]]"
  by (simp add: sample_estimator_def fee_estimator_new_def Let_def eval_nat_numeral)

lemma sample_estimator_enough: "i < 13 \<Longrightarrow> enough sample_estimator 6 i \<longleftrightarrow> i = 4"
  unfolding enough_def sample_estimator_cells by (cases "i = 4") simp_all

lemma sample_estimator_invar:
  "fe_invar sample_estimator" "length (hd (confirmations sample_estimator)) = 25"
  "length (buckets sample_estimator) = 13" "buckets sample_estimator ! 4 = 10"
  using fe_invar_new
  by (auto simp: sample_estimator_def fee_estimator_new_def fe_invar_def Let_def hd_conv_nth nth_list_update
      all_set_conv_all_nth)


end
