(* ===== verification/Kernel_Checks.thy ===== *)
theory Kernel_Checks
  imports Mempool_Entry
begin

text \<open>
  The transaction checks of \<^verbatim>\<open>src/kernel/mod.rs\<close> that the mempool calls:
  \<open>validate_transaction\<close> and \<open>check_tx_inputs\<close>.  Neither reads the kernel's state.
\<close>

datatype kernel_error = EncodingError string | OutputValueOverflow

abbreviation max_money :: u64 where
  "max_money \<equiv> 21000000 * 100000000"

text \<open>The loop over the outputs: an early \<open>return\<close> on the left, the total on the right.\<close>

fun sum_outputs ::
  "u64 \<Rightarrow> txout list \<Rightarrow> (kernel_error + (bool \<times> string option)) + u64" where
  "sum_outputs total_out [] = Inr total_out"
| "sum_outputs total_out (out # outs) =
     (if value_sat out > max_money then Inl (Inr (False, Some ''output value too high''))
      else case checked_add total_out (value_sat out) of
             None \<Rightarrow> Inl (Inl OutputValueOverflow)
           | Some total_out' \<Rightarrow> sum_outputs total_out' outs)"

fun has_duplicate_input :: "outpoint hset \<Rightarrow> txin list \<Rightarrow> bool" where
  "has_duplicate_input seen [] = False"
| "has_duplicate_input seen (i # is) =
     (if previous_output i \<in> set seen then True
      else has_duplicate_input (hs_insert (previous_output i) seen) is)"

definition validate_transaction ::
  "tx_api \<Rightarrow> transaction \<Rightarrow> kernel_error + (bool \<times> string option)" where
  "validate_transaction B t =
     (case consensus_encode B t of
        Inl e \<Rightarrow> Inl (EncodingError e)
      | Inr bytes \<Rightarrow>
          if length bytes < 60 then Inr (False, Some ''transaction too small'')
          else if tx_input t = [] then Inr (False, Some ''no inputs'')
          else if tx_output t = [] then Inr (False, Some ''no outputs'')
          else (case sum_outputs 0 (tx_output t) of
                  Inl early \<Rightarrow> early
                | Inr total_out \<Rightarrow>
                    if total_out > max_money
                    then Inr (False, Some ''total output value too high'')
                    else if has_duplicate_input [] (tx_input t)
                    then Inr (False, Some ''duplicate input'')
                    else Inr (True, None)))"

definition check_tx_inputs :: "transaction \<Rightarrow> kernel_error + (bool \<times> nat)" where
  "check_tx_inputs t = Inr (True, 0)"

section \<open>What a validated transaction satisfies\<close>

lemma has_duplicate_input_iff:
  "has_duplicate_input seen is \<longleftrightarrow>
     \<not> distinct (map previous_output is) \<or> set seen \<inter> previous_output ` set is \<noteq> {}"
  by (induction seen "is" rule: has_duplicate_input.induct) auto

abbreviation total_sats :: "txout list \<Rightarrow> nat" where
  "total_sats outs \<equiv> sum_list (map (\<lambda>out. unat (value_sat out)) outs)"

lemma sum_outputs_Inr:
  "sum_outputs tot outs = Inr r \<longleftrightarrow>
     (\<forall>out \<in> set outs. value_sat out \<le> max_money) \<and>
     unat tot + total_sats outs < 2 ^ 64 \<and> unat r = unat tot + total_sats outs"
proof (induction tot outs arbitrary: r rule: sum_outputs.induct)
  case (1 tot)
  have "tot = r \<longleftrightarrow> unat r = unat tot" by (auto simp: word_unat_eq_iff)
  then show ?case using unsigned_less [of tot, where ?'a = nat] by auto
next
  case (2 tot out outs)
  show ?case
  proof (cases "value_sat out \<le> max_money \<and> unat tot + unat (value_sat out) < 2 ^ 64")
    case True
    then have step: "sum_outputs tot (out # outs) = sum_outputs (tot + value_sat out) outs"
      by (auto simp: checked_add_def)
    have "unat (tot + value_sat out) = unat tot + unat (value_sat out)"
      using True by (intro unat_add_no_overflow) simp
    with 2 [of "tot + value_sat out"] True step show ?thesis
      by (auto simp: checked_add_def not_less)
  next
    case False
    then show ?thesis by (auto simp: checked_add_def not_less not_le)
  qed
qed

lemma sum_outputs_Inl_not_valid: "sum_outputs tot outs = Inl early \<Longrightarrow> early \<noteq> Inr (True, None)"
  by (induction tot outs rule: sum_outputs.induct) (auto split: if_splits option.splits)

lemma sum_outputs_true: "sum_outputs tot outs = Inl (Inr (True, r)) \<Longrightarrow> r = None"
  by (induction tot outs rule: sum_outputs.induct) (auto split: if_splits option.splits)

lemma validate_transaction_ok_iff:
  "validate_transaction B t = Inr (True, None) \<longleftrightarrow>
     (\<exists>bytes. consensus_encode B t = Inr bytes \<and> 60 \<le> length bytes) \<and>
     tx_input t \<noteq> [] \<and> tx_output t \<noteq> [] \<and>
     (\<forall>out \<in> set (tx_output t). value_sat out \<le> max_money) \<and>
     total_sats (tx_output t) \<le> unat max_money \<and> distinct (prevouts t)"
proof (cases "sum_outputs 0 (tx_output t)")
  case (Inl early)
  with sum_outputs_Inr [of 0 "tx_output t" "of_nat (total_sats (tx_output t))"] have
    "\<not> ((\<forall>out \<in> set (tx_output t). value_sat out \<le> max_money) \<and> total_sats (tx_output t) < 2 ^ 64)"
    by (auto simp: unat_of_nat)
  with Inl show ?thesis
    by (auto simp: validate_transaction_def prevouts_def split: sum.splits
        dest: sum_outputs_Inl_not_valid)
next
  case (Inr total)
  with sum_outputs_Inr [of 0 "tx_output t" total] have
    "\<forall>out \<in> set (tx_output t). value_sat out \<le> max_money" "unat total = total_sats (tx_output t)"
    by simp_all
  with Inr show ?thesis
    by (auto simp: validate_transaction_def prevouts_def has_duplicate_input_iff word_less_nat_alt
        word_le_nat_alt split: sum.splits)
qed

lemma validate_transaction_true: "validate_transaction B t = Inr (True, r) \<Longrightarrow> r = None"
  using sum_outputs_true
  by (fastforce simp: validate_transaction_def split: sum.splits if_splits)

text \<open>C37. The consensus pre-check accepts exactly the transactions that encode to at least
  60 bytes, have inputs and outputs, move at most 21 million coins in each output and
  in total (no addition wraps), and spend no output twice.\<close>

theorem validate_transaction_accepts:
  "validate_transaction B t = Inr (True, None) \<longleftrightarrow>
     (\<exists>bytes. consensus_encode B t = Inr bytes \<and> 60 \<le> length bytes) \<and>
     tx_input t \<noteq> [] \<and> tx_output t \<noteq> [] \<and>
     list_all (\<lambda>out. value_sat out \<le> max_money) (tx_output t) \<and>
     total_sats (tx_output t) \<le> unat max_money \<and> distinct (prevouts t)"
  unfolding validate_transaction_ok_iff list_all_iff by (rule refl)

end
