(* ===== verification/Tx_Mempool.thy ===== *)
theory Tx_Mempool
  imports Mempool_Policy Fee_Estimator Kernel_Checks
begin

text \<open>
  \<^verbatim>\<open>src/mempool/txmempool.rs\<close>: the mempool and every operation that changes it.
  Each operation returns its result together with the new state, since several
  error paths of \<open>add_tx\<close> leave the state changed.  \<open>ord\<close> is the order in which
  the entry table is iterated, \<open>now\<close> the instant the clock returns.
\<close>

section \<open>State\<close>

datatype kernel_handle = KernelHandle

datatype mempool_error =
    AlreadyInMempool
  | TransactionInvalid "string option"
  | ValidationError kernel_error
  | MissingInputs nat
  | InputCheckError kernel_error
  | TransactionTooLarge
  | FeeRateTooLow u64 u64
  | ConflictsWithMempool
  | ConflictDoesNotSignalRbf
  | PolicyError policy_error
  | NotInMempool

record mempool =
  entries :: "(txid, mempool_entry) hmap"
  policy :: mempool_policy
  fee_est :: fee_estimator
  total_size :: usize
  total_fees :: u64
  current_height :: u32
  spends :: "(outpoint, txid) hmap"
  kernel :: "kernel_handle option"

definition mempool_new :: "mempool_policy \<Rightarrow> mempool" where
  "mempool_new p =
     \<lparr>entries = [], policy = p, fee_est = fee_estimator_new, total_size = 0, total_fees = 0,
      current_height = 0, spends = [], kernel = None\<rparr>"

definition set_kernel :: "kernel_handle \<Rightarrow> mempool \<Rightarrow> mempool" where
  "set_kernel k mp = mp\<lparr>kernel := Some k\<rparr>"

definition with_kernel :: "mempool_policy \<Rightarrow> kernel_handle \<Rightarrow> mempool" where
  "with_kernel p k =
     \<lparr>entries = [], policy = p, fee_est = fee_estimator_new, total_size = 0, total_fees = 0,
      current_height = 0, spends = [], kernel = Some k\<rparr>"

section \<open>Removal\<close>

definition detach_parent :: "txid \<Rightarrow> mempool_entry \<Rightarrow> mempool_entry \<Rightarrow> mempool_entry" where
  "detach_parent t entry parent =
     update_descendant_state (- vsize entry) (- fee entry) (- 1)
       (parent\<lparr>children := hs_remove t (children parent)\<rparr>)"

definition detach_child :: "txid \<Rightarrow> mempool_entry \<Rightarrow> mempool_entry \<Rightarrow> mempool_entry" where
  "detach_child t entry child =
     update_ancestor_state (- vsize entry) (- fee entry) (- 1)
       (child\<lparr>parents := hs_remove t (parents child)\<rparr>)"

definition remove_tx :: "txid \<Rightarrow> mempool \<Rightarrow> (mempool_error + mempool_entry) \<times> mempool" where
  "remove_tx t mp =
     (case hm_get (entries mp) t of
        None \<Rightarrow> (Inl NotInMempool, mp)
      | Some entry \<Rightarrow>
          let es = hm_remove t (entries mp);
              es = fold (\<lambda>p. hm_modify p (detach_parent t entry)) (parents entry) es;
              es = fold (\<lambda>c. hm_modify c (detach_child t entry)) (children entry) es
          in (Inr entry,
              mp\<lparr>entries := es,
                 spends := fold hm_remove (prevouts (tx entry)) (spends mp),
                 total_size := total_size mp - vsize entry,
                 total_fees := total_fees mp - fee entry\<rparr>))"

section \<open>Queries\<close>

definition get_tx :: "txid \<Rightarrow> mempool \<Rightarrow> transaction option" where
  "get_tx t mp = map_option tx (hm_get (entries mp) t)"

definition contains :: "txid \<Rightarrow> mempool \<Rightarrow> bool" where
  "contains t mp \<longleftrightarrow> hm_contains (entries mp) t"

definition mempool_size :: "mempool \<Rightarrow> nat" where
  "mempool_size mp = length (entries mp)"

definition get_all_txids :: "(txid list \<Rightarrow> txid list) \<Rightarrow> mempool \<Rightarrow> txid list" where
  "get_all_txids ord mp = ord (hm_keys (entries mp))"

definition mempool_total_size :: "mempool \<Rightarrow> usize" where
  "mempool_total_size mp = total_size mp"

definition mempool_total_fees :: "mempool \<Rightarrow> u64" where
  "mempool_total_fees mp = total_fees mp"

record 'f mempool_stats =
  ms_size :: nat
  ms_bytes :: usize
  ms_usage :: usize
  ms_max_mempool :: usize
  ms_mempool_min_fee :: 'f
  ms_min_relay_tx_fee :: 'f
  ms_total_fee :: 'f

definition mempool_get_stats :: "'f f64_ops \<Rightarrow> mempool \<Rightarrow> 'f mempool_stats" where
  "mempool_get_stats F mp =
     (let relay = f64_div F (f64_lit F (unat (as_sat_per_vb (min_relay_fee (policy mp)))) 1) (f64_lit F 1000 1)
      in \<lparr>ms_size = mempool_size mp, ms_bytes = mempool_total_size mp, ms_usage = total_size mp,
          ms_max_mempool = max_size (policy mp), ms_mempool_min_fee = relay, ms_min_relay_tx_fee = relay,
          ms_total_fee = f64_div F (f64_lit F (unat (total_fees mp)) 1) (f64_lit F 100000000 1)\<rparr>)"

definition mempool_clear :: "mempool \<Rightarrow> mempool" where
  "mempool_clear mp = mp\<lparr>entries := [], spends := [], total_size := 0, total_fees := 0\<rparr>"

definition find_conflicts :: "transaction \<Rightarrow> mempool \<Rightarrow> txid list" where
  "find_conflicts t mp = List.map_filter (\<lambda>i. hm_get (spends mp) (previous_output i)) (tx_input t)"

definition find_parents :: "transaction \<Rightarrow> mempool \<Rightarrow> txid hset" where
  "find_parents t mp =
     fold (\<lambda>i ps. if hm_contains (entries mp) (op_txid (previous_output i))
                  then hs_insert (op_txid (previous_output i)) ps else ps)
       (tx_input t) []"

definition calculate_ancestors :: "txid hset \<Rightarrow> mempool \<Rightarrow> usize \<times> u64 \<times> u64" where
  "calculate_ancestors ps mp =
     fold (\<lambda>p (count, sz, fees).
             case hm_get (entries mp) p of
               None \<Rightarrow> (count, sz, fees)
             | Some parent \<Rightarrow> (count + ancestor_count parent, sz + ancestor_size parent,
                               fees + ancestor_fees parent))
       ps (0, 0, 0)"

section \<open>Replacement\<close>

fun conflict_totals ::
  "mempool \<Rightarrow> txid list \<Rightarrow> u64 \<Rightarrow> i64 \<Rightarrow> mempool_error + (u64 \<times> i64)" where
  "conflict_totals mp [] conflict_fees conflict_size = Inr (conflict_fees, conflict_size)"
| "conflict_totals mp (c # cs) conflict_fees conflict_size =
     (case hm_get (entries mp) c of
        None \<Rightarrow> conflict_totals mp cs conflict_fees conflict_size
      | Some conflict \<Rightarrow>
          if \<not> signals_replacement conflict then Inl ConflictDoesNotSignalRbf
          else conflict_totals mp cs (conflict_fees + fee conflict) (conflict_size + vsize conflict))"

definition remove_all :: "txid list \<Rightarrow> mempool \<Rightarrow> mempool" where
  "remove_all ts mp = fold (\<lambda>t m. snd (remove_tx t m)) ts mp"

definition handle_replacement ::
  "mempool_entry \<Rightarrow> txid list \<Rightarrow> mempool \<Rightarrow> (mempool_error + unit) \<times> mempool" where
  "handle_replacement new_entry conflicts mp =
     (case conflict_totals mp conflicts 0 0 of
        Inl e \<Rightarrow> (Inl e, mp)
      | Inr (conflict_fees, conflict_size) \<Rightarrow>
          let fee_delta = saturating_sub (fee new_entry) conflict_fees;
              size_delta = vsize new_entry - conflict_size
          in case check_rbf (policy mp) (signals_replacement new_entry) fee_delta size_delta of
               Inl e \<Rightarrow> (Inl (PolicyError e), mp)
             | Inr _ \<Rightarrow> (Inr (), remove_all conflicts mp))"

section \<open>Eviction and expiry\<close>

fun evict_loop :: "usize \<Rightarrow> usize \<Rightarrow> mempool_entry list \<Rightarrow> mempool \<Rightarrow> mempool" where
  "evict_loop current_size evicted_size [] mp = mp"
| "evict_loop current_size evicted_size (e # es) mp =
     (if current_size - evicted_size \<le> max_size (policy mp) then mp
      else case remove_tx (txid e) mp of
             (Inr _, mp') \<Rightarrow> evict_loop current_size (evicted_size + vsize e) es mp'
           | (Inl _, mp') \<Rightarrow> evict_loop current_size evicted_size es mp')"

definition maybe_evict :: "(mempool_entry list \<Rightarrow> mempool_entry list) \<Rightarrow> mempool \<Rightarrow> mempool" where
  "maybe_evict ord mp =
     (let current_size = total_size mp in
      if current_size \<le> max_size (policy mp) then mp
      else evict_loop current_size 0 (sort_key fee_rate (ord (hm_values (entries mp)))) mp)"

fun remove_counting :: "txid list \<Rightarrow> nat \<Rightarrow> mempool \<Rightarrow> nat \<times> mempool" where
  "remove_counting [] removed mp = (removed, mp)"
| "remove_counting (t # ts) removed mp =
     (case remove_tx t mp of
        (Inr _, mp') \<Rightarrow> remove_counting ts (removed + 1) mp'
      | (Inl _, mp') \<Rightarrow> remove_counting ts removed mp')"

definition remove_expired ::
  "(mempool_entry list \<Rightarrow> mempool_entry list) \<Rightarrow> instant \<Rightarrow> mempool \<Rightarrow> nat \<times> mempool" where
  "remove_expired ord now mp =
     (let expired = map txid (filter (is_expired now (expiry (policy mp))) (ord (hm_values (entries mp))))
      in remove_counting expired 0 mp)"

definition update_height ::
  "(mempool_entry list \<Rightarrow> mempool_entry list) \<Rightarrow> instant \<Rightarrow> u32 \<Rightarrow> mempool \<Rightarrow> mempool" where
  "update_height ord now h mp =
     snd (remove_expired ord now
       (mp\<lparr>current_height := h, fee_est := fe_update_height now h (fee_est mp)\<rparr>))"

section \<open>Admission\<close>

text \<open>The consensus gate of \<open>add_tx\<close>: the kernel's checks when a kernel is set.\<close>

definition kernel_gate :: "tx_api \<Rightarrow> transaction \<Rightarrow> mempool \<Rightarrow> mempool_error + unit" where
  "kernel_gate B t mp =
     (case kernel mp of
        None \<Rightarrow> Inr ()
      | Some _ \<Rightarrow>
          (case validate_transaction B t of
             Inr (False, Some reason) \<Rightarrow> Inl (TransactionInvalid (Some reason))
           | Inr (False, None) \<Rightarrow> Inl (TransactionInvalid None)
           | Inl e \<Rightarrow> Inl (ValidationError e)
           | Inr (True, _) \<Rightarrow>
               (case check_tx_inputs t of
                  Inr (False, missing) \<Rightarrow> Inl (MissingInputs missing)
                | Inl e \<Rightarrow> Inl (InputCheckError e)
                | Inr (True, _) \<Rightarrow> Inr ())))"

definition attach_parent :: "mempool_entry \<Rightarrow> mempool_entry \<Rightarrow> mempool_entry" where
  "attach_parent entry parent =
     update_descendant_state (vsize entry) (fee entry) 1
       (parent\<lparr>children := hs_insert (txid entry) (children parent)\<rparr>)"

text \<open>The commit part of \<open>add_tx\<close>: everything after the last check.\<close>

definition commit_entry :: "instant \<Rightarrow> mempool_entry \<Rightarrow> mempool \<Rightarrow> mempool" where
  "commit_entry now entry mp =
     mp\<lparr>spends := fold (\<lambda>op. hm_insert op (txid entry)) (prevouts (tx entry)) (spends mp),
        total_size := total_size mp + vsize entry,
        total_fees := total_fees mp + fee entry,
        fee_est := fe_add_tx now (fee_rate entry) (fee_est mp),
        entries := hm_insert (txid entry) entry
          (fold (\<lambda>p. hm_modify p (attach_parent entry)) (parents entry) (entries mp))\<rparr>"

definition add_tx ::
  "tx_api \<Rightarrow> (mempool_entry list \<Rightarrow> mempool_entry list) \<Rightarrow> instant \<Rightarrow> transaction \<Rightarrow> u64 \<Rightarrow> u32 \<Rightarrow>
   mempool \<Rightarrow> (mempool_error + txid) \<times> mempool" where
  "add_tx B ord now t f h mp =
     (let id = compute_txid B t in
      if hm_contains (entries mp) id then (Inl AlreadyInMempool, mp)
      else case kernel_gate B t mp of
        Inl e \<Rightarrow> (Inl e, mp)
      | Inr _ \<Rightarrow>
          if \<not> is_size_acceptable (policy mp) (tx_vsize B t) then (Inl TransactionTooLarge, mp)
          else
            let entry = mempool_entry_new B now t f h in
            if \<not> is_fee_acceptable (policy mp) (fee_rate entry)
            then (Inl (FeeRateTooLow (as_sat_per_vb (fee_rate entry))
                         (as_sat_per_vb (min_relay_fee (policy mp)))), mp)
            else
              let conflicts = find_conflicts t mp in
              if conflicts \<noteq> [] \<and> \<not> signals_replacement entry then (Inl ConflictsWithMempool, mp)
              else case (if conflicts \<noteq> [] then handle_replacement entry conflicts mp else (Inr (), mp)) of
                (Inl e, mp1) \<Rightarrow> (Inl e, mp1)
              | (Inr _, mp1) \<Rightarrow>
                  let ps = find_parents t mp1;
                      (acount, asize, afees) = calculate_ancestors ps mp1
                  in case check_ancestor_limits (policy mp1) (acount + 1) (asize + vsize entry) of
                       Inl e \<Rightarrow> (Inl (PolicyError e), mp1)
                     | Inr _ \<Rightarrow>
                         let entry' = entry\<lparr>parents := ps, ancestor_count := acount + 1,
                               ancestor_size := asize + vsize entry,
                               ancestor_fees := afees + fee entry\<rparr>
                         in (Inr id, maybe_evict ord (commit_entry now entry' mp1)))"

end
