(* ===== verification/Mempool_Graph.thy ===== *)
theory Mempool_Graph
  imports Tx_Mempool
begin

text \<open>
  The invariant of the mempool and its abstract specification.  Abstractly the
  mempool is a graph: the set of transaction ids, the parent/child edges, and
  the map from spent outpoints to their spenders.  Removing a transaction
  removes a vertex with its edges and spends; committing one adds a sink.
\<close>

section \<open>The abstract graph\<close>

record mempool_graph =
  g_txids :: "txid set"
  g_edges :: "(txid \<times> txid) set"
  g_spends :: "outpoint \<rightharpoonup> txid"

definition parents_of :: "mempool \<Rightarrow> txid \<Rightarrow> txid set" where
  "parents_of mp c = (case hm_get (entries mp) c of None \<Rightarrow> {} | Some e \<Rightarrow> set (parents e))"

definition children_of :: "mempool \<Rightarrow> txid \<Rightarrow> txid set" where
  "children_of mp p = (case hm_get (entries mp) p of None \<Rightarrow> {} | Some e \<Rightarrow> set (children e))"

definition spent_by :: "mempool \<Rightarrow> txid \<Rightarrow> outpoint set" where
  "spent_by mp t = (case hm_get (entries mp) t of None \<Rightarrow> {} | Some e \<Rightarrow> set (prevouts (tx e)))"

definition edges_of :: "mempool \<Rightarrow> (txid \<times> txid) set" where
  "edges_of mp = {(p, c). p \<in> parents_of mp c}"

definition abs_graph :: "mempool \<Rightarrow> mempool_graph" where
  "abs_graph mp =
     \<lparr>g_txids = dom (hm_get (entries mp)), g_edges = edges_of mp, g_spends = hm_get (spends mp)\<rparr>"

definition graph_remove :: "txid \<Rightarrow> mempool_graph \<Rightarrow> mempool_graph" where
  "graph_remove t g =
     \<lparr>g_txids = g_txids g - {t},
      g_edges = {(p, c) \<in> g_edges g. p \<noteq> t \<and> c \<noteq> t},
      g_spends = (\<lambda>op. if g_spends g op = Some t then None else g_spends g op)\<rparr>"

definition graph_add :: "txid \<Rightarrow> txid set \<Rightarrow> outpoint set \<Rightarrow> mempool_graph \<Rightarrow> mempool_graph" where
  "graph_add t ps ops g =
     \<lparr>g_txids = insert t (g_txids g),
      g_edges = g_edges g \<union> ps \<times> {t},
      g_spends = (\<lambda>op. if op \<in> ops then Some t else g_spends g op)\<rparr>"

section \<open>The invariant\<close>

definition entry_ok :: "tx_api \<Rightarrow> txid \<Rightarrow> mempool_entry \<Rightarrow> bool" where
  "entry_ok B t e \<longleftrightarrow>
     txid e = t \<and> compute_txid B (tx e) = t \<and> vsize e = tx_vsize B (tx e) \<and>
     fee_rate e = from_sat_per_vb (fee e div max (vsize e) 1) \<and>
     distinct (parents e) \<and> distinct (children e)"

definition mp_entries_ok :: "tx_api \<Rightarrow> mempool \<Rightarrow> bool" where
  "mp_entries_ok B mp \<longleftrightarrow> hm_wf (entries mp) \<and> hm_wf (spends mp) \<and>
     (\<forall>t e. hm_get (entries mp) t = Some e \<longrightarrow> entry_ok B t e)"

definition mp_links_ok :: "mempool \<Rightarrow> bool" where
  "mp_links_ok mp \<longleftrightarrow> (\<forall>p c. p \<in> parents_of mp c \<longleftrightarrow> c \<in> children_of mp p) \<and> acyclic (edges_of mp)"

definition mp_spends_ok :: "mempool \<Rightarrow> bool" where
  "mp_spends_ok mp \<longleftrightarrow> (\<forall>op t. hm_get (spends mp) op = Some t \<longleftrightarrow> op \<in> spent_by mp t)"

definition mp_totals_ok :: "mempool \<Rightarrow> bool" where
  "mp_totals_ok mp \<longleftrightarrow> total_size mp = hm_sum vsize (entries mp) \<and> total_fees mp = hm_sum fee (entries mp)"

definition mp_invar :: "tx_api \<Rightarrow> mempool \<Rightarrow> bool" where
  "mp_invar B mp \<longleftrightarrow> mp_entries_ok B mp \<and> mp_links_ok mp \<and> mp_spends_ok mp \<and> mp_totals_ok mp \<and>
     fe_invar (fee_est mp)"

lemmas mp_invar_defs = mp_invar_def mp_entries_ok_def mp_links_ok_def mp_spends_ok_def mp_totals_ok_def

lemma mp_invar_new: "mp_invar B (mempool_new p)"
  by (simp add: mp_invar_defs mempool_new_def parents_of_def children_of_def spent_by_def edges_of_def
      fe_invar_new acyclic_def)

lemma mp_invar_with_kernel: "mp_invar B (with_kernel p k)"
  by (simp add: mp_invar_defs with_kernel_def parents_of_def children_of_def spent_by_def edges_of_def
      fe_invar_new acyclic_def)

lemma mp_invar_clear: "mp_invar B mp \<Longrightarrow> mp_invar B (mempool_clear mp)"
  by (simp add: mp_invar_defs mempool_clear_def parents_of_def children_of_def spent_by_def edges_of_def
      acyclic_def)

lemma mp_invar_frame:
  assumes "mp_invar B mp" and "entries mp' = entries mp" "spends mp' = spends mp"
    "total_size mp' = total_size mp" "total_fees mp' = total_fees mp" "fe_invar (fee_est mp')"
  shows "mp_invar B mp'"
proof -
  have "parents_of mp' = parents_of mp" "children_of mp' = children_of mp" "spent_by mp' = spent_by mp"
    using assms(2) by (simp_all add: fun_eq_iff parents_of_def children_of_def spent_by_def)
  moreover from this have "edges_of mp' = edges_of mp" by (simp add: edges_of_def)
  ultimately show ?thesis using assms by (simp add: mp_invar_defs)
qed

subsection \<open>Lookups after a removal\<close>

lemma detach_parent_sel [simp]:
  "tx (detach_parent t e x) = tx x" "txid (detach_parent t e x) = txid x"
  "vsize (detach_parent t e x) = vsize x" "fee (detach_parent t e x) = fee x"
  "fee_rate (detach_parent t e x) = fee_rate x" "parents (detach_parent t e x) = parents x"
  "children (detach_parent t e x) = hs_remove t (children x)"
  "signals_replacement (detach_parent t e x) = signals_replacement x"
  "entry_time (detach_parent t e x) = entry_time x"
  by (simp_all add: detach_parent_def)

lemma detach_child_sel [simp]:
  "tx (detach_child t e x) = tx x" "txid (detach_child t e x) = txid x"
  "vsize (detach_child t e x) = vsize x" "fee (detach_child t e x) = fee x"
  "fee_rate (detach_child t e x) = fee_rate x" "children (detach_child t e x) = children x"
  "parents (detach_child t e x) = hs_remove t (parents x)"
  "signals_replacement (detach_child t e x) = signals_replacement x"
  "entry_time (detach_child t e x) = entry_time x"
  by (simp_all add: detach_child_def)

lemma attach_parent_sel [simp]:
  "tx (attach_parent e x) = tx x" "txid (attach_parent e x) = txid x"
  "vsize (attach_parent e x) = vsize x" "fee (attach_parent e x) = fee x"
  "fee_rate (attach_parent e x) = fee_rate x" "parents (attach_parent e x) = parents x"
  "children (attach_parent e x) = hs_insert (txid e) (children x)"
  "signals_replacement (attach_parent e x) = signals_replacement x"
  by (simp_all add: attach_parent_def)

text \<open>What the removal of \<open>t\<close> makes of another entry.\<close>

definition detached :: "txid \<Rightarrow> mempool_entry \<Rightarrow> txid \<Rightarrow> mempool_entry \<Rightarrow> mempool_entry" where
  "detached t e k x =
     (let x = (if k \<in> set (parents e) then detach_parent t e x else x)
      in if k \<in> set (children e) then detach_child t e x else x)"

lemma detached_sel [simp]:
  "tx (detached t e k x) = tx x" "txid (detached t e k x) = txid x"
  "vsize (detached t e k x) = vsize x" "fee (detached t e k x) = fee x"
  "fee_rate (detached t e k x) = fee_rate x"
  "signals_replacement (detached t e k x) = signals_replacement x"
  "entry_time (detached t e k x) = entry_time x"
  "parents (detached t e k x) = (if k \<in> set (children e) then hs_remove t (parents x) else parents x)"
  "children (detached t e k x) = (if k \<in> set (parents e) then hs_remove t (children x) else children x)"
  by (simp_all add: detached_def Let_def)

lemma remove_tx_absent: "hm_get (entries mp) t = None \<Longrightarrow> remove_tx t mp = (Inl NotInMempool, mp)"
  by (simp add: remove_tx_def)

lemma remove_tx_frame [simp]:
  "policy (snd (remove_tx t mp)) = policy mp" "fee_est (snd (remove_tx t mp)) = fee_est mp"
  "kernel (snd (remove_tx t mp)) = kernel mp" "current_height (snd (remove_tx t mp)) = current_height mp"
  by (simp_all add: remove_tx_def Let_def split: option.splits)

lemma remove_tx_get:
  assumes "mp_entries_ok B mp" and "hm_get (entries mp) t = Some e"
  shows "hm_get (entries (snd (remove_tx t mp))) k =
    (if k = t then None else map_option (detached t e k) (hm_get (entries mp) k))"
proof -
  from assms have "distinct (parents e)" "distinct (children e)"
    by (auto simp: mp_entries_ok_def entry_ok_def)
  with assms(2) show ?thesis
    by (auto simp: remove_tx_def Let_def hm_simps detached_def option.map_comp comp_def
        map_option_case split: option.splits)
qed

lemma remove_tx_dom:
  assumes "mp_entries_ok B mp"
  shows "dom (hm_get (entries (snd (remove_tx t mp)))) = dom (hm_get (entries mp)) - {t}"
  using remove_tx_get [OF assms] remove_tx_absent [of mp t]
  by (cases "hm_get (entries mp) t") (auto simp: dom_def)

lemma remove_tx_parents_of:
  assumes "mp_entries_ok B mp" and "mp_links_ok mp"
  shows "parents_of (snd (remove_tx t mp)) c = (if c = t then {} else parents_of mp c - {t})"
proof (cases "hm_get (entries mp) t")
  case None
  with assms(2) have "t \<notin> parents_of mp c"
    by (auto simp: mp_links_ok_def children_of_def)
  with None show ?thesis by (simp add: remove_tx_absent parents_of_def)
next
  case (Some e)
  have "t \<in> parents_of mp c \<longleftrightarrow> c \<in> set (children e)"
    using assms(2) Some by (simp add: mp_links_ok_def children_of_def)
  with remove_tx_get [OF assms(1) Some, of c] show ?thesis
    by (auto simp: parents_of_def split: option.splits)
qed

lemma remove_tx_children_of:
  assumes "mp_entries_ok B mp" and "mp_links_ok mp"
  shows "children_of (snd (remove_tx t mp)) p = (if p = t then {} else children_of mp p - {t})"
proof (cases "hm_get (entries mp) t")
  case None
  then have "parents_of mp t = {}" by (simp add: parents_of_def)
  with assms(2) have "t \<notin> children_of mp p"
    unfolding mp_links_ok_def by blast
  with None show ?thesis by (simp add: remove_tx_absent children_of_def)
next
  case (Some e)
  have "t \<in> children_of mp p \<longleftrightarrow> p \<in> parents_of mp t"
    using assms(2) unfolding mp_links_ok_def by blast
  with Some have "t \<in> children_of mp p \<longleftrightarrow> p \<in> set (parents e)" by (simp add: parents_of_def)
  with remove_tx_get [OF assms(1) Some, of p] show ?thesis
    by (auto simp: children_of_def split: option.splits)
qed

lemma remove_tx_edges:
  assumes "mp_entries_ok B mp" and "mp_links_ok mp"
  shows "edges_of (snd (remove_tx t mp)) = {(p, c) \<in> edges_of mp. p \<noteq> t \<and> c \<noteq> t}"
  by (auto simp: edges_of_def remove_tx_parents_of [OF assms])

lemma remove_tx_spent_by:
  assumes "mp_entries_ok B mp"
  shows "spent_by (snd (remove_tx t mp)) u = (if u = t then {} else spent_by mp u)"
proof (cases "hm_get (entries mp) t")
  case None
  then show ?thesis by (auto simp: remove_tx_absent spent_by_def)
next
  case (Some e)
  with remove_tx_get [OF assms Some, of u] show ?thesis
    by (auto simp: spent_by_def split: option.splits)
qed

lemma remove_tx_spends:
  assumes "mp_spends_ok mp"
  shows "hm_get (spends (snd (remove_tx t mp))) op =
    (if hm_get (spends mp) op = Some t then None else hm_get (spends mp) op)"
proof (cases "hm_get (entries mp) t")
  case None
  with assms show ?thesis by (auto simp: remove_tx_absent mp_spends_ok_def spent_by_def)
next
  case (Some e)
  with assms have "hm_get (spends mp) op = Some t \<longleftrightarrow> op \<in> set (prevouts (tx e))"
    by (simp add: mp_spends_ok_def spent_by_def)
  with Some show ?thesis by (simp add: remove_tx_def Let_def hm_simps)
qed


lemma remove_tx_totals:
  assumes "mp_entries_ok B mp" and "mp_totals_ok mp"
  shows "mp_totals_ok (snd (remove_tx t mp))"
proof (cases "hm_get (entries mp) t")
  case None
  with assms show ?thesis by (simp add: remove_tx_absent)
next
  case (Some e)
  have "hm_wf (entries mp)" using assms(1) by (simp add: mp_entries_ok_def)
  then have "hm_sum vsize (entries mp) = vsize e + hm_sum vsize (hm_remove t (entries mp))"
    and "hm_sum fee (entries mp) = fee e + hm_sum fee (hm_remove t (entries mp))"
    using Some by (auto intro: hm_sum_remove)
  with assms(2) Some show ?thesis
    by (simp add: mp_totals_ok_def remove_tx_def Let_def hm_sum_fold_modify)
qed

lemma remove_tx_entries_ok:
  assumes "mp_entries_ok B mp"
  shows "mp_entries_ok B (snd (remove_tx t mp))"
proof (cases "hm_get (entries mp) t")
  case None
  with assms show ?thesis by (simp add: remove_tx_absent)
next
  case (Some e)
  have "hm_wf (entries (snd (remove_tx t mp)))" "hm_wf (spends (snd (remove_tx t mp)))"
    using assms Some
    by (auto simp: mp_entries_ok_def remove_tx_def Let_def
        intro!: hm.wf_fold_modify hm.wf_fold_remove hm_wf_remove)
  moreover have "entry_ok B k x" if "hm_get (entries (snd (remove_tx t mp))) k = Some x" for k x
    using that assms remove_tx_get [OF assms Some, of k]
    by (auto simp: mp_entries_ok_def entry_ok_def distinct_hs_remove split: if_splits)
  ultimately show ?thesis by (simp add: mp_entries_ok_def)
qed

lemma remove_tx_links_ok:
  assumes "mp_entries_ok B mp" and "mp_links_ok mp"
  shows "mp_links_ok (snd (remove_tx t mp))"
proof -
  have "edges_of (snd (remove_tx t mp)) \<subseteq> edges_of mp"
    by (auto simp: remove_tx_edges [OF assms])
  then have "acyclic (edges_of (snd (remove_tx t mp)))"
    using assms(2) by (auto simp: mp_links_ok_def intro: acyclic_subset)
  then show ?thesis
    using assms(2)
    by (auto simp: mp_links_ok_def remove_tx_parents_of [OF assms] remove_tx_children_of [OF assms])
qed

lemma remove_tx_spends_ok:
  assumes "mp_entries_ok B mp" and "mp_spends_ok mp"
  shows "mp_spends_ok (snd (remove_tx t mp))"
proof -
  have "hm_get (spends (snd (remove_tx t mp))) op = Some u \<longleftrightarrow> op \<in> spent_by (snd (remove_tx t mp)) u" for op u
    using assms(2) unfolding remove_tx_spends [OF assms(2)] remove_tx_spent_by [OF assms(1)] mp_spends_ok_def
    by (metis empty_iff option.distinct(1) option.inject)
  then show ?thesis by (simp add: mp_spends_ok_def)
qed

lemma mp_invar_remove_tx [invar_intros]: "mp_invar B mp \<Longrightarrow> mp_invar B (snd (remove_tx t mp))"
  by (auto simp: mp_invar_def intro: remove_tx_entries_ok remove_tx_links_ok remove_tx_spends_ok
      remove_tx_totals)

lemma abs_remove_tx:
  assumes "mp_invar B mp"
  shows "abs_graph (snd (remove_tx t mp)) = graph_remove t (abs_graph mp)"
proof -
  from assms have ok: "mp_entries_ok B mp" "mp_links_ok mp" "mp_spends_ok mp"
    by (simp_all add: mp_invar_def)
  show ?thesis
    by (simp add: abs_graph_def graph_remove_def remove_tx_dom [OF ok(1)]
        remove_tx_edges [OF ok(1,2)] fun_eq_iff remove_tx_spends [OF ok(3)])
qed

subsection \<open>Bulk removal\<close>

lemma mp_invar_remove_all [invar_intros]: "mp_invar B mp \<Longrightarrow> mp_invar B (remove_all ts mp)"
  unfolding remove_all_def by (induction ts arbitrary: mp) (auto intro: mp_invar_remove_tx)

lemma remove_all_frame [simp]:
  "policy (remove_all ts mp) = policy mp" "fee_est (remove_all ts mp) = fee_est mp"
  "kernel (remove_all ts mp) = kernel mp" "current_height (remove_all ts mp) = current_height mp"
  unfolding remove_all_def by (induction ts arbitrary: mp) auto

lemma remove_all_dom:
  assumes "mp_invar B mp"
  shows "dom (hm_get (entries (remove_all ts mp))) = dom (hm_get (entries mp)) - set ts"
  using assms unfolding remove_all_def
proof (induction ts arbitrary: mp)
  case (Cons t ts)
  have "dom (hm_get (entries (snd (remove_tx t mp)))) = dom (hm_get (entries mp)) - {t}"
    using Cons.prems by (intro remove_tx_dom [of B]) (simp add: mp_invar_def)
  with Cons.IH [OF mp_invar_remove_tx [OF Cons.prems]] show ?case by auto
qed simp

lemma remove_all_spends:
  assumes "mp_invar B mp"
  shows "hm_get (spends (remove_all ts mp)) op =
    (case hm_get (spends mp) op of None \<Rightarrow> None | Some t \<Rightarrow> if t \<in> set ts then None else Some t)"
  using assms unfolding remove_all_def
proof (induction ts arbitrary: mp)
  case Nil
  then show ?case by (simp split: option.splits)
next
  case (Cons t ts)
  have "mp_spends_ok mp" using Cons.prems by (simp add: mp_invar_def)
  with Cons.IH [OF mp_invar_remove_tx [OF Cons.prems]] show ?case
    by (auto simp: remove_tx_spends split: option.splits)
qed

section \<open>Committing an entry\<close>

text \<open>The state in which \<open>add_tx\<close> commits: the id is new, every parent is present, no
  input is spent.\<close>

definition committable :: "tx_api \<Rightarrow> mempool_entry \<Rightarrow> mempool \<Rightarrow> bool" where
  "committable B e mp \<longleftrightarrow>
     hm_get (entries mp) (txid e) = None \<and> entry_ok B (txid e) e \<and> children e = [] \<and>
     set (parents e) \<subseteq> dom (hm_get (entries mp)) \<and>
     (\<forall>op \<in> set (prevouts (tx e)). hm_get (spends mp) op = None)"

lemma commit_entry_get:
  assumes "committable B e mp"
  shows "hm_get (entries (commit_entry now e mp)) k =
    (if k = txid e then Some e
     else if k \<in> set (parents e) then map_option (attach_parent e) (hm_get (entries mp) k)
     else hm_get (entries mp) k)"
  using assms by (simp add: commit_entry_def hm_simps committable_def entry_ok_def)

lemma commit_entry_parents_of:
  assumes "committable B e mp"
  shows "parents_of (commit_entry now e mp) c = (if c = txid e then set (parents e) else parents_of mp c)"
  by (auto simp: parents_of_def commit_entry_get [OF assms] split: option.splits)

lemma commit_entry_children_of:
  assumes "committable B e mp"
  shows "children_of (commit_entry now e mp) p =
    (if p = txid e then {} else if p \<in> set (parents e) then insert (txid e) (children_of mp p)
     else children_of mp p)"
  using assms
  by (auto simp: children_of_def commit_entry_get [OF assms] committable_def split: option.splits)

lemma commit_entry_spent_by:
  assumes "committable B e mp"
  shows "spent_by (commit_entry now e mp) t = (if t = txid e then set (prevouts (tx e)) else spent_by mp t)"
  by (auto simp: spent_by_def commit_entry_get [OF assms] split: option.splits)

lemma acyclic_add_sink:
  assumes "acyclic r" and "finite P" and "x \<notin> P" and "\<And>y. (x, y) \<notin> r"
  shows "acyclic (r \<union> P \<times> {x})"
  using assms(2,3)
proof (induction P)
  case empty
  then show ?case using assms(1) by simp
next
  case (insert p P)
  have "(x, p) \<notin> (r \<union> P \<times> {x})\<^sup>*"
    using insert.prems assms(4) by (auto elim: converse_rtranclE)
  moreover have "r \<union> insert p P \<times> {x} = insert (p, x) (r \<union> P \<times> {x})" by auto
  ultimately show ?case using insert by (simp add: acyclic_insert)
qed

lemma commit_entry_edges:
  assumes "committable B e mp" and "mp_links_ok mp"
  shows "edges_of (commit_entry now e mp) = edges_of mp \<union> set (parents e) \<times> {txid e}"
proof -
  have "parents_of mp (txid e) = {}" using assms(1) by (simp add: committable_def parents_of_def)
  then show ?thesis by (auto simp: edges_of_def commit_entry_parents_of [OF assms(1)])
qed

lemma commit_entry_links_ok:
  assumes "committable B e mp" and "mp_links_ok mp"
  shows "mp_links_ok (commit_entry now e mp)"
proof -
  have new: "hm_get (entries mp) (txid e) = None" using assms(1) by (simp add: committable_def)
  then have ch: "children_of mp (txid e) = {}" and pa: "parents_of mp (txid e) = {}"
    by (simp_all add: children_of_def parents_of_def)
  have sink: "(txid e, y) \<notin> edges_of mp" for y
    using assms(2) ch by (simp add: edges_of_def mp_links_ok_def)
  have self: "txid e \<notin> set (parents e)"
    using assms(1) new by (auto simp: committable_def)
  have "acyclic (edges_of (commit_entry now e mp))"
    unfolding commit_entry_edges [OF assms]
    using assms(2) self sink by (intro acyclic_add_sink) (auto simp: mp_links_ok_def)
  moreover have "p \<in> parents_of (commit_entry now e mp) c \<longleftrightarrow> c \<in> children_of (commit_entry now e mp) p" for p c
    using assms(2) ch pa self
    unfolding mp_links_ok_def commit_entry_parents_of [OF assms(1)] commit_entry_children_of [OF assms(1)]
    by (auto split: if_splits)
  ultimately show ?thesis by (simp add: mp_links_ok_def)
qed

lemma commit_entry_spends:
  "hm_get (spends (commit_entry now e mp)) op =
    (if op \<in> set (prevouts (tx e)) then Some (txid e) else hm_get (spends mp) op)"
  by (simp add: commit_entry_def hm_simps)

lemma commit_entry_spends_ok:
  assumes "committable B e mp" and "mp_spends_ok mp"
  shows "mp_spends_ok (commit_entry now e mp)"
proof -
  have fresh: "spent_by mp (txid e) = {}" using assms(1) by (simp add: committable_def spent_by_def)
  have unspent: "op \<notin> spent_by mp u" if "op \<in> set (prevouts (tx e))" for op u
    using assms that unfolding committable_def mp_spends_ok_def by (metis option.distinct(1))
  show ?thesis
    using assms(2) fresh unspent
    by (auto simp: mp_spends_ok_def commit_entry_spends commit_entry_spent_by [OF assms(1)])
qed

lemma mp_invar_commit_entry:
  assumes "committable B e mp" and "mp_invar B mp"
  shows "mp_invar B (commit_entry now e mp)"
proof -
  from assms(2) have ok: "mp_entries_ok B mp" "mp_links_ok mp" "mp_spends_ok mp" "mp_totals_ok mp"
    "fe_invar (fee_est mp)" by (simp_all add: mp_invar_def)
  have "hm_wf (entries (commit_entry now e mp))" "hm_wf (spends (commit_entry now e mp))"
    using ok(1) by (auto simp: mp_entries_ok_def commit_entry_def
        intro!: hm_wf_insert hm.wf_fold_modify hm.wf_fold_insert)
  moreover have "entry_ok B k x" if "hm_get (entries (commit_entry now e mp)) k = Some x" for k x
    using that ok(1) assms(1)
    by (auto simp: commit_entry_get [OF assms(1)] committable_def mp_entries_ok_def entry_ok_def
        split: if_splits)
  ultimately have "mp_entries_ok B (commit_entry now e mp)" by (simp add: mp_entries_ok_def)
  moreover have "hm_get (fold (\<lambda>p. hm_modify p (attach_parent e)) (parents e) (entries mp)) (txid e) = None"
    using assms(1) by (simp add: hm_simps committable_def entry_ok_def)
  then have "mp_totals_ok (commit_entry now e mp)"
    using ok(4) by (simp add: mp_totals_ok_def commit_entry_def hm_sum_insert_fresh hm_sum_fold_modify)
  moreover have "fe_invar (fee_est (commit_entry now e mp))"
    using ok(5) by (simp add: commit_entry_def fe_invar_add_tx)
  ultimately show ?thesis
    using commit_entry_links_ok [OF assms(1) ok(2)] commit_entry_spends_ok [OF assms(1) ok(3)]
    by (simp add: mp_invar_def)
qed

lemma abs_commit_entry:
  assumes "committable B e mp" and "mp_invar B mp"
  shows "abs_graph (commit_entry now e mp) =
    graph_add (txid e) (set (parents e)) (set (prevouts (tx e))) (abs_graph mp)"
proof -
  have "mp_links_ok mp" using assms(2) by (simp add: mp_invar_def)
  moreover have "dom (hm_get (entries (commit_entry now e mp))) = insert (txid e) (dom (hm_get (entries mp)))"
    by (auto simp: dom_def commit_entry_get [OF assms(1)])
  ultimately show ?thesis
    by (simp add: abs_graph_def graph_add_def commit_entry_edges [OF assms(1)] fun_eq_iff commit_entry_spends)
qed

end
