(* ===== verification/Mempool_Admission.thy ===== *)
theory Mempool_Admission
  imports Mempool_Graph
begin

text \<open>
  The behaviour of the operations that change the mempool: eviction, expiry,
  replacement and admission, on every branch.
\<close>

section \<open>Eviction\<close>

lemma remove_all_Nil [simp]: "remove_all [] mp = mp"
  by (simp add: remove_all_def)

lemma remove_all_get_None:
  "mp_invar B mp \<Longrightarrow> hm_get (entries (remove_all ts mp)) k = None \<longleftrightarrow> k \<in> set ts \<or> hm_get (entries mp) k = None"
  using remove_all_dom [of B mp ts] by (metis Diff_iff domIff)

lemma evict_loop_prefix: "\<exists>n. evict_loop c ev es mp = remove_all (map txid (take n es)) mp"
proof (induction c ev es mp rule: evict_loop.induct)
  case (1 c ev mp)
  then show ?case by (simp add: remove_all_def)
next
  case (2 c ev e es mp)
  show ?case
  proof (cases "c - ev \<le> max_size (policy mp)")
    case True
    then show ?thesis by (auto intro: exI [of _ 0] simp: remove_all_def)
  next
    case False
    obtain r mp' where rm: "remove_tx (txid e) mp = (r, mp')" by fastforce
    have "\<exists>n. evict_loop c ev (e # es) mp = remove_all (map txid (take n es)) mp'"
      using 2 False rm by (cases r) auto
    then obtain n where "evict_loop c ev (e # es) mp = remove_all (map txid (take n es)) mp'" ..
    then have "evict_loop c ev (e # es) mp = remove_all (map txid (take (Suc n) (e # es))) mp"
      by (simp add: remove_all_def rm)
    then show ?thesis by blast
  qed
qed

lemma mp_invar_evict_loop: "mp_invar B mp \<Longrightarrow> mp_invar B (evict_loop c ev es mp)"
  by (metis evict_loop_prefix mp_invar_remove_all)

lemma maybe_evict_prefix:
  "\<exists>n. maybe_evict ord mp = remove_all (map txid (take n (sort_key fee_rate (ord (hm_values (entries mp)))))) mp"
proof (cases "total_size mp \<le> max_size (policy mp)")
  case True
  then show ?thesis by (auto intro: exI [of _ 0] simp: maybe_evict_def remove_all_def)
next
  case False
  with evict_loop_prefix show ?thesis by (simp add: maybe_evict_def)
qed

lemma mp_invar_maybe_evict [invar_intros]: "mp_invar B mp \<Longrightarrow> mp_invar B (maybe_evict ord mp)"
  by (metis maybe_evict_prefix mp_invar_remove_all)

lemma maybe_evict_frame [simp]:
  "policy (maybe_evict ord mp) = policy mp" "fee_est (maybe_evict ord mp) = fee_est mp"
  "kernel (maybe_evict ord mp) = kernel mp" "current_height (maybe_evict ord mp) = current_height mp"
  using maybe_evict_prefix [of ord mp] by auto

text \<open>The candidates of an eviction: entries still present, unchanged in size and rate.\<close>

definition evictable :: "mempool_entry list \<Rightarrow> mempool \<Rightarrow> bool" where
  "evictable es mp \<longleftrightarrow> distinct (map txid es) \<and> txid ` set es = dom (hm_get (entries mp)) \<and>
     (\<forall>e \<in> set es. \<exists>x. hm_get (entries mp) (txid e) = Some x \<and> vsize x = vsize e)"

lemma evictable_remove:
  assumes "mp_invar B mp" and "evictable (e # es) mp"
  shows "evictable es (snd (remove_tx (txid e) mp))"
    and "total_size (snd (remove_tx (txid e) mp)) = total_size mp - vsize e"
    and "\<exists>x. fst (remove_tx (txid e) mp) = Inr x"
proof -
  from assms(2) obtain x where x: "hm_get (entries mp) (txid e) = Some x" "vsize x = vsize e"
    by (auto simp: evictable_def)
  have ok: "mp_entries_ok B mp" using assms(1) by (simp add: mp_invar_def)
  note get = remove_tx_get [OF ok x(1)] and dom = remove_tx_dom [OF ok, of "txid e"]
  show "evictable es (snd (remove_tx (txid e) mp))"
    using assms(2) unfolding evictable_def dom
    by (auto simp: get image_iff)
  show "total_size (snd (remove_tx (txid e) mp)) = total_size mp - vsize e"
    "\<exists>x. fst (remove_tx (txid e) mp) = Inr x"
    using x by (simp_all add: remove_tx_def Let_def)
qed

lemma evict_loop_bound:
  assumes "mp_invar B mp" and "evictable es mp" and "c - ev = total_size mp"
  shows "total_size (evict_loop c ev es mp) \<le> max_size (policy mp)"
  using assms
proof (induction c ev es mp rule: evict_loop.induct)
  case (1 c ev mp)
  then have "entries mp = []" by (simp add: evictable_def dom_map_of_conv_image_fst)
  with 1 show ?case by (simp add: mp_invar_defs)
next
  case (2 c ev e es mp)
  show ?case
  proof (cases "c - ev \<le> max_size (policy mp)")
    case True
    with 2 show ?thesis by simp
  next
    case False
    note rm = evictable_remove [OF 2(3,4)]
    obtain x mp' where x: "remove_tx (txid e) mp = (Inr x, mp')"
      using rm(3) by (cases "remove_tx (txid e) mp") auto
    have mp': "mp' = snd (remove_tx (txid e) mp)" using x by simp
    have "total_size (evict_loop c (ev + vsize e) es mp') \<le> max_size (policy mp')"
    proof (rule 2(2) [OF False x [symmetric] refl])
      show "mp_invar B mp'" using 2(3) mp' by (simp add: mp_invar_remove_tx)
      show "evictable es mp'" using rm(1) mp' by simp
      show "c - (ev + vsize e) = total_size mp'" using rm(2) 2(5) mp' by (simp add: algebra_simps)
    qed
    moreover have "policy mp' = policy mp" using mp' by simp
    ultimately show ?thesis using False x by simp
  qed
qed

lemma hm_values_entries_evictable:
  assumes "mp_invar B mp" and "iteration_order ord"
  shows "evictable (sort_key fee_rate (ord (hm_values (entries mp)))) mp"
proof -
  have wf: "hm_wf (entries mp)" and ids: "\<And>t e. hm_get (entries mp) t = Some e \<Longrightarrow> txid e = t"
    using assms(1) by (auto simp: mp_invar_defs entry_ok_def)
  have set: "set (sort_key fee_rate (ord (hm_values (entries mp)))) = set (hm_values (entries mp))"
    using assms(2) by (simp add: iteration_orderD)
  have vals: "e \<in> set (hm_values (entries mp)) \<longleftrightarrow> hm_get (entries mp) (txid e) = Some e" for e
    using hm_values_iff [OF wf] ids by blast
  have keys: "map txid (hm_values (entries mp)) = map fst (entries mp)"
    using ids hm_get_in_set [OF wf] by (auto simp: hm_values_def)
  then have d: "distinct (map txid (hm_values (entries mp)))" using wf by (simp add: hm_wf_def)
  then have dv: "distinct (hm_values (entries mp))" and inj: "inj_on txid (set (hm_values (entries mp)))"
    by (simp_all add: distinct_map)
  have "distinct (sort_key fee_rate (ord (hm_values (entries mp))))"
    using dv assms(2) by (simp add: iteration_orderD)
  with inj have "distinct (map txid (sort_key fee_rate (ord (hm_values (entries mp)))))"
    by (simp add: distinct_map set del: set_sort)
  moreover have "txid ` set (hm_values (entries mp)) = dom (hm_get (entries mp))"
    by (metis dom_map_of_conv_image_fst keys list.set_map)
  ultimately show ?thesis using vals unfolding evictable_def set by auto
qed

lemma maybe_evict_bound:
  assumes "mp_invar B mp" and "iteration_order ord"
  shows "total_size (maybe_evict ord mp) \<le> max_size (policy mp)"
  using evict_loop_bound [OF assms(1) hm_values_entries_evictable [OF assms], of "total_size mp" 0]
  by (simp add: maybe_evict_def Let_def)

lemma maybe_evict_lowest_first:
  assumes inv: "mp_invar B mp" and ord: "iteration_order ord"
    and out: "hm_get (entries mp) t = Some e" "hm_get (entries (maybe_evict ord mp)) t = None"
    and kept: "hm_get (entries mp) u = Some x" "hm_get (entries (maybe_evict ord mp)) u \<noteq> None"
  shows "fee_rate e \<le> fee_rate x"
proof -
  let ?es = "sort_key fee_rate (ord (hm_values (entries mp)))"
  obtain n where n: "maybe_evict ord mp = remove_all (map txid (take n ?es)) mp"
    using maybe_evict_prefix by blast
  have wf: "hm_wf (entries mp)" and ids: "\<And>t e. hm_get (entries mp) t = Some e \<Longrightarrow> txid e = t"
    using inv by (auto simp: mp_invar_defs entry_ok_def)
  have mem: "y \<in> set ?es" if "hm_get (entries mp) k = Some y" for k y
    using that ord hm_values_iff [OF wf] by (auto simp: iteration_orderD)
  have "t \<in> set (map txid (take n ?es))"
    using out remove_all_get_None [OF inv, of "map txid (take n ?es)" t] n by simp
  then obtain e' where e': "e' \<in> set (take n ?es)" "txid e' = t" by auto
  then have "hm_get (entries mp) (txid e') = Some e'"
    using hm_values_iff [OF wf] ids ord by (metis in_set_takeD iteration_orderD(1) set_sort)
  with e' out(1) have e: "e \<in> set (take n ?es)" by simp
  have "u \<notin> set (map txid (take n ?es))"
    using kept remove_all_get_None [OF inv, of "map txid (take n ?es)" u] n by simp
  then have "x \<notin> set (take n ?es)" using ids [OF kept(1)] by auto
  with mem [OF kept(1)] have "x \<in> set (drop n ?es)"
    by (metis Un_iff append_take_drop_id set_append)
  moreover have "sorted (map fee_rate (take n ?es @ drop n ?es))" by (simp only: append_take_drop_id sorted_sort_key)
  ultimately show ?thesis using e unfolding map_append sorted_append by auto
qed

section \<open>Expiry\<close>

lemma remove_counting_state: "snd (remove_counting ts n mp) = remove_all ts mp"
  by (induction ts n mp rule: remove_counting.induct)
    (auto simp: remove_all_def split: prod.splits sum.splits)

lemma mp_invar_remove_expired [invar_intros]:
  "mp_invar B mp \<Longrightarrow> mp_invar B (snd (remove_expired ord now mp))"
  by (simp add: remove_expired_def Let_def remove_counting_state mp_invar_remove_all)

lemma mp_invar_update_height [invar_intros]: "mp_invar B mp \<Longrightarrow> mp_invar B (update_height ord now h mp)"
  unfolding update_height_def
  by (rule mp_invar_remove_expired, rule mp_invar_frame) (auto simp: mp_invar_def fe_invar_update_height)

lemma remove_expired_keys:
  assumes inv: "mp_invar B mp" and ord: "iteration_order ord"
  shows "dom (hm_get (entries (snd (remove_expired ord now mp)))) =
    {t. \<exists>e. hm_get (entries mp) t = Some e \<and> \<not> is_expired now (expiry (policy mp)) e}"
proof -
  have wf: "hm_wf (entries mp)" and ids: "\<And>t e. hm_get (entries mp) t = Some e \<Longrightarrow> txid e = t"
    using inv by (auto simp: mp_invar_defs entry_ok_def)
  have "set (ord (hm_values (entries mp))) = {e. \<exists>t. hm_get (entries mp) t = Some e}"
    using ord hm_values_iff [OF wf] by (auto simp: iteration_orderD)
  then have exp: "set (map txid (filter (is_expired now (expiry (policy mp))) (ord (hm_values (entries mp)))))
      = {t. \<exists>e. hm_get (entries mp) t = Some e \<and> is_expired now (expiry (policy mp)) e}" (is "?X = _")
    using ids by force
  have "dom (hm_get (entries (snd (remove_expired ord now mp)))) = dom (hm_get (entries mp)) - ?X"
    by (simp add: remove_expired_def Let_def remove_counting_state remove_all_dom [OF inv])
  then show ?thesis unfolding exp by (auto simp: dom_def)
qed

section \<open>Conflicts and parents\<close>

lemma set_find_conflicts:
  "set (find_conflicts t mp) = {u. \<exists>op \<in> set (prevouts t). hm_get (spends mp) op = Some u}"
  by (force simp: find_conflicts_def prevouts_def map_filter_def)

lemma find_parents_distinct: "distinct (find_parents t mp)"
  and set_find_parents: "set (find_parents t mp) = {op_txid op |op. op \<in> set (prevouts t)} \<inter> dom (hm_get (entries mp))"
proof -
  let ?step = "\<lambda>i ps. if hm_contains (entries mp) (op_txid (previous_output i))
                  then hs_insert (op_txid (previous_output i)) ps else ps"
  have "distinct ps \<Longrightarrow> distinct (fold ?step is ps) \<and>
    set (fold ?step is ps) = set ps \<union> ((op_txid \<circ> previous_output) ` set is \<inter> dom (hm_get (entries mp)))"
    for "is" ps
    by (induction "is" arbitrary: ps) (auto simp: hm_contains_def)
  from this [of "[]" "tx_input t"] show "distinct (find_parents t mp)"
    and "set (find_parents t mp) = {op_txid op |op. op \<in> set (prevouts t)} \<inter> dom (hm_get (entries mp))"
    by (auto simp: find_parents_def prevouts_def)
qed

lemma conflicts_cleared:
  assumes "mp_invar B mp" and "op \<in> set (prevouts t)"
  shows "hm_get (spends (remove_all (find_conflicts t mp) mp)) op = None"
  using assms by (auto simp: remove_all_spends [OF assms(1)] set_find_conflicts split: option.splits)

section \<open>Admission\<close>

definition new_entry_of ::
  "tx_api \<Rightarrow> instant \<Rightarrow> transaction \<Rightarrow> u64 \<Rightarrow> u32 \<Rightarrow> mempool \<Rightarrow> mempool_entry" where
  "new_entry_of B now t f h mp =
     (let entry = mempool_entry_new B now t f h; ps = find_parents t mp;
          (acount, asize, afees) = calculate_ancestors ps mp
      in entry\<lparr>parents := ps, ancestor_count := acount + 1, ancestor_size := asize + vsize entry,
               ancestor_fees := afees + fee entry\<rparr>)"

lemma new_entry_of_sel [simp]:
  "tx (new_entry_of B now t f h mp) = t" "txid (new_entry_of B now t f h mp) = compute_txid B t"
  "vsize (new_entry_of B now t f h mp) = tx_vsize B t" "fee (new_entry_of B now t f h mp) = f"
  "fee_rate (new_entry_of B now t f h mp) = from_sat_per_vb (f div max (tx_vsize B t) 1)"
  "parents (new_entry_of B now t f h mp) = find_parents t mp"
  "children (new_entry_of B now t f h mp) = []"
  by (simp_all add: new_entry_of_def Let_def split: prod.splits)

text \<open>Replacement either refuses and changes nothing, or removes every conflict.\<close>

lemma handle_replacement_cases:
  "handle_replacement e cs mp = (r, mp1) \<Longrightarrow>
     (case r of Inl _ \<Rightarrow> mp1 = mp | Inr _ \<Rightarrow> mp1 = remove_all cs mp)"
  by (auto simp: handle_replacement_def Let_def split: sum.splits)

text \<open>The checks that precede the commit, as one result.\<close>

definition admission_checks ::
  "tx_api \<Rightarrow> instant \<Rightarrow> transaction \<Rightarrow> u64 \<Rightarrow> u32 \<Rightarrow> mempool \<Rightarrow> (mempool_error + unit) \<times> mempool" where
  "admission_checks B now t f h mp =
     (let entry = mempool_entry_new B now t f h; conflicts = find_conflicts t mp in
      if hm_contains (entries mp) (compute_txid B t) then (Inl AlreadyInMempool, mp)
      else case kernel_gate B t mp of
        Inl e \<Rightarrow> (Inl e, mp)
      | Inr _ \<Rightarrow>
          if \<not> is_size_acceptable (policy mp) (tx_vsize B t) then (Inl TransactionTooLarge, mp)
          else if \<not> is_fee_acceptable (policy mp) (fee_rate entry)
            then (Inl (FeeRateTooLow (as_sat_per_vb (fee_rate entry))
                         (as_sat_per_vb (min_relay_fee (policy mp)))), mp)
          else if conflicts \<noteq> [] \<and> \<not> signals_replacement entry then (Inl ConflictsWithMempool, mp)
          else if conflicts \<noteq> [] then handle_replacement entry conflicts mp else (Inr (), mp))"

lemma add_tx_eq:
  "add_tx B ord now t f h mp =
     (case admission_checks B now t f h mp of
        (Inl e, mp1) \<Rightarrow> (Inl e, mp1)
      | (Inr _, mp1) \<Rightarrow>
          let e = new_entry_of B now t f h mp1 in
          (case check_ancestor_limits (policy mp1) (ancestor_count e) (ancestor_size e) of
             Inl err \<Rightarrow> (Inl (PolicyError err), mp1)
           | Inr _ \<Rightarrow> (Inr (compute_txid B t), maybe_evict ord (commit_entry now e mp1))))"
  by (auto simp: add_tx_def admission_checks_def new_entry_of_def Let_def
      split: sum.splits prod.splits)

lemma admission_checks_cases:
  assumes "admission_checks B now t f h mp = (r, mp1)"
  shows "case r of Inl _ \<Rightarrow> mp1 = mp | Inr _ \<Rightarrow>
    mp1 = remove_all (find_conflicts t mp) mp \<and> hm_get (entries mp) (compute_txid B t) = None \<and>
    kernel_gate B t mp = Inr () \<and> tx_vsize B t \<le> max_tx_size (policy mp) \<and>
    min_relay_fee (policy mp) \<le> from_sat_per_vb (f div max (tx_vsize B t) 1) \<and>
    (find_conflicts t mp \<noteq> [] \<longrightarrow>
      handle_replacement (mempool_entry_new B now t f h) (find_conflicts t mp) mp = (Inr (), mp1))"
  using assms handle_replacement_cases [of "mempool_entry_new B now t f h" "find_conflicts t mp" mp]
  by (auto simp: admission_checks_def Let_def hm_contains_def is_size_acceptable_def
      is_fee_acceptable_def split: if_splits sum.splits)

lemma committable_new_entry:
  assumes inv: "mp_invar B mp" and mp1: "mp1 = remove_all (find_conflicts t mp) mp"
    and fresh: "hm_get (entries mp) (compute_txid B t) = None"
  shows "committable B (new_entry_of B now t f h mp1) mp1"
proof -
  have "hm_get (entries mp1) (compute_txid B t) = None"
    using remove_all_get_None [OF inv] fresh by (simp add: mp1)
  moreover have "hm_get (spends mp1) op = None" if "op \<in> set (prevouts t)" for op
    using conflicts_cleared [OF inv that] by (simp add: mp1)
  ultimately show ?thesis
    by (auto simp: committable_def entry_ok_def find_parents_distinct set_find_parents)
qed

lemma add_tx_Inr:
  assumes inv: "mp_invar B mp" and ok: "add_tx B ord now t f h mp = (Inr i, mp')"
  obtains mp1 e where "mp1 = remove_all (find_conflicts t mp) mp" "e = new_entry_of B now t f h mp1"
    "committable B e mp1" "mp_invar B mp1" "mp' = maybe_evict ord (commit_entry now e mp1)"
    "i = compute_txid B t" "admission_checks B now t f h mp = (Inr (), mp1)"
    "check_ancestor_limits (policy mp) (ancestor_count e) (ancestor_size e) = Inr ()"
proof -
  obtain r mp1 where ac: "admission_checks B now t f h mp = (r, mp1)" by fastforce
  let ?e = "new_entry_of B now t f h mp1"
  from ok ac have r: "r = Inr ()" by (auto simp: add_tx_eq split: sum.splits)
  from admission_checks_cases [OF ac] r have mp1: "mp1 = remove_all (find_conflicts t mp) mp"
    and fresh: "hm_get (entries mp) (compute_txid B t) = None" by simp_all
  have pol: "policy mp1 = policy mp" by (simp add: mp1)
  show ?thesis
  proof (rule that)
    show "committable B ?e mp1" by (rule committable_new_entry [OF inv mp1 fresh])
    show "mp_invar B mp1" by (simp add: mp1 inv mp_invar_remove_all)
    show "mp' = maybe_evict ord (commit_entry now ?e mp1)" "i = compute_txid B t"
      "check_ancestor_limits (policy mp) (ancestor_count ?e) (ancestor_size ?e) = Inr ()"
      using ok ac r pol by (auto simp: add_tx_eq Let_def split: sum.splits)
    show "admission_checks B now t f h mp = (Inr (), mp1)" using ac r by simp
  qed (simp_all add: mp1)
qed

lemma add_tx_Inl:
  assumes "add_tx B ord now t f h mp = (Inl err, mp')"
  shows "mp' = mp \<or> mp' = remove_all (find_conflicts t mp) mp \<and> (\<exists>p. err = PolicyError p)"
proof -
  obtain r mp1 where ac: "admission_checks B now t f h mp = (r, mp1)" by fastforce
  with admission_checks_cases [OF ac] assms show ?thesis
    by (auto simp: add_tx_eq Let_def split: sum.splits)
qed

lemma mp_invar_add_tx [invar_intros]:
  assumes "mp_invar B mp"
  shows "mp_invar B (snd (add_tx B ord now t f h mp))"
proof (cases "add_tx B ord now t f h mp")
  case (Pair r mp')
  show ?thesis
  proof (cases r)
    case (Inl err)
    with Pair add_tx_Inl [of B ord now t f h mp err mp'] assms show ?thesis
      by (auto simp: mp_invar_remove_all)
  next
    case (Inr i)
    with Pair have "add_tx B ord now t f h mp = (Inr i, mp')" by simp
    from add_tx_Inr [OF assms this] show ?thesis
      by (metis Pair mp_invar_commit_entry mp_invar_maybe_evict snd_conv)
  qed
qed

end
