(* ===== verification/Block_Template.thy ===== *)
theory Block_Template
  imports Mempool_Admission
begin

text \<open>
  Block templates of \<^verbatim>\<open>src/mempool/txmempool.rs\<close>: the ancestor search and the
  greedy selection by ancestor fee rate.  \<open>pord\<close> is the iteration order of a
  parent set, \<open>ord\<close> that of the entry table.  The worklist of the search is a
  stack, its top first.
\<close>

section \<open>The ancestor search\<close>

function ancestors_loop ::
  "(txid list \<Rightarrow> txid list) \<Rightarrow> mempool \<Rightarrow> txid list \<Rightarrow> txid hset \<Rightarrow> txid list \<Rightarrow> txid list" where
  "ancestors_loop pord mp [] visited ancestors = ancestors"
| "ancestors_loop pord mp (current # to_visit) visited ancestors =
     (if current \<in> set visited then ancestors_loop pord mp to_visit visited ancestors
      else
        let visited' = hs_insert current visited in
        (case hm_get (entries mp) current of
           None \<Rightarrow> ancestors_loop pord mp to_visit visited' ancestors
         | Some entry \<Rightarrow>
             let new = filter (\<lambda>p. p \<notin> set visited') (pord (parents entry))
             in ancestors_loop pord mp (rev new @ to_visit) visited' (ancestors @ new)))"
  by pat_completeness auto
termination
proof (relation "measures [\<lambda>(pord, mp, to_visit, visited, ancestors).
      card (dom (hm_get (entries mp)) - set visited), \<lambda>(pord, mp, to_visit, visited, ancestors). length to_visit]",
    goal_cases)
  case (3 pord mp current to_visit visited ancestors x)
  then have "dom (hm_get (entries mp)) - insert current (set visited) = dom (hm_get (entries mp)) - set visited"
    by auto
  with 3 show ?case by simp
next
  case (4 pord mp current to_visit visited ancestors x x2 xa)
  then have "current \<in> dom (hm_get (entries mp)) - set visited" by auto
  then have "card (dom (hm_get (entries mp)) - insert current (set visited)) < card (dom (hm_get (entries mp)) - set visited)"
    by (intro psubset_card_mono) (auto simp: finite_dom_map_of)
  with 4 show ?case by simp
qed auto

definition get_ancestors :: "(txid list \<Rightarrow> txid list) \<Rightarrow> txid \<Rightarrow> mempool \<Rightarrow> txid list" where
  "get_ancestors pord t mp = ancestors_loop pord mp [t] [] []"

section \<open>The template\<close>

definition entry_weight :: "tx_api \<Rightarrow> mempool_entry \<Rightarrow> usize" where
  "entry_weight B e = tx_weight B (tx e)"

definition can_include :: "tx_api \<Rightarrow> mempool \<Rightarrow> txid hset \<Rightarrow> usize \<Rightarrow> usize \<Rightarrow> txid list \<Rightarrow> bool" where
  "can_include B mp included current_weight max_weight ancestors \<longleftrightarrow>
     list_all (\<lambda>a. a \<notin> set included \<longrightarrow>
       (case hm_get (entries mp) a of
          None \<Rightarrow> True
        | Some ae \<Rightarrow> \<not> (current_weight + entry_weight B ae > max_weight))) ancestors"

type_synonym template_state = "transaction list \<times> txid hset \<times> usize"

fun include_ancestors :: "tx_api \<Rightarrow> mempool \<Rightarrow> txid list \<Rightarrow> template_state \<Rightarrow> template_state" where
  "include_ancestors B mp [] st = st"
| "include_ancestors B mp (a # as) (template, included, current_weight) =
     (if a \<in> set included then include_ancestors B mp as (template, included, current_weight)
      else case hm_get (entries mp) a of
             None \<Rightarrow> include_ancestors B mp as (template, included, current_weight)
           | Some ae \<Rightarrow> include_ancestors B mp as
               (template @ [tx ae], hs_insert a included, current_weight + entry_weight B ae))"

definition template_step ::
  "tx_api \<Rightarrow> (txid list \<Rightarrow> txid list) \<Rightarrow> usize \<Rightarrow> mempool \<Rightarrow> mempool_entry \<Rightarrow> template_state \<Rightarrow> template_state" where
  "template_step B pord max_weight mp entry st =
     (case st of (template, included, current_weight) \<Rightarrow>
        if txid entry \<in> set included then st
        else
          let w = entry_weight B entry in
          if current_weight + w > max_weight then st
          else
            let ancestors = get_ancestors pord (txid entry) mp in
            if \<not> can_include B mp included current_weight max_weight ancestors then st
            else
              let (template', included', current_weight') = include_ancestors B mp ancestors st
              in (template' @ [tx entry], hs_insert (txid entry) included', current_weight' + w))"

definition get_block_template ::
  "tx_api \<Rightarrow> (mempool_entry list \<Rightarrow> mempool_entry list) \<Rightarrow> (txid list \<Rightarrow> txid list) \<Rightarrow> usize \<Rightarrow>
   mempool \<Rightarrow> transaction list" where
  "get_block_template B ord pord max_weight mp =
     (let es = sort_key (\<lambda>e. - uint (as_sat_per_vb (ancestor_fee_rate e))) (ord (hm_values (entries mp)))
      in fst (fold (template_step B pord max_weight mp) es ([], [], 0)))"

section \<open>The search finds exactly the ancestors\<close>

definition ancestors_of :: "mempool \<Rightarrow> txid \<Rightarrow> txid set" where
  "ancestors_of mp t = {a. (a, t) \<in> (edges_of mp)\<^sup>+}"

lemma ancestors_of_parent: "p \<in> parents_of mp v \<Longrightarrow> v = t \<or> v \<in> ancestors_of mp t \<Longrightarrow> p \<in> ancestors_of mp t"
  by (auto simp: ancestors_of_def edges_of_def intro: trancl_into_trancl2)

definition search_state :: "mempool \<Rightarrow> txid \<Rightarrow> txid list \<Rightarrow> txid list \<Rightarrow> txid list \<Rightarrow> bool" where
  "search_state mp t to_visit visited ancestors \<longleftrightarrow>
     set visited \<union> set to_visit = insert t (set ancestors) \<and>
     set ancestors \<subseteq> ancestors_of mp t \<and>
     (\<forall>v \<in> set visited. parents_of mp v \<subseteq> set visited \<union> set to_visit)"

lemma ancestors_loop_sound:
  assumes "iteration_order pord" and "search_state mp t to_visit visited ancestors"
  shows "search_state mp t [] (t # ancestors_loop pord mp to_visit visited ancestors)
           (ancestors_loop pord mp to_visit visited ancestors)"
  using assms
proof (induction pord mp to_visit visited ancestors rule: ancestors_loop.induct)
  case (1 pord mp visited ancestors)
  then show ?case by (auto simp: search_state_def)
next
  case (2 pord mp current to_visit visited ancestors)
  show ?case
  proof (cases "current \<in> set visited")
    case True
    then have "search_state mp t to_visit visited ancestors"
      using "2.prems"(2) by (auto simp: search_state_def)
    with 2 True show ?thesis by simp
  next
    case False
    show ?thesis
    proof (cases "hm_get (entries mp) current")
      case None
      have "search_state mp t to_visit (hs_insert current visited) ancestors"
        using "2.prems" None by (auto simp: search_state_def parents_of_def)
      with 2 False None show ?thesis by simp
    next
      case (Some entry)
      let ?vis = "hs_insert current visited"
      let ?new = "filter (\<lambda>p. p \<notin> set ?vis) (pord (parents entry))"
      have ps: "set (pord (parents entry)) = parents_of mp current"
        using "2.prems"(1) Some by (simp add: parents_of_def iteration_orderD)
      have "current = t \<or> current \<in> ancestors_of mp t"
        using "2.prems"(2) by (auto simp: search_state_def)
      then have "parents_of mp current \<subseteq> ancestors_of mp t" by (auto intro: ancestors_of_parent)
      then have "search_state mp t (rev ?new @ to_visit) ?vis (ancestors @ ?new)"
        using "2.prems"(2) ps by (auto simp: search_state_def)
      with 2 False Some show ?thesis by (simp add: Let_def)
    qed
  qed
qed

lemma closed_contains_ancestors:
  assumes "\<And>v. v \<in> S \<Longrightarrow> parents_of mp v \<subseteq> S" and "t \<in> S"
  shows "ancestors_of mp t \<subseteq> S"
proof
  fix a assume "a \<in> ancestors_of mp t"
  then have "(a, t) \<in> (edges_of mp)\<^sup>+" by (simp add: ancestors_of_def)
  then show "a \<in> S"
    using assms by (induction rule: converse_trancl_induct) (auto simp: edges_of_def)
qed

lemma set_get_ancestors:
  assumes "iteration_order pord" and "acyclic (edges_of mp)"
  shows "set (get_ancestors pord t mp) = ancestors_of mp t"
proof -
  have "search_state mp t [] (t # get_ancestors pord t mp) (get_ancestors pord t mp)"
    unfolding get_ancestors_def
    by (rule ancestors_loop_sound [OF assms(1)]) (simp add: search_state_def)
  then have "set (get_ancestors pord t mp) \<subseteq> ancestors_of mp t"
    and "ancestors_of mp t \<subseteq> insert t (set (get_ancestors pord t mp))"
    using closed_contains_ancestors [of "insert t (set (get_ancestors pord t mp))" mp t]
    by (auto simp: search_state_def)
  moreover have "t \<notin> ancestors_of mp t" using assms(2) by (simp add: ancestors_of_def acyclic_def)
  ultimately show ?thesis by blast
qed

section \<open>What a template contains\<close>

definition listed :: "tx_api \<Rightarrow> mempool \<Rightarrow> transaction list \<Rightarrow> txid hset \<Rightarrow> bool" where
  "listed B mp template included \<longleftrightarrow>
     distinct (map (compute_txid B) template) \<and> compute_txid B ` set template = set included \<and>
     (\<forall>t \<in> set template. \<exists>e. hm_get (entries mp) (compute_txid B t) = Some e \<and> tx e = t)"

lemma listed_snoc:
  assumes "mp_entries_ok B mp" and "listed B mp template included" and "t \<notin> set included"
    and "hm_get (entries mp) t = Some e"
  shows "listed B mp (template @ [tx e]) (hs_insert t included)"
  using assms by (auto simp: listed_def mp_entries_ok_def entry_ok_def)

lemma include_ancestors_listed:
  assumes "mp_entries_ok B mp" and "listed B mp template included"
    and "include_ancestors B mp as (template, included, w) = (template', included', w')"
  shows "listed B mp template' included' \<and>
    set included' = set included \<union> (set as \<inter> dom (hm_get (entries mp)))"
  using assms(2,3)
proof (induction as arbitrary: template included w)
  case Nil
  then show ?case by simp
next
  case (Cons a as)
  show ?case
  proof (cases "a \<in> set included \<or> hm_get (entries mp) a = None")
    case True
    with Cons show ?thesis by (fastforce split: if_splits option.splits)
  next
    case False
    then obtain e where e: "hm_get (entries mp) a = Some e" "a \<notin> set included" by auto
    from Cons.IH [OF listed_snoc [OF assms(1) Cons.prems(1) e(2,1)]] Cons.prems(2) e
    have "listed B mp template' included' \<and>
      set included' = set (hs_insert a included) \<union> (set as \<inter> dom (hm_get (entries mp)))"
      by simp
    with e show ?thesis by auto
  qed
qed

lemma ancestors_of_dom:
  assumes "mp_links_ok mp"
  shows "ancestors_of mp t \<subseteq> dom (hm_get (entries mp))"
proof
  fix a assume "a \<in> ancestors_of mp t"
  then obtain c where "(a, c) \<in> edges_of mp" by (auto simp: ancestors_of_def dest: tranclD)
  with assms have "c \<in> children_of mp a" by (simp add: edges_of_def mp_links_ok_def)
  then show "a \<in> dom (hm_get (entries mp))" by (auto simp: children_of_def split: option.splits)
qed

definition template_ok :: "tx_api \<Rightarrow> mempool \<Rightarrow> template_state \<Rightarrow> bool" where
  "template_ok B mp st \<longleftrightarrow>
     (case st of (template, included, w) \<Rightarrow>
        listed B mp template included \<and> (\<forall>t \<in> set included. ancestors_of mp t \<subseteq> set included))"

lemma template_step_ok:
  assumes inv: "mp_invar B mp" and pord: "iteration_order pord"
    and e: "hm_get (entries mp) (txid e) = Some e" and st: "template_ok B mp st"
  shows "template_ok B mp (template_step B pord max_weight mp e st)"
proof -
  obtain template included w where s: "st = (template, included, w)" by (cases st)
  let ?as = "get_ancestors pord (txid e) mp"
  obtain template' included' w' where inc: "include_ancestors B mp ?as st = (template', included', w')"
    by (cases "include_ancestors B mp ?as st")
  have ok: "mp_entries_ok B mp" "mp_links_ok mp" using inv by (simp_all add: mp_invar_def)
  have anc: "set ?as = ancestors_of mp (txid e)"
    using ok(2) by (intro set_get_ancestors [OF pord]) (simp add: mp_links_ok_def)
  have l: "listed B mp template included" "\<forall>t \<in> set included. ancestors_of mp t \<subseteq> set included"
    using st s by (simp_all add: template_ok_def)
  from include_ancestors_listed [OF ok(1) l(1)] inc s anc ancestors_of_dom [OF ok(2)]
  have l': "listed B mp template' included'" "set included' = set included \<union> ancestors_of mp (txid e)"
    by (simp_all add: Int_absorb2)
  have "txid e \<notin> ancestors_of mp (txid e)"
    using ok(2) by (simp add: ancestors_of_def mp_links_ok_def acyclic_def)
  then have "template_ok B mp (template' @ [tx e], hs_insert (txid e) included', w' + entry_weight B e)"
    if "txid e \<notin> set included"
    using that l'(2) l(2) listed_snoc [OF ok(1) l'(1) _ e]
    by (auto simp: template_ok_def ancestors_of_def intro: trancl_trans)
  with st s inc show ?thesis by (simp add: template_step_def Let_def)
qed

lemma block_template_ok:
  assumes inv: "mp_invar B mp" and ord: "iteration_order ord" "iteration_order pord"
  shows "\<exists>included w. template_ok B mp (get_block_template B ord pord max_weight mp, included, w)"
proof -
  have wf: "hm_wf (entries mp)" and ids: "\<And>t e. hm_get (entries mp) t = Some e \<Longrightarrow> txid e = t"
    using inv by (auto simp: mp_invar_defs entry_ok_def)
  have "template_ok B mp (fold (template_step B pord max_weight mp) es st)"
    if "template_ok B mp st" "\<forall>e \<in> set es. hm_get (entries mp) (txid e) = Some e" for es st
    using that by (induction es arbitrary: st) (simp_all add: template_step_ok [OF inv ord(2)])
  moreover have "template_ok B mp ([], [], 0)" by (simp add: template_ok_def listed_def)
  moreover have "\<forall>e \<in> set (sort_key (\<lambda>e. - uint (as_sat_per_vb (ancestor_fee_rate e))) (ord (hm_values (entries mp)))).
      hm_get (entries mp) (txid e) = Some e"
    using hm_values_iff [OF wf] ids ord(1) by (auto simp: iteration_orderD)
  ultimately have "template_ok B mp (fold (template_step B pord max_weight mp)
      (sort_key (\<lambda>e. - uint (as_sat_per_vb (ancestor_fee_rate e))) (ord (hm_values (entries mp)))) ([], [], 0))"
    by blast
  then show ?thesis unfolding get_block_template_def Let_def by (metis prod.collapse)
qed

end
