(* ===== verification/Mempool_Properties.thy ===== *)
theory Mempool_Properties
  imports Block_Template
begin

text \<open>
  The mempool as a machine driven by its public operations, and the properties
  every run of it has.  The small transactions at the end of the first section
  instantiate the bitcoin crate's functions for the witnesses.
\<close>

section \<open>Runs\<close>

datatype mempool_op =
    AddTx "mempool_entry list \<Rightarrow> mempool_entry list" instant transaction u64 u32
  | RemoveTx txid
  | UpdateHeight "mempool_entry list \<Rightarrow> mempool_entry list" instant u32
  | ClearMempool
  | SetKernel kernel_handle

fun mempool_step :: "tx_api \<Rightarrow> mempool_op \<Rightarrow> mempool \<Rightarrow> mempool" where
  "mempool_step B (AddTx ord now t f h) mp = snd (add_tx B ord now t f h mp)"
| "mempool_step B (RemoveTx t) mp = snd (remove_tx t mp)"
| "mempool_step B (UpdateHeight ord now h) mp = update_height ord now h mp"
| "mempool_step B ClearMempool mp = mempool_clear mp"
| "mempool_step B (SetKernel k) mp = set_kernel k mp"

fun op_ok :: "mempool_op \<Rightarrow> bool" where
  "op_ok (AddTx ord now t f h) = iteration_order ord"
| "op_ok (UpdateHeight ord now h) = iteration_order ord"
| "op_ok _ = True"

lemma mp_invar_set_kernel [invar_intros]: "mp_invar B mp \<Longrightarrow> mp_invar B (set_kernel k mp)"
  by (rule mp_invar_frame) (auto simp: set_kernel_def mp_invar_def)

interpretation mempool_machine: invariant_machine "mempool_new p" "mempool_step B" op_ok "mp_invar B"
  for p B
proof unfold_locales
  show "mp_invar B (mempool_new p)" by (rule mp_invar_new)
  show "mp_invar B (mempool_step B e s)" if "mp_invar B s" for e s
    using that by (cases e) (auto intro: invar_intros mp_invar_clear)
qed

abbreviation mempool_run :: "tx_api \<Rightarrow> mempool_policy \<Rightarrow> mempool_op list \<Rightarrow> mempool" where
  "mempool_run B p ops \<equiv> fold (mempool_step B) ops (mempool_new p)"

lemma mempool_run_invar: "list_all op_ok ops \<Longrightarrow> mp_invar B (mempool_run B p ops)"
  by (rule mempool_machine.invar_reachable)

subsection \<open>Sample transactions\<close>

definition sample_api :: tx_api where
  "sample_api =
     \<lparr>compute_txid = (\<lambda>t. ucast (tx_body t ! 0)), tx_vsize = (\<lambda>t. ucast (tx_body t ! 1)),
      tx_weight = (\<lambda>t. ucast (tx_body t ! 2)), consensus_encode = (\<lambda>t. Inr (replicate 100 0))\<rparr>"

definition sample_tx :: "u8 \<Rightarrow> u8 \<Rightarrow> u8 \<Rightarrow> txid list \<Rightarrow> u32 \<Rightarrow> transaction" where
  "sample_tx i v w spent sq =
     \<lparr>tx_input = map (\<lambda>s. \<lparr>previous_output = \<lparr>op_txid = s, op_vout = 0\<rparr>, sequence = sq\<rparr>) spent,
      tx_output = [\<lparr>value_sat = 1000\<rparr>], tx_body = [i, v, w]\<rparr>"

text \<open>\<open>1\<close> is confirmed; \<open>2\<close> spends it, \<open>3\<close> spends \<open>2\<close>, \<open>4\<close> spends \<open>3\<close>.\<close>

definition chain_ops :: "mempool_op list" where
  "chain_ops =
     [AddTx (\<lambda>es. es) 0 (sample_tx 2 10 40 [1] 0) 100 5,
      AddTx (\<lambda>es. es) 0 (sample_tx 3 10 40 [2] 0) 200 5,
      AddTx (\<lambda>es. es) 0 (sample_tx 4 10 40 [3] 0) 4000 5]"

definition chain_pool :: mempool where
  "chain_pool = mempool_run sample_api policy_default chain_ops"

lemma chain_pool_invar: "mp_invar sample_api chain_pool"
  unfolding chain_pool_def
  by (rule mempool_run_invar) (simp add: chain_ops_def iteration_order_id)

lemmas mempool_exec = chain_pool_def chain_ops_def add_tx_def mempool_new_def policy_default_def
  sample_api_def sample_tx_def hm_contains_def kernel_gate_def is_size_acceptable_def
  is_fee_acceptable_def mempool_entry_new_def from_sat_per_vb_def check_rbf_signaling_def
  find_conflicts_def find_parents_def calculate_ancestors_def check_ancestor_limits_def
  commit_entry_def prevouts_def fe_add_tx_def fee_estimator_new_def maybe_evict_def attach_parent_def
  update_descendant_state_def hm_modify_def signed_max0_def Let_def List.map_filter_def List.insert_def
  remove_tx_def hm_remove_def detach_parent_def detach_child_def update_ancestor_state_def
  hm_values_def handle_replacement_def check_rbf_def remove_all_def saturating_sub_def
  saturating_mul_def signed_abs_def

section \<open>Invariants of every run\<close>

text \<open>C1. Whatever operations are applied to a fresh mempool, in whatever order, its
  invariant holds: keys are the ids of their transactions, parent and child links
  mirror each other and form no cycle, the spends map is exactly the inputs of the
  entries, the totals are the sums over the entries.\<close>

theorem mempool_runs_keep_invariant:
  assumes "list_all op_ok ops"
  shows "mp_invar B (mempool_run B p ops)"
  using assms by (rule mempool_run_invar)

theorem mempool_runs_keep_invariant_witness:
  "list_all op_ok chain_ops \<and> mp_invar sample_api (mempool_run sample_api policy_default chain_ops)"
proof -
  have ok: "list_all op_ok chain_ops" by (simp add: chain_ops_def iteration_order_id)
  with mempool_runs_keep_invariant [OF ok] show ?thesis by simp
qed



text \<open>The two running totals are the sums of the virtual sizes and of the fees of
  the entries, and equal them as numbers while those stay below \<open>2 ^ 64\<close>.\<close>

theorem mempool_totals_exact:
  assumes "list_all op_ok ops" and "mp = mempool_run B p ops"
    and "sum_list (map (\<lambda>e. unat (vsize e)) (hm_values (entries mp))) < 2 ^ 64"
    and "sum_list (map (\<lambda>e. unat (fee e)) (hm_values (entries mp))) < 2 ^ 64"
  shows "total_size mp = sum_list (map vsize (hm_values (entries mp))) \<and>
    total_fees mp = sum_list (map fee (hm_values (entries mp))) \<and>
    unat (total_size mp) = sum_list (map (\<lambda>e. unat (vsize e)) (hm_values (entries mp))) \<and>
    unat (total_fees mp) = sum_list (map (\<lambda>e. unat (fee e)) (hm_values (entries mp)))"
proof -
  have "mp_totals_ok mp" using mempool_run_invar [OF assms(1)] assms(2) by (simp add: mp_invar_def)
  then have sums: "total_size mp = sum_list (map vsize (hm_values (entries mp)))"
    "total_fees mp = sum_list (map fee (hm_values (entries mp)))"
    by (simp_all add: mp_totals_ok_def hm_sum_def hm_values_def comp_def)
  with assms(3,4) unat_sum_list [of "map vsize (hm_values (entries mp))"]
    unat_sum_list [of "map fee (hm_values (entries mp))"] show ?thesis
    by (simp add: comp_def)
qed

theorem mempool_totals_exact_witness:
  "unat (total_size chain_pool) = 30 \<and> unat (total_fees chain_pool) = 4300 \<and>
   unat (total_fees chain_pool) = sum_list (map (\<lambda>e. unat (fee e)) (hm_values (entries chain_pool)))"
proof -
  have ok: "list_all op_ok chain_ops" by (simp add: chain_ops_def iteration_order_id)
  have "sum_list (map (\<lambda>e. unat (vsize e)) (hm_values (entries chain_pool))) = 30"
    "sum_list (map (\<lambda>e. unat (fee e)) (hm_values (entries chain_pool))) = 4300"
    by (simp_all add: mempool_exec)
  moreover from this have "unat (total_size chain_pool) = sum_list (map (\<lambda>e. unat (vsize e)) (hm_values (entries chain_pool)))"
    "unat (total_fees chain_pool) = sum_list (map (\<lambda>e. unat (fee e)) (hm_values (entries chain_pool)))"
    using mempool_totals_exact [OF ok chain_pool_def] by auto
  ultimately show ?thesis by simp
qed

section \<open>Refinement of the abstract graph\<close>

lemma abs_remove_all:
  "mp_invar B mp \<Longrightarrow> abs_graph (remove_all ts mp) = fold graph_remove ts (abs_graph mp)"
  unfolding remove_all_def
  by (induction ts arbitrary: mp) (simp_all add: abs_remove_tx mp_invar_remove_tx)

text \<open>C4. Removing a transaction implements the removal of a vertex: its id, every
  edge at it and everything it spends disappear, and nothing else changes.\<close>

theorem remove_tx_refines_graph_remove:
  assumes "mp_invar B mp"
  shows "abs_graph (snd (remove_tx t mp)) = graph_remove t (abs_graph mp) \<and>
    ((\<exists>e. fst (remove_tx t mp) = Inr e) \<longleftrightarrow> t \<in> g_txids (abs_graph mp))"
  using abs_remove_tx [OF assms]
  by (auto simp: remove_tx_def abs_graph_def Let_def split: option.splits)

theorem remove_tx_refines_graph_remove_witness:
  "abs_graph (snd (remove_tx 3 chain_pool)) = graph_remove 3 (abs_graph chain_pool)"
  using remove_tx_refines_graph_remove [OF chain_pool_invar, of 3] by simp

lemma commit_entry_total [simp]: "total_size (commit_entry now e mp) = total_size mp + vsize e"
  "policy (commit_entry now e mp) = policy mp"
  by (simp_all add: commit_entry_def)

text \<open>C3. A successful admission implements: remove the conflicting vertices, add the
  transaction as a sink below the transactions it spends that are present, and,
  only when the pool would exceed its size limit, remove further vertices.\<close>

theorem add_tx_refines_graph_add:
  assumes inv: "mp_invar B mp" and ok: "add_tx B ord now t f h mp = (Inr i, mp')"
    and mp1: "mp1 = remove_all (find_conflicts t mp) mp"
    and g: "g = graph_add i (op_txid ` set (prevouts t) \<inter> g_txids (abs_graph mp1)) (set (prevouts t)) (abs_graph mp1)"
  shows "abs_graph mp1 = fold graph_remove (find_conflicts t mp) (abs_graph mp) \<and>
    (if total_size mp1 + tx_vsize B t \<le> max_size (policy mp) then abs_graph mp' = g
     else \<exists>evicted. abs_graph mp' = fold graph_remove evicted g)"
proof -
  from add_tx_Inr [OF inv ok] mp1 obtain e where e: "e = new_entry_of B now t f h mp1" "committable B e mp1"
    "mp_invar B mp1" "mp' = maybe_evict ord (commit_entry now e mp1)" "i = compute_txid B t" by metis
  have ps: "set (find_parents t mp1) = op_txid ` set (prevouts t) \<inter> g_txids (abs_graph mp1)"
    by (auto simp: set_find_parents abs_graph_def)
  have c: "abs_graph (commit_entry now e mp1) = g"
    unfolding abs_commit_entry [OF e(2,3)] g using e(1,5) ps by simp
  have inv2: "mp_invar B (commit_entry now e mp1)" by (rule mp_invar_commit_entry [OF e(2,3)])
  have "\<exists>evicted. abs_graph mp' = fold graph_remove evicted g"
    using maybe_evict_prefix [of ord "commit_entry now e mp1"] abs_remove_all [OF inv2] c e(4) by metis
  moreover have "abs_graph mp' = g" if "total_size mp1 + tx_vsize B t \<le> max_size (policy mp)"
    using that c e(1,4) by (simp add: maybe_evict_def Let_def mp1)
  ultimately show ?thesis using abs_remove_all [OF inv] by (simp add: mp1)
qed

text \<open>The state of the sample pool before its last transaction.\<close>

definition pair_pool :: mempool where
  "pair_pool = mempool_run sample_api policy_default (take 2 chain_ops)"

lemma pair_pool_invar: "mp_invar sample_api pair_pool"
  unfolding pair_pool_def
  by (rule mempool_run_invar) (simp add: chain_ops_def iteration_order_id)

lemma pair_pool_add:
  "\<exists>mp'. add_tx sample_api (\<lambda>es. es) 0 (sample_tx 4 10 40 [3] 0) 4000 5 pair_pool = (Inr 4, mp')"
  by (simp add: mempool_exec pair_pool_def)

lemma pair_pool_room:
  "pair_pool = remove_all (find_conflicts (sample_tx 4 10 40 [3] 0) pair_pool) pair_pool"
  "total_size pair_pool + tx_vsize sample_api (sample_tx 4 10 40 [3] 0) \<le> max_size (policy pair_pool)"
proof -
  have "find_conflicts (sample_tx 4 10 40 [3] 0) pair_pool = []"
    by (simp add: mempool_exec pair_pool_def)
  then show "pair_pool = remove_all (find_conflicts (sample_tx 4 10 40 [3] 0) pair_pool) pair_pool" by simp
  show "total_size pair_pool + tx_vsize sample_api (sample_tx 4 10 40 [3] 0) \<le> max_size (policy pair_pool)"
    by (simp add: mempool_exec pair_pool_def)
qed

theorem add_tx_refines_graph_add_witness:
  "\<exists>mp'. add_tx sample_api (\<lambda>es. es) 0 (sample_tx 4 10 40 [3] 0) 4000 5 pair_pool = (Inr 4, mp') \<and>
     abs_graph mp' = graph_add 4 ({3} \<inter> g_txids (abs_graph pair_pool))
       {\<lparr>op_txid = 3, op_vout = 0\<rparr>} (abs_graph pair_pool)"
proof -
  obtain mp' where mp': "add_tx sample_api (\<lambda>es. es) 0 (sample_tx 4 10 40 [3] 0) 4000 5 pair_pool = (Inr 4, mp')"
    using pair_pool_add by blast
  from add_tx_refines_graph_add [OF pair_pool_invar mp' pair_pool_room(1) refl]
  have "abs_graph mp' = graph_add 4 (op_txid ` set (prevouts (sample_tx 4 10 40 [3] 0)) \<inter> g_txids (abs_graph pair_pool))
      (set (prevouts (sample_tx 4 10 40 [3] 0))) (abs_graph pair_pool)"
    using pair_pool_room(2) by simp
  with mp' show ?thesis by (simp add: sample_tx_def prevouts_def)
qed

lemma graph_remove_add:
  assumes "t \<notin> g_txids g" and "Field (g_edges g) \<subseteq> g_txids g" and "t \<notin> ps"
    and "\<forall>op \<in> ops. g_spends g op = None" and "t \<notin> ran (g_spends g)"
  shows "graph_remove t (graph_add t ps ops g) = g"
proof (rule mempool_graph.equality)
  show "g_edges (graph_remove t (graph_add t ps ops g)) = g_edges g"
    using assms(1,2) by (auto simp: graph_remove_def graph_add_def Field_def Range_iff Domain_iff)
  show "g_spends (graph_remove t (graph_add t ps ops g)) = g_spends g"
    using assms(4,5) by (auto simp: graph_remove_def graph_add_def fun_eq_iff ran_def)
qed (use assms(1) in \<open>simp_all add: graph_remove_def graph_add_def\<close>)

lemma abs_graph_wf:
  assumes "mp_invar B mp"
  shows "Field (g_edges (abs_graph mp)) \<subseteq> g_txids (abs_graph mp)"
    and "ran (g_spends (abs_graph mp)) \<subseteq> g_txids (abs_graph mp)"
proof -
  have l: "mp_links_ok mp" and s: "mp_spends_ok mp" using assms by (simp_all add: mp_invar_def)
  have "p \<in> g_txids (abs_graph mp) \<and> c \<in> g_txids (abs_graph mp)" if "p \<in> parents_of mp c" for p c
  proof -
    have "c \<in> children_of mp p" using l that by (simp add: mp_links_ok_def)
    with that show ?thesis
      by (auto simp: abs_graph_def parents_of_def children_of_def split: option.splits)
  qed
  then show "Field (g_edges (abs_graph mp)) \<subseteq> g_txids (abs_graph mp)"
    by (auto simp: Field_def abs_graph_def edges_of_def)
  show "ran (g_spends (abs_graph mp)) \<subseteq> g_txids (abs_graph mp)"
    using s by (auto simp: ran_def abs_graph_def mp_spends_ok_def spent_by_def split: option.splits)
qed



section \<open>Admission\<close>

text \<open>The fees and the size a replacement has to beat, one summand per conflicting
  input.\<close>

definition sum_present :: "(mempool_entry \<Rightarrow> u64) \<Rightarrow> mempool \<Rightarrow> txid list \<Rightarrow> u64" where
  "sum_present g mp cs = sum_list (map (\<lambda>c. case hm_get (entries mp) c of None \<Rightarrow> 0 | Some e \<Rightarrow> g e) cs)"

lemma conflict_totals_Inr:
  assumes "conflict_totals mp cs f s = Inr (cf, csz)"
  shows "cf = f + sum_present fee mp cs \<and> csz = s + sum_present vsize mp cs \<and>
     (\<forall>c \<in> set cs. \<forall>e. hm_get (entries mp) c = Some e \<longrightarrow> signals_replacement e)"
  using assms
proof (induction cs arbitrary: f s)
  case Nil
  then show ?case by (simp add: sum_present_def)
next
  case (Cons c cs)
  show ?case
  proof (cases "hm_get (entries mp) c")
    case None
    with Cons show ?thesis by (simp add: sum_present_def)
  next
    case (Some e)
    with Cons.prems have sig: "signals_replacement e"
      and rest: "conflict_totals mp cs (f + fee e) (s + vsize e) = Inr (cf, csz)"
      by (auto split: if_splits)
    from Cons.IH [OF rest] sig Some show ?thesis by (simp add: sum_present_def add.assoc)
  qed
qed

lemma handle_replacement_Inr:
  assumes "handle_replacement e cs mp = (Inr (), mp1)"
  shows "enable_rbf (policy mp) \<and> signals_replacement e \<and>
    (\<forall>c \<in> set cs. \<forall>x. hm_get (entries mp) c = Some x \<longrightarrow> signals_replacement x) \<and>
    fee_for_vsize (incremental_relay_fee (policy mp)) (signed_abs (vsize e - sum_present vsize mp cs))
       \<le> saturating_sub (fee e) (sum_present fee mp cs)"
proof -
  obtain cf csz where ct: "conflict_totals mp cs 0 0 = Inr (cf, csz)"
    and rbf: "check_rbf (policy mp) (signals_replacement e) (saturating_sub (fee e) cf) (vsize e - csz) = Inr ()"
    using assms by (auto simp: handle_replacement_def Let_def split: sum.splits)
  from conflict_totals_Inr [OF ct] rbf show ?thesis by (simp add: check_rbf_ok)
qed

lemma kernel_gate_ok:
  assumes "kernel_gate B t mp = Inr ()" and "kernel mp \<noteq> None"
  shows "validate_transaction B t = Inr (True, None)"
proof (cases "validate_transaction B t")
  case (Inl e)
  with assms show ?thesis by (auto simp: kernel_gate_def)
next
  case (Inr r)
  obtain b reason where r: "r = (b, reason)" by (cases r)
  with assms Inr have b by (cases b; cases reason) (auto simp: kernel_gate_def)
  with Inr r validate_transaction_true show ?thesis by auto
qed

text \<open>C19. What an admitted transaction has passed: it was not present, the kernel (when
  there is one) accepted it, its size, fee rate and ancestors are within the
  policy, and if it replaces others then replacement is enabled, everybody
  involved signals it and the fee left after paying for the conflicts covers the
  incremental relay fee.\<close>

theorem add_tx_admission:
  assumes "mp_invar B mp" and "add_tx B ord now t f h mp = (Inr i, mp')"
  shows "i = compute_txid B t \<and> \<not> contains i mp \<and>
    (kernel mp \<noteq> None \<longrightarrow> validate_transaction B t = Inr (True, None)) \<and>
    tx_vsize B t \<le> max_tx_size (policy mp) \<and>
    min_relay_fee (policy mp) \<le> FeeRate (f div max (tx_vsize B t) 1) \<and>
    (\<exists>mp1 e. mp1 = remove_all (find_conflicts t mp) mp \<and> e = new_entry_of B now t f h mp1 \<and>
       ancestor_count e \<le> max_ancestors (policy mp) \<and>
       ancestor_size e \<le> max_ancestor_size_kb (policy mp) * 1024) \<and>
    (find_conflicts t mp \<noteq> [] \<longrightarrow> enable_rbf (policy mp) \<and> check_rbf_signaling t \<and>
       (\<forall>c \<in> set (find_conflicts t mp). \<forall>x. hm_get (entries mp) c = Some x \<longrightarrow> signals_replacement x) \<and>
       fee_for_vsize (incremental_relay_fee (policy mp))
           (signed_abs (tx_vsize B t - sum_present vsize mp (find_conflicts t mp)))
         \<le> saturating_sub f (sum_present fee mp (find_conflicts t mp)))"
proof -
  from add_tx_Inr [OF assms] obtain mp1 e where e: "mp1 = remove_all (find_conflicts t mp) mp"
    "e = new_entry_of B now t f h mp1" "i = compute_txid B t"
    "admission_checks B now t f h mp = (Inr (), mp1)"
    "check_ancestor_limits (policy mp) (ancestor_count e) (ancestor_size e) = Inr ()" by metis
  note ac = admission_checks_cases [OF e(4), simplified]
  have kern: "kernel mp \<noteq> None \<longrightarrow> validate_transaction B t = Inr (True, None)"
    using ac kernel_gate_ok [of B t mp] by simp
  have rbf: "find_conflicts t mp \<noteq> [] \<Longrightarrow>
      handle_replacement (mempool_entry_new B now t f h) (find_conflicts t mp) mp = (Inr (), mp1)"
    using ac by simp
  have rep: "find_conflicts t mp \<noteq> [] \<longrightarrow> enable_rbf (policy mp) \<and> check_rbf_signaling t \<and>
       (\<forall>c \<in> set (find_conflicts t mp). \<forall>x. hm_get (entries mp) c = Some x \<longrightarrow> signals_replacement x) \<and>
       fee_for_vsize (incremental_relay_fee (policy mp))
           (signed_abs (tx_vsize B t - sum_present vsize mp (find_conflicts t mp)))
         \<le> saturating_sub f (sum_present fee mp (find_conflicts t mp))"
    using handle_replacement_Inr [OF rbf] by simp
  have lim: "ancestor_count e \<le> max_ancestors (policy mp) \<and>
       ancestor_size e \<le> max_ancestor_size_kb (policy mp) * 1024"
    using e(5) by (simp add: check_ancestor_limits_ok)
  show ?thesis
  proof (intro conjI exI)
    show "mp1 = remove_all (find_conflicts t mp) mp" "e = new_entry_of B now t f h mp1" by (fact e(1) e(2))+
  qed (use ac e(3) kern rep lim in \<open>simp_all add: contains_def hm_contains_def from_sat_per_vb_def\<close>)
qed

text \<open>A pool with one replaceable transaction, and its replacement.\<close>

definition single_pool :: mempool where
  "single_pool = mempool_run sample_api policy_default (take 1 chain_ops)"

lemma single_pool_invar: "mp_invar sample_api single_pool"
  unfolding single_pool_def
  by (rule mempool_run_invar) (simp add: chain_ops_def iteration_order_id)

lemma single_pool_replace:
  "\<exists>mp'. add_tx sample_api (\<lambda>es. es) 0 (sample_tx 5 12 48 [1] 0) 500 5 single_pool = (Inr 5, mp')"
  "find_conflicts (sample_tx 5 12 48 [1] 0) single_pool = [2]"
  by (simp_all add: mempool_exec single_pool_def)

theorem add_tx_admission_witness:
  "\<exists>mp'. add_tx sample_api (\<lambda>es. es) 0 (sample_tx 5 12 48 [1] 0) 500 5 single_pool = (Inr 5, mp') \<and>
     \<not> contains 5 single_pool \<and> check_rbf_signaling (sample_tx 5 12 48 [1] 0)"
proof -
  obtain mp' where mp': "add_tx sample_api (\<lambda>es. es) 0 (sample_tx 5 12 48 [1] 0) 500 5 single_pool = (Inr 5, mp')"
    using single_pool_replace(1) by blast
  have "find_conflicts (sample_tx 5 12 48 [1] 0) single_pool \<noteq> []" using single_pool_replace(2) by simp
  with add_tx_admission [OF single_pool_invar mp'] mp' show ?thesis by blast
qed

text \<open>C20. After a successful admission the pool is within its size limit.\<close>

theorem add_tx_within_max_size:
  assumes "mp_invar B mp" and "iteration_order ord" and "add_tx B ord now t f h mp = (Inr i, mp')"
  shows "total_size mp' \<le> max_size (policy mp')"
proof -
  from add_tx_Inr [OF assms(1,3)] obtain mp1 e where "committable B e mp1" "mp_invar B mp1"
    "mp' = maybe_evict ord (commit_entry now e mp1)" by metis
  with maybe_evict_bound [OF mp_invar_commit_entry assms(2)] show ?thesis by simp
qed

text \<open>A policy with room for one transaction, so that the second one evicts.\<close>

definition tight_policy :: mempool_policy where
  "tight_policy = policy_default\<lparr>max_size := 15\<rparr>"

definition tight_pool :: mempool where
  "tight_pool = mempool_run sample_api tight_policy (take 1 chain_ops)"

lemma tight_pool_invar: "mp_invar sample_api tight_pool"
  unfolding tight_pool_def
  by (rule mempool_run_invar) (simp add: chain_ops_def iteration_order_id)

lemma tight_pool_add:
  "\<exists>mp'. add_tx sample_api rev 0 (sample_tx 7 10 40 [9] 0) 4000 5 tight_pool = (Inr 7, mp')"
  by (simp add: mempool_exec tight_pool_def tight_policy_def)

theorem add_tx_within_max_size_witness:
  "\<exists>mp'. add_tx sample_api rev 0 (sample_tx 7 10 40 [9] 0) 4000 5 tight_pool = (Inr 7, mp') \<and>
     total_size mp' \<le> max_size (policy mp')"
proof -
  obtain mp' where mp': "add_tx sample_api rev 0 (sample_tx 7 10 40 [9] 0) 4000 5 tight_pool = (Inr 7, mp')"
    using tight_pool_add by blast
  with add_tx_within_max_size [OF tight_pool_invar iteration_order_rev mp'] show ?thesis by blast
qed

text \<open>C21. Eviction takes the lowest fee rates first: whatever it removes pays no more
  than whatever it keeps.\<close>

theorem eviction_lowest_fee_rate_first:
  assumes "mp_invar B mp" and "iteration_order ord"
    and "hm_get (entries mp) t = Some e" and "hm_get (entries (maybe_evict ord mp)) t = None"
    and "hm_get (entries mp) u = Some x" and "hm_get (entries (maybe_evict ord mp)) u \<noteq> None"
  shows "fee_rate e \<le> fee_rate x"
  using assms by (rule maybe_evict_lowest_first)

definition full_pool :: mempool where
  "full_pool = pair_pool\<lparr>policy := tight_policy\<rparr>"

lemma full_pool_invar: "mp_invar sample_api full_pool"
  using pair_pool_invar by (rule mp_invar_frame) (use pair_pool_invar in \<open>auto simp: full_pool_def mp_invar_def\<close>)

theorem eviction_lowest_fee_rate_first_witness:
  "\<exists>e x. hm_get (entries full_pool) 2 = Some e \<and> hm_get (entries full_pool) 3 = Some x \<and>
     hm_get (entries (maybe_evict rev full_pool)) 2 = None \<and> fee_rate e \<le> fee_rate x"
proof -
  have "\<exists>e. hm_get (entries full_pool) 2 = Some e" "\<exists>x. hm_get (entries full_pool) 3 = Some x"
    and out: "hm_get (entries (maybe_evict rev full_pool)) 2 = None"
    and kept: "hm_get (entries (maybe_evict rev full_pool)) 3 \<noteq> None"
    by (simp_all add: mempool_exec full_pool_def pair_pool_def tight_policy_def)
  then obtain e x where e: "hm_get (entries full_pool) 2 = Some e" "hm_get (entries full_pool) 3 = Some x" by blast
  with eviction_lowest_fee_rate_first [OF full_pool_invar iteration_order_rev e(1) out e(2) kept] out
  show ?thesis by blast
qed

text \<open>C22. A rejected transaction leaves the mempool as it was, except that a policy
  error raised after the replacement step leaves the conflicting transactions
  removed.\<close>

theorem add_tx_error_state:
  assumes "add_tx B ord now t f h mp = (Inl err, mp')"
  shows "mp' = mp \<or> mp' = remove_all (find_conflicts t mp) mp \<and> (\<exists>p. err = PolicyError p)"
  using assms by (rule add_tx_Inl)

theorem add_tx_error_state_witness:
  "\<exists>mp'. add_tx sample_api (\<lambda>es. es) 0 (sample_tx 2 10 40 [1] 0) 100 5 single_pool = (Inl AlreadyInMempool, mp') \<and>
     mp' = single_pool"
proof -
  have "\<exists>mp'. add_tx sample_api (\<lambda>es. es) 0 (sample_tx 2 10 40 [1] 0) 100 5 single_pool = (Inl AlreadyInMempool, mp')"
    by (simp add: mempool_exec single_pool_def)
  then obtain mp' where mp':
    "add_tx sample_api (\<lambda>es. es) 0 (sample_tx 2 10 40 [1] 0) 100 5 single_pool = (Inl AlreadyInMempool, mp')" by blast
  with add_tx_error_state [OF mp'] show ?thesis by auto
qed

text \<open>Expiry removes exactly the entries older than the policy allows.\<close>

theorem remove_expired_exact:
  assumes "mp_invar B mp" and "iteration_order ord"
  shows "dom (hm_get (entries (snd (remove_expired ord now mp)))) =
    {t. \<exists>e. hm_get (entries mp) t = Some e \<and> now - entry_time e \<le> int (expiry (policy mp))}"
  using remove_expired_keys [OF assms, of now]
  by (auto simp: is_expired_def age_def not_less nat_le_iff)

theorem remove_expired_exact_witness:
  "dom (hm_get (entries (snd (remove_expired rev (10 ^ 18 * 2) pair_pool)))) = {}"
proof -
  have old: "now = 10 ^ 18 * 2 \<Longrightarrow> \<not> (\<exists>e. hm_get (entries pair_pool) t = Some e \<and> now - entry_time e \<le> int (expiry (policy pair_pool)))" for t now
    by (simp add: mempool_exec pair_pool_def from_secs_def)
  show ?thesis
    unfolding remove_expired_exact [OF pair_pool_invar iteration_order_rev] using old by blast
qed

section \<open>Ancestors and templates\<close>

text \<open>C17. The ancestor search terminates and returns exactly the transitive ancestors
  of a transaction in the mempool, whatever order the parent sets are iterated in.\<close>

theorem get_ancestors_exact:
  assumes "mp_invar B mp" and "iteration_order pord"
  shows "set (get_ancestors pord t mp) = {a. (a, t) \<in> (g_edges (abs_graph mp))\<^sup>+}"
  using set_get_ancestors [OF assms(2), of mp t] assms(1)
  by (simp add: mp_invar_def mp_links_ok_def ancestors_of_def abs_graph_def)

theorem get_ancestors_exact_witness:
  "get_ancestors rev 4 chain_pool = [3, 2] \<and> {a. (a, 4) \<in> (g_edges (abs_graph chain_pool))\<^sup>+} = {2, 3}"
proof -
  have "get_ancestors rev 4 chain_pool = [3, 2]"
    by (simp add: mempool_exec get_ancestors_def)
  with get_ancestors_exact [OF chain_pool_invar iteration_order_rev, of 4] show ?thesis by auto
qed

text \<open>C18. A block template contains no transaction twice, only transactions of the
  mempool, and with every transaction all of its ancestors.\<close>

theorem block_template_closed:
  assumes "mp_invar B mp" and "iteration_order ord" and "iteration_order pord"
    and "template = get_block_template B ord pord max_weight mp"
  shows "distinct (map (compute_txid B) template) \<and>
    (\<forall>t \<in> set template. get_tx (compute_txid B t) mp = Some t) \<and>
    (\<forall>t \<in> set template. ancestors_of mp (compute_txid B t) \<subseteq> compute_txid B ` set template)"
proof -
  obtain included w where "template_ok B mp (template, included, w)"
    using block_template_ok [OF assms(1-3)] assms(4) by blast
  then show ?thesis by (auto simp: template_ok_def listed_def get_tx_def)
qed

text \<open>The entries of the chain of three, written out.\<close>

definition chain_entry ::
  "u8 \<Rightarrow> txid \<Rightarrow> u64 \<Rightarrow> txid list \<Rightarrow> txid list \<Rightarrow> u64 \<times> usize \<times> u64 \<Rightarrow> u64 \<times> usize \<times> u64 \<Rightarrow> mempool_entry" where
  "chain_entry i spent f ps cs anc desc =
     \<lparr>tx = sample_tx i 10 40 [spent] 0, txid = ucast i, vsize = 10, fee = f, fee_rate = FeeRate (f div 10),
      entry_time = 0, height = 5, parents = ps, children = cs,
      ancestor_size = fst anc, ancestor_count = fst (snd anc), ancestor_fees = snd (snd anc),
      descendant_size = fst desc, descendant_count = fst (snd desc), descendant_fees = snd (snd desc),
      signals_replacement = True\<rparr>"

lemma chain_pool_entries:
  "entries chain_pool =
     [(2, chain_entry 2 1 100 [] [3] (10, 1, 100) (20, 2, 300)),
      (3, chain_entry 3 2 200 [2] [4] (20, 2, 300) (20, 2, 4200)),
      (4, chain_entry 4 3 4000 [3] [] (30, 3, 4300) (10, 1, 4000))]"
  by (simp add: mempool_exec chain_entry_def)

lemma chain_pool_sorted:
  "sort_key (\<lambda>e. - uint (as_sat_per_vb (ancestor_fee_rate e))) (rev (hm_values (entries chain_pool))) =
     [chain_entry 4 3 4000 [3] [] (30, 3, 4300) (10, 1, 4000),
      chain_entry 3 2 200 [2] [4] (20, 2, 300) (20, 2, 4200),
      chain_entry 2 1 100 [] [3] (10, 1, 100) (20, 2, 300)]"
  by (simp add: chain_pool_entries hm_values_def ancestor_fee_rate_def from_sat_per_vb_def chain_entry_def)

lemma chain_pool_ancestors: "get_ancestors rev 4 chain_pool = [3, 2]"
  by (simp add: get_ancestors_def chain_pool_entries chain_entry_def Let_def)

lemma sample_weight: "tx_weight sample_api (sample_tx i v w xs s) = ucast w"
  "compute_txid sample_api (sample_tx i v w xs s) = ucast i"
  by (simp_all add: sample_api_def sample_tx_def)

lemma chain_pool_include:
  "\<not> m < 40 \<Longrightarrow> can_include sample_api chain_pool [] 0 m [3, 2]"
  "include_ancestors sample_api chain_pool [3, 2] ([], [], 0) =
     ([sample_tx 3 10 40 [2] 0, sample_tx 2 10 40 [1] 0], [2, 3], 80)"
  by (simp_all add: can_include_def chain_pool_entries chain_entry_def entry_weight_def sample_weight
      List.insert_def)

lemma chain_pool_template:
  assumes "\<not> m < 40"
  shows "map (compute_txid sample_api) (get_block_template sample_api rev rev m chain_pool) = [3, 2, 4] \<and>
   sum_list (map (tx_weight sample_api) (get_block_template sample_api rev rev m chain_pool)) = 120"
proof -
  let ?ts = "[sample_tx 3 10 40 [2] 0, sample_tx 2 10 40 [1] 0, sample_tx 4 10 40 [3] 0]"
  have step: "template_step sample_api rev m chain_pool (chain_entry 4 3 4000 [3] [] (30, 3, 4300) (10, 1, 4000))
      ([], [], 0) = (?ts, [4, 2, 3], 120)"
    using assms by (simp add: template_step_def chain_pool_ancestors chain_entry_def entry_weight_def
        sample_weight chain_pool_include List.insert_def del: include_ancestors.simps)
  have skip: "txid e \<in> {2, 3, 4} \<Longrightarrow> template_step sample_api rev m chain_pool e (?ts, [4, 2, 3], 120)
      = (?ts, [4, 2, 3], 120)" for e
    unfolding template_step_def prod.case by (rule if_P) auto
  have "txid (chain_entry 3 2 200 [2] [4] (20, 2, 300) (20, 2, 4200)) \<in> {2, 3, 4}"
    "txid (chain_entry 2 1 100 [] [3] (10, 1, 100) (20, 2, 300)) \<in> {2, 3, 4}"
    by (simp_all add: chain_entry_def)
  then have "get_block_template sample_api rev rev m chain_pool = ?ts"
    unfolding get_block_template_def Let_def chain_pool_sorted
    by (simp only: fold_simps(1,2) step skip fst_conv)
  then show ?thesis by (simp add: sample_weight)
qed

theorem block_template_closed_witness:
  "map (compute_txid sample_api) (get_block_template sample_api rev rev 1000 chain_pool) = [3, 2, 4] \<and>
   ancestors_of chain_pool 4 \<subseteq> {3, 2, 4}"
proof -
  let ?t = "get_block_template sample_api rev rev 1000 chain_pool"
  have ids: "compute_txid sample_api ` set ?t = {3, 2, 4}"
    using arg_cong [OF conjunct1 [OF chain_pool_template], of 1000 set] by simp
  then have "4 \<in> compute_txid sample_api ` set ?t" by simp
  then obtain t where t: "4 = compute_txid sample_api t" "t \<in> set ?t" by (rule imageE)
  have "ancestors_of chain_pool (compute_txid sample_api t) \<subseteq> compute_txid sample_api ` set ?t"
    using block_template_closed [OF chain_pool_invar iteration_order_rev iteration_order_rev refl] t(2) by blast
  with chain_pool_template [of 1000] show ?thesis by (simp only: ids t(1) [symmetric]) simp
qed

section \<open>Where the code departs from its intent\<close>

text \<open>A template may list a transaction before its own parent: the ancestors of \<open>4\<close>
  are included in the order the stack pops them.\<close>

lemma template_parent_after_child:
  "map (compute_txid sample_api) (get_block_template sample_api rev rev 1000 chain_pool) = [3, 2, 4] \<and>
   2 \<in> parents_of chain_pool 3"
  using chain_pool_template [of 1000] by (simp add: chain_pool_entries chain_entry_def parents_of_def)

text \<open>The weight limit counts the transaction only, not the ancestors it brings.\<close>

lemma template_overweight:
  "sum_list (map (tx_weight sample_api) (get_block_template sample_api rev rev 50 chain_pool)) = 120"
  using chain_pool_template [of 50] by simp

text \<open>Only the direct parents learn of a new descendant.\<close>

lemma descendant_count_misses_grandchild:
  "(\<exists>e. hm_get (entries chain_pool) 2 = Some e \<and> descendant_count e = 2) \<and>
   get_ancestors rev 4 chain_pool = [3, 2]"
  by (simp add: chain_pool_entries chain_pool_ancestors chain_entry_def)

text \<open>A transaction is reported as accepted although the eviction at the end of its
  own admission removed it.\<close>

lemma accepted_but_evicted:
  "\<exists>mp'. add_tx sample_api rev 0 (sample_tx 7 10 40 [9] 0) 20 5 tight_pool = (Inr 7, mp') \<and>
     \<not> contains 7 mp'"
  by (simp add: mempool_exec tight_pool_def tight_policy_def contains_def)

text \<open>A replacement that fails the ancestor limit has already removed what it
  would have replaced.\<close>

definition one_ancestor_pool :: mempool where
  "one_ancestor_pool = mempool_run sample_api (policy_default\<lparr>max_ancestors := 1\<rparr>)
     [AddTx rev 0 (sample_tx 2 10 40 [1] 0) 100 5, AddTx rev 0 (sample_tx 5 10 40 [9] 0) 100 5]"

lemma failed_replacement_loses_original:
  "\<exists>mp'. add_tx sample_api rev 0 (sample_tx 6 10 40 [1, 5] 0) 4000 5 one_ancestor_pool
       = (Inl (PolicyError (TooManyAncestors 2 1)), mp') \<and>
     contains 2 one_ancestor_pool \<and> \<not> contains 2 mp'"
  by (simp add: mempool_exec one_ancestor_pool_def contains_def)

text \<open>A transaction that conflicts with another on two inputs is counted twice, so a
  replacement paying more than it does is refused.\<close>

definition two_input_pool :: mempool where
  "two_input_pool = mempool_run sample_api policy_default
     [AddTx rev 0 (sample_tx 2 10 40 [1, 9] 0) 1000 5]"

lemma conflict_counted_twice:
  "fst (add_tx sample_api rev 0 (sample_tx 6 10 40 [1, 9] 0) 1990 5 two_input_pool)
     = Inl (PolicyError (InsufficientFeeBump 0 10))"
  by (simp add: mempool_exec two_input_pool_def contains_def)

end
