(* ===== verification/Peer_Handshake.thy ===== *)
theory Peer_Handshake
  imports Net_Types Mempool_Entry
begin

text \<open>
  Messages and the version handshake of \<^verbatim>\<open>src/p2p/legacy.rs\<close> (\<open>Peer\<close>).  What the
  stream delivers is an argument, one outcome per \<open>recv\<close>; \<open>send_ok k\<close> says whether
  the \<open>k\<close>-th write succeeds.  The messages written are returned in order.
\<close>

section \<open>Messages\<close>

text \<open>A block header is its parent's hash and 48 further bytes (version, merkle root,
  time, bits and nonce), which this code never looks at.\<close>

record block_header =
  prev_blockhash :: block_hash
  header_rest :: "384 word"

datatype inventory_item =
    InvTransaction txid
  | InvBlockItem block_hash
  | InvWitnessBlock block_hash
  | InvOther

record version_message =
  vm_version :: u32
  vm_services :: u64
  vm_start_height :: i32

record net_address =
  na_address :: "u16 list"
  na_port :: u16

text \<open>A block message stands for the block's hash and its serialization, both computed by
  the bitcoin crate.\<close>

datatype network_message =
    Version version_message
  | Verack
  | WtxidRelay
  | SendHeaders
  | SendCmpct u64 bool
  | GetAddr
  | Ping u64
  | Pong u64
  | Headers "block_header list"
  | GetHeaders u32 "block_hash list" block_hash
  | Inv "inventory_item list"
  | GetData "inventory_item list"
  | NotFound "inventory_item list"
  | BlockMsg block_hash "u8 list"
  | TxMsg transaction
  | Addr "net_address list"
  | OtherMsg

definition advertised_proto :: u32 where
  "advertised_proto = 70016"

section \<open>The peer\<close>

record peer =
  their_services :: u64
  their_start_height :: i32
  negotiated :: bool
  sendheaders_sent :: bool
  wtxidrelay_sent :: bool
  verack_seen :: bool

definition peer_connect :: peer where
  "peer_connect =
     \<lparr>their_services = 0, their_start_height = 0, negotiated = False, sendheaders_sent = False,
      wtxidrelay_sent = False, verack_seen = False\<rparr>"

datatype peer_error = SendFailed | RecvFailed | RecvTimeout | HandshakeTimeout

datatype recv_result = RecvMsg network_message | RecvError | TimedOut

text \<open>The peer and what has been written to its stream so far.\<close>

type_synonym wire = "peer \<times> network_message list"

definition peer_send :: "(nat \<Rightarrow> bool) \<Rightarrow> network_message \<Rightarrow> wire \<Rightarrow> peer_error + wire" where
  "peer_send send_ok msg = (\<lambda>(p, out). if send_ok (length out) then Inr (p, out @ [msg]) else Inl SendFailed)"

definition peer_update :: "(peer \<Rightarrow> peer) \<Rightarrow> wire \<Rightarrow> wire" where
  "peer_update f = (\<lambda>(p, out). (f p, out))"

definition and_then :: "'e + 'a \<Rightarrow> ('a \<Rightarrow> 'e + 'b) \<Rightarrow> 'e + 'b" where
  "and_then r k = (case r of Inl e \<Rightarrow> Inl e | Inr a \<Rightarrow> k a)"

lemma and_then_simps [simp]: "and_then (Inl e) k = Inl e" "and_then (Inr a) k = k a"
  by (simp_all add: and_then_def)

lemma and_then_Inr: "and_then r k = Inr b \<longleftrightarrow> (\<exists>a. r = Inr a \<and> k a = Inr b)"
  by (cases r) simp_all

section \<open>Handshake\<close>

definition on_version :: "(nat \<Rightarrow> bool) \<Rightarrow> version_message \<Rightarrow> wire \<Rightarrow> peer_error + wire" where
  "on_version send_ok vm w =
     (let w1 = peer_update (\<lambda>p. p\<lparr>their_services := vm_services vm, their_start_height := vm_start_height vm\<rparr>) w
      in and_then
        (if \<not> wtxidrelay_sent (fst w1) \<and> vm_version vm \<ge> 70016
         then and_then (peer_send send_ok WtxidRelay w1) (\<lambda>w2. Inr (peer_update (\<lambda>p. p\<lparr>wtxidrelay_sent := True\<rparr>) w2))
         else Inr w1)
        (peer_send send_ok Verack))"

definition on_verack :: "(nat \<Rightarrow> bool) \<Rightarrow> wire \<Rightarrow> peer_error + wire" where
  "on_verack send_ok w =
     (let w1 = peer_update (\<lambda>p. p\<lparr>verack_seen := True\<rparr>) w
      in and_then
        (if \<not> sendheaders_sent (fst w1)
         then and_then (peer_send send_ok SendHeaders w1) (\<lambda>w2. Inr (peer_update (\<lambda>p. p\<lparr>sendheaders_sent := True\<rparr>) w2))
         else Inr w1)
        (peer_send send_ok (SendCmpct 1 True)))"

fun handshake_step ::
  "(nat \<Rightarrow> bool) \<Rightarrow> network_message \<Rightarrow> wire \<times> bool \<times> bool \<Rightarrow> peer_error + (wire \<times> bool \<times> bool)" where
  "handshake_step send_ok (Version vm) (w, got_version, got_verack) =
     and_then (on_version send_ok vm w) (\<lambda>w'. Inr (w', True, got_verack))"
| "handshake_step send_ok Verack (w, got_version, got_verack) =
     and_then (on_verack send_ok w) (\<lambda>w'. Inr (w', got_version, True))"
| "handshake_step send_ok other st = Inr st"

text \<open>The end of a successful handshake: the result of writing \<open>GetAddr\<close> is ignored.\<close>

definition handshake_done :: "(nat \<Rightarrow> bool) \<Rightarrow> wire \<Rightarrow> wire" where
  "handshake_done send_ok w =
     (let w1 = peer_update (\<lambda>p. p\<lparr>negotiated := True\<rparr>) w
      in case peer_send send_ok GetAddr w1 of Inl _ \<Rightarrow> w1 | Inr w2 \<Rightarrow> w2)"

fun handshake_loop ::
  "(nat \<Rightarrow> bool) \<Rightarrow> nat \<Rightarrow> recv_result list \<Rightarrow> wire \<times> bool \<times> bool \<Rightarrow> peer_error + wire" where
  "handshake_loop send_ok 0 rs st = Inl HandshakeTimeout"
| "handshake_loop send_ok (Suc n) [] st = Inl RecvTimeout"
| "handshake_loop send_ok (Suc n) (r # rs) st =
     (case r of
        TimedOut \<Rightarrow> Inl RecvTimeout
      | RecvError \<Rightarrow> Inl RecvFailed
      | RecvMsg msg \<Rightarrow>
          and_then (handshake_step send_ok msg st) (\<lambda>(w, got_version, got_verack).
            if got_version \<and> got_verack then Inr (handshake_done send_ok w)
            else handshake_loop send_ok n rs (w, got_version, got_verack)))"

lemmas handshake_loop_numeral [simp] =
  handshake_loop.simps(3) [where n = "pred_numeral k", folded numeral_eq_Suc] for k

definition handshake ::
  "(nat \<Rightarrow> bool) \<Rightarrow> recv_result list \<Rightarrow> i32 \<Rightarrow> u64 \<Rightarrow> peer \<Rightarrow> peer_error + wire" where
  "handshake send_ok rs start_height our_services p =
     and_then (peer_send send_ok
         (Version \<lparr>vm_version = advertised_proto, vm_services = our_services, vm_start_height = start_height\<rparr>) (p, []))
       (\<lambda>w. handshake_loop send_ok 50 rs (w, False, False))"

section \<open>What the peer gets to see\<close>

text \<open>The state of the exchange before it completes; \<open>v\<close> and \<open>k\<close> say whether a version and
  a verack have been received.\<close>

definition shaken :: "network_message \<Rightarrow> wire \<times> bool \<times> bool \<Rightarrow> bool" where
  "shaken first = (\<lambda>((p, out), v, k).
     out \<noteq> [] \<and> hd out = first \<and> (v \<longleftrightarrow> Verack \<in> set out) \<and> (k \<longleftrightarrow> verack_seen p) \<and>
     (k \<longleftrightarrow> sendheaders_sent p) \<and>
     count_list out WtxidRelay = of_bool (wtxidrelay_sent p) \<and>
     count_list out SendHeaders = of_bool (sendheaders_sent p))"

lemmas send_simps = peer_send_def peer_update_def Let_def

lemma shaken_step:
  "shaken first st \<Longrightarrow> handshake_step send_ok msg st = Inr st' \<Longrightarrow> shaken first st'"
  by (cases "(send_ok, msg, st)" rule: handshake_step.cases)
    (auto simp: shaken_def on_version_def on_verack_def send_simps and_then_Inr split: if_splits)

lemma handshake_loop_Inr:
  assumes "handshake_loop send_ok n rs st = Inr (p, out)" and "shaken first st"
  shows "\<exists>w. shaken first (w, True, True) \<and> (p, out) = handshake_done send_ok w"
  using assms
proof (induction send_ok n rs st rule: handshake_loop.induct)
  case (3 send_ok n r rs st)
  then obtain msg where r: "r = RecvMsg msg" by (cases r) auto
  obtain w v k where st': "handshake_step send_ok msg st = Inr (w, v, k)"
    using 3(2) r by (auto simp: and_then_Inr)
  have sh: "shaken first (w, v, k)" by (rule shaken_step [OF 3(3) st'])
  show ?case
  proof (cases "v \<and> k")
    case True
    then have "(p, out) = handshake_done send_ok w" using 3(2) r st' by simp
    moreover have "shaken first (w, True, True)" using True sh by simp
    ultimately show ?thesis by blast
  next
    case False
    then have "handshake_loop send_ok n rs (w, v, k) = Inr (p, out)" using 3(2) r st' by (auto split: if_splits)
    with 3(1) [OF r False] sh show ?thesis by blast
  qed
qed simp_all

lemma peer_send_shaken_start:
  "shaken (Version vm) ((peer_connect, [Version vm]), False, False)"
  by (simp add: shaken_def peer_connect_def)

text \<open>Whatever the remote side sends and however writes fail, a handshake that succeeds
  opened with our version message, has seen the peer's verack, has answered with a
  verack, has written \<open>wtxidrelay\<close> at most once and \<open>sendheaders\<close> exactly once, and
  leaves the peer negotiated.\<close>

theorem handshake_success:
  assumes "handshake send_ok rs h s peer_connect = Inr (p, out)"
  shows "negotiated p \<and> verack_seen p \<and> Verack \<in> set out \<and>
    hd out = Version \<lparr>vm_version = 70016, vm_services = s, vm_start_height = h\<rparr> \<and>
    count_list out WtxidRelay \<le> 1 \<and> count_list out SendHeaders = 1"
proof -
  let ?vm = "\<lparr>vm_version = advertised_proto, vm_services = s, vm_start_height = h\<rparr>"
  have "handshake_loop send_ok 50 rs ((peer_connect, [Version ?vm]), False, False) = Inr (p, out)"
    using assms by (auto simp: handshake_def peer_send_def split: if_splits)
  from handshake_loop_Inr [OF this peer_send_shaken_start] show ?thesis
    by (auto simp: shaken_def handshake_done_def send_simps advertised_proto_def split: if_splits)
qed

theorem handshake_success_witness:
  "\<exists>p out. handshake (\<lambda>k. k < 5) (map RecvMsg [Verack, Version \<lparr>vm_version = 70015, vm_services = 1, vm_start_height = 9\<rparr>])
       0 8 peer_connect = Inr (p, out) \<and> negotiated p \<and> count_list out SendHeaders = 1"
proof -
  have "\<exists>p out. handshake (\<lambda>k. k < 5) (map RecvMsg [Verack, Version \<lparr>vm_version = 70015, vm_services = 1, vm_start_height = 9\<rparr>])
       0 8 peer_connect = Inr (p, out)"
    by (simp add: handshake_def send_simps on_verack_def on_version_def handshake_done_def peer_connect_def)
  then show ?thesis using handshake_success by blast
qed

lemma handshake_skip:
  assumes "list_all (\<lambda>m. m \<noteq> Verack \<and> (\<forall>vm. m \<noteq> Version vm)) us" and "\<not> (v \<and> k)"
  shows "handshake_loop send_ok (length us + n) (map RecvMsg us @ rs) (w, v, k) = handshake_loop send_ok n rs (w, v, k)"
  using assms(1)
proof (induction us)
  case Nil
  then show ?case by simp
next
  case (Cons m us)
  have "handshake_step send_ok m (w, v, k) = Inr (w, v, k)" using Cons.prems by (cases m) auto
  with Cons assms(2) show ?case by (cases v; cases k) simp_all
qed

text \<open>C27. With a peer that sends its version and then its verack, whatever else it sends in
  between, within 50 messages, the handshake succeeds and writes exactly: our
  version, \<open>wtxidrelay\<close> before the verack when the peer speaks protocol 70016, the
  verack, \<open>sendheaders\<close>, \<open>sendcmpct\<close> and \<open>getaddr\<close>.\<close>

theorem handshake_transcript:
  assumes "list_all (\<lambda>m. m \<noteq> Verack \<and> (\<forall>vm. m \<noteq> Version vm)) (us @ vs)" and "length us + length vs + 2 \<le> 50"
  shows "handshake (\<lambda>_. True) (map RecvMsg (us @ Version vm # vs @ [Verack]) @ rs) h s peer_connect =
    Inr (\<lparr>their_services = vm_services vm, their_start_height = vm_start_height vm, negotiated = True,
          sendheaders_sent = True, wtxidrelay_sent = (vm_version vm \<ge> 70016), verack_seen = True\<rparr>,
      [Version \<lparr>vm_version = 70016, vm_services = s, vm_start_height = h\<rparr>] @
      (if vm_version vm \<ge> 70016 then [WtxidRelay] else []) @ [Verack, SendHeaders, SendCmpct 1 True, GetAddr])"
proof -
  define n where "n = 48 - length us - length vs"
  then have n: "50 = length us + Suc (length vs + Suc n)" using assms(2) by simp
  have split: "handshake (\<lambda>_. True) (map RecvMsg (us @ Version vm # vs @ [Verack]) @ rs) h s peer_connect =
     handshake_loop (\<lambda>_. True) (length us + Suc (length vs + Suc n))
       (map RecvMsg us @ (RecvMsg (Version vm) # map RecvMsg vs @ (RecvMsg Verack # rs)))
       ((peer_connect, [Version \<lparr>vm_version = 70016, vm_services = s, vm_start_height = h\<rparr>]), False, False)"
    unfolding n [symmetric] by (simp add: handshake_def peer_send_def advertised_proto_def)
  have us: "list_all (\<lambda>m. m \<noteq> Verack \<and> (\<forall>vm. m \<noteq> Version vm)) us"
    and vs: "list_all (\<lambda>m. m \<noteq> Verack \<and> (\<forall>vm. m \<noteq> Version vm)) vs"
    using assms(1) by simp_all
  have "\<not> (False \<and> False)" "\<not> (True \<and> False)" by simp_all
  note skip_us = handshake_skip [OF us this(1)]
    and skip_vs = handshake_skip [OF vs this(2), where n = "Suc n", simplified]
  show ?thesis
    unfolding split skip_us
    by (simp add: skip_vs on_version_def on_verack_def handshake_done_def send_simps peer_connect_def)
qed

theorem handshake_transcript_witness:
  "\<exists>p. handshake (\<lambda>_. True)
       (map RecvMsg ([Ping 3] @ Version \<lparr>vm_version = 70016, vm_services = 9, vm_start_height = 100\<rparr> # [SendHeaders] @ [Verack]) @ [])
       0 8 peer_connect =
     Inr (p, [Version \<lparr>vm_version = 70016, vm_services = 8, vm_start_height = 0\<rparr>, WtxidRelay, Verack, SendHeaders,
       SendCmpct 1 True, GetAddr]) \<and> their_start_height p = 100"
  by (subst handshake_transcript) simp_all

section \<open>Where the code departs from its intent\<close>

text \<open>A peer that sends its version twice, first with an old protocol number, receives
  \<open>wtxidrelay\<close> after the verack.\<close>

lemma wtxidrelay_after_verack:
  "\<exists>p out. handshake (\<lambda>_. True)
       (map RecvMsg [Version \<lparr>vm_version = 70015, vm_services = 1, vm_start_height = 9\<rparr>,
          Version \<lparr>vm_version = 70016, vm_services = 1, vm_start_height = 9\<rparr>, Verack]) 0 8 peer_connect =
     Inr (p, out) \<and> take 3 (tl out) = [Verack, WtxidRelay, Verack]"
  by (simp add: handshake_def send_simps on_verack_def on_version_def handshake_done_def peer_connect_def)

end
