(* ===== verification/Chain_Params.thy ===== *)
theory Chain_Params
  imports Net_Types
begin

text \<open>
  Chain parameters of \<^verbatim>\<open>src/chainparams.rs\<close>: the checkpoints, written as hex
  strings, and the three queries on them.  \<open>from_str\<close> is the bitcoin crate's
  \<open>BlockHash::from_str\<close>, whose documented behaviour (exactly the strings of 64 hex
  digits parse) is the predicate \<open>hash_parser\<close>.
\<close>

section \<open>Parameters per network\<close>

type_synonym hash_parse = "string \<Rightarrow> block_hash option"
type_synonym checkpoint = "u32 \<times> string"

record chain_params =
  checkpoints :: "checkpoint list"
  assume_valid :: "block_hash option"
  minimum_chain_work :: "u8 list option"

definition mainnet :: "hash_parse \<Rightarrow> chain_params" where
  "mainnet from_str =
     \<lparr>checkpoints =
     [(11111, ''0000000069e244f73d78e8fd29ba2fd2ed618bd6fa2ee92559f542fdb26e7c1d''),
      (33333, ''000000002dd5588a74784eaa7ab0507a18ad16a236e7b1ce69f00d7ddfb5d0a6''),
      (74000, ''0000000000573993a3c9e41ce34471c079dcf5f52a0e824a81e7f953b8661a20''),
      (105000, ''00000000000291ce28027faea320c8d2b054b2e0fe44a773f3eefb151d6bdc97''),
      (134444, ''00000000000005b12ffd4cd315cd34ffd4a594f430ac814c91184a0d42d2b0fe''),
      (168000, ''000000000000099e61ea72015e79632f216fe6cb33d7899acb35b75c8303b763''),
      (193000, ''000000000000059f452a5f7340de6682a977387c17010ff6e6c3bd83ca8b1317''),
      (210000, ''000000000000048b95347e83192f69cf0366076336c639f9b7228e9ba171342e''),
      (216116, ''00000000000001b4f4b433e81ee46494af945cf96014816a4e2370f11b23df4e''),
      (225430, ''00000000000001c108384350f74090433e7fcf79a606b8e797f065b130575932''),
      (250000, ''000000000000003887df1f29024b06fc2200b55f8af8f35453d7be294df2d214''),
      (279000, ''0000000000000001ae8c72a0b0c301f67e3afca10e819efa9041e458e9bd7e40''),
      (295000, ''00000000000000004d9b4ef50f0f9d686fd69db2e03af35a100370c64632a983''),
      (478558, ''0000000000000000011865af4122fe3b144e2cbeea86142e8ff2fb4107352d43''),
      (504031, ''0000000000000000011ebf65b60d0a3de80b8175be709d653b4c1a1beeb6ab9c''),
      (550000, ''000000000000000000223b7a2298fb1c6c75fb0efc28a4c56853ff4112ec6bc9''),
      (600000, ''000000000000000000066ef6eb0c2b4c7e4a0b1a7a8d5eb8cf1f7f52e6c7d1e7''),
      (650000, ''000000000000000000085e5f1b9f1a3f3b7e1a7a7a7a7a7a7a7a7a7a7a7a7a7a''),
      (700000, ''00000000000000000003de05b3b5b0b0b0b0b0b0b0b0b0b0b0b0b0b0b0b0b0b0''),
      (750000, ''00000000000000000001e1f8c2e5b2b2b2b2b2b2b2b2b2b2b2b2b2b2b2b2b2b2''),
      (800000, ''00000000000000000002a7a3b1c9d5d5d5d5d5d5d5d5d5d5d5d5d5d5d5d5d5d5'')],
      assume_valid = from_str ''000000000000000000026fe88c5b1be20e8f9e17e57f0e2fa93e1a7b7d7e1e1e'',
      minimum_chain_work = Some
        [0, 0, 0, 0, 0, 0, 0, 0, 0, 0, 0, 0, 0, 0, 0, 0, 0, 0, 0, 0, 0, 0x9a, 0x3c, 0x1e,
         0x6f, 0x7e, 0x1a, 0x2b, 0x3c, 0x4d, 0x5e, 0x6f]\<rparr>"

definition testnet :: "hash_parse \<Rightarrow> chain_params" where
  "testnet from_str =
     \<lparr>checkpoints =
     [(546, ''000000002a936ca763904c3c35fce2f3556c559c0214345d31b1bcebf76acb70''),
      (100000, ''00000000009e2958c15ff9290d571bf9459e93b19765c6801ddeccadbb160a1e''),
      (200000, ''0000000000287bffd321963ef05feab753ebe274e1d78b2fd4e2bfe9ad3aa6f2''),
      (300000, ''0000000000004829474748f3d1bc8fcf893c88be255e6d7f571c548aff57abf4''),
      (400000, ''00000000007f1a93e1e8a98a53d2e7a6e9bf6b7b7b7b7b7b7b7b7b7b7b7b7b7b''),
      (500000, ''000000000001cf8b0d4e0e0e0e0e0e0e0e0e0e0e0e0e0e0e0e0e0e0e0e0e0e'')],
      assume_valid = from_str ''00000000000000010ab8c2f7f7f7f7f7f7f7f7f7f7f7f7f7f7f7f7f7f7f7f7'',
      minimum_chain_work = Some
        [0, 0, 0, 0, 0, 0, 0, 0, 0, 0, 0, 0, 0, 0, 0, 0, 0, 0, 0, 0, 0, 0, 0, 0,
         0, 0, 0, 0x01, 0x74, 0x76, 0xa7, 0x21]\<rparr>"

definition signet :: chain_params where
  "signet = \<lparr>checkpoints = [], assume_valid = None, minimum_chain_work = None\<rparr>"

definition regtest :: chain_params where
  "regtest = \<lparr>checkpoints = [], assume_valid = None, minimum_chain_work = None\<rparr>"

fun for_network :: "hash_parse \<Rightarrow> network \<Rightarrow> chain_params" where
  "for_network from_str Bitcoin = mainnet from_str"
| "for_network from_str Testnet = testnet from_str"
| "for_network from_str Signet = signet"
| "for_network from_str Regtest = regtest"
| "for_network from_str Testnet4 = regtest"

section \<open>Queries\<close>

datatype checkpoint_error = InvalidCheckpointHash

fun is_checkpoint_in ::
  "hash_parse \<Rightarrow> u32 \<Rightarrow> block_hash \<Rightarrow> checkpoint list \<Rightarrow> checkpoint_error + bool" where
  "is_checkpoint_in from_str height hash [] = Inr True"
| "is_checkpoint_in from_str height hash ((cp_height, cp_hash) # cps) =
     (if cp_height = height
      then case from_str cp_hash of
             None \<Rightarrow> Inl InvalidCheckpointHash
           | Some cp \<Rightarrow> Inr (hash = cp)
      else is_checkpoint_in from_str height hash cps)"

definition is_checkpoint :: "hash_parse \<Rightarrow> u32 \<Rightarrow> block_hash \<Rightarrow> chain_params \<Rightarrow> checkpoint_error + bool" where
  "is_checkpoint from_str height hash p = is_checkpoint_in from_str height hash (checkpoints p)"

fun get_checkpoint_in :: "hash_parse \<Rightarrow> u32 \<Rightarrow> checkpoint list \<Rightarrow> block_hash option" where
  "get_checkpoint_in from_str height [] = None"
| "get_checkpoint_in from_str height ((cp_height, cp_hash) # cps) =
     (if cp_height = height then from_str cp_hash else get_checkpoint_in from_str height cps)"

definition get_checkpoint :: "hash_parse \<Rightarrow> u32 \<Rightarrow> chain_params \<Rightarrow> block_hash option" where
  "get_checkpoint from_str height p = get_checkpoint_in from_str height (checkpoints p)"

fun last_checkpoint_in ::
  "hash_parse \<Rightarrow> u32 \<Rightarrow> (u32 \<times> block_hash) option \<Rightarrow> checkpoint list \<Rightarrow> (u32 \<times> block_hash) option" where
  "last_checkpoint_in from_str height found [] = found"
| "last_checkpoint_in from_str height found ((cp_height, cp_hash) # cps) =
     (if cp_height \<le> height
      then last_checkpoint_in from_str height
             (case from_str cp_hash of None \<Rightarrow> found | Some h \<Rightarrow> Some (cp_height, h)) cps
      else found)"

definition get_last_checkpoint_before :: "hash_parse \<Rightarrow> u32 \<Rightarrow> chain_params \<Rightarrow> (u32 \<times> block_hash) option" where
  "get_last_checkpoint_before from_str height p = last_checkpoint_in from_str height None (checkpoints p)"

section \<open>Facts\<close>

abbreviation increasing :: "checkpoint list \<Rightarrow> bool" where
  "increasing cps \<equiv> sorted_wrt (<) (map fst cps)"

lemma checkpoints_increasing: "increasing (checkpoints (for_network from_str net))"
  by (cases net) (simp_all add: mainnet_def testnet_def signet_def regtest_def)

lemma get_checkpoint_in_iff:
  "increasing cps \<Longrightarrow> get_checkpoint_in from_str height cps = Some h \<longleftrightarrow>
     (\<exists>s. (height, s) \<in> set cps \<and> from_str s = Some h)"
  by (induction cps) force+

lemma is_checkpoint_in_Inr:
  "is_checkpoint_in from_str height hash cps = Inr b \<Longrightarrow>
     b \<longleftrightarrow> (case get_checkpoint_in from_str height cps of None \<Rightarrow> True | Some h \<Rightarrow> hash = h)"
  by (induction cps) (auto split: option.splits if_splits)

definition usable :: "hash_parse \<Rightarrow> u32 \<Rightarrow> checkpoint list \<Rightarrow> (u32 \<times> block_hash) list" where
  "usable from_str height cps =
     List.map_filter (\<lambda>(k, s). if k \<le> height then map_option (Pair k) (from_str s) else None) cps"

lemma set_usable:
  "(k, h) \<in> set (usable from_str height cps) \<longleftrightarrow> (\<exists>s. (k, s) \<in> set cps \<and> k \<le> height \<and> from_str s = Some h)"
  by (induction cps) (auto simp: usable_def List.map_filter_simps split: option.splits if_splits)

lemma usable_increasing: "increasing cps \<Longrightarrow> sorted_wrt (<) (map fst (usable from_str height cps))"
proof (induction cps)
  case Nil
  then show ?case by (simp add: usable_def List.map_filter_simps)
next
  case (Cons c cps)
  obtain k s where c: "c = (k, s)" by (cases c)
  have "\<forall>x \<in> set (usable from_str height cps). k < fst x"
    using Cons.prems c set_usable [of _ _ from_str height cps] by fastforce
  moreover have "usable from_str height (c # cps) =
      (case (if k \<le> height then from_str s else None) of None \<Rightarrow> [] | Some h \<Rightarrow> [(k, h)]) @ usable from_str height cps"
    by (auto simp: c usable_def List.map_filter_simps split: option.splits)
  ultimately show ?case using Cons by (auto split: option.splits)
qed

lemma last_checkpoint_in_eq:
  "increasing cps \<Longrightarrow> last_checkpoint_in from_str height found cps =
     (if usable from_str height cps = [] then found else Some (last (usable from_str height cps)))"
proof (induction cps arbitrary: found)
  case Nil
  then show ?case by (simp add: usable_def List.map_filter_simps)
next
  case (Cons c cps)
  obtain k s where c: "c = (k, s)" by (cases c)
  show ?case
  proof (cases "k \<le> height")
    case True
    with Cons c show ?thesis by (auto simp: usable_def List.map_filter_simps split: option.splits)
  next
    case False
    have "usable from_str height cps = []"
    proof (rule ccontr)
      assume "usable from_str height cps \<noteq> []"
      then obtain k' h where "(k', h) \<in> set (usable from_str height cps)"
        by (metis list.set_intros(1) neq_Nil_conv surj_pair)
      then obtain s' where "(k', s') \<in> set cps" "k' \<le> height" by (auto simp: set_usable)
      with Cons.prems c False show False by fastforce
    qed
    with False c show ?thesis by (auto simp: usable_def List.map_filter_simps)
  qed
qed

lemma last_greatest:
  assumes "sorted_wrt (<) (map fst (xs :: (u32 \<times> block_hash) list))" and "xs \<noteq> []"
  shows "last xs = (k, h) \<longleftrightarrow> (k, h) \<in> set xs \<and> (\<forall>(k', h') \<in> set xs. k' \<le> k)"
  using assms
proof (induction xs rule: rev_induct)
  case Nil
  then show ?case by simp
next
  case (snoc x xs)
  then have "\<forall>y \<in> set xs. fst y < fst x" by (auto simp: sorted_wrt_append)
  then show ?case by (cases x) fastforce
qed

text \<open>On every network the checkpoint reported for a height is the greatest one at or
  below that height whose hash parses, and none exactly when there is none.\<close>

theorem last_checkpoint_is_greatest:
  "get_last_checkpoint_before from_str height (for_network from_str net) = Some (k, h) \<longleftrightarrow>
     (\<exists>s. (k, s) \<in> set (checkpoints (for_network from_str net)) \<and> k \<le> height \<and> from_str s = Some h) \<and>
     list_all (\<lambda>(k', s'). k' > height \<or> from_str s' = None \<or> k' \<le> k) (checkpoints (for_network from_str net))"
proof -
  let ?cps = "checkpoints (for_network from_str net)"
  let ?us = "usable from_str height ?cps"
  have inc: "increasing ?cps" by (rule checkpoints_increasing)
  have "(\<forall>(k', h') \<in> set ?us. k' \<le> k) \<longleftrightarrow> list_all (\<lambda>(k', s'). k' > height \<or> from_str s' = None \<or> k' \<le> k) ?cps"
    (is "?low \<longleftrightarrow> ?high")
  proof -
    have "?low \<longleftrightarrow> (\<forall>k' h'. (\<exists>s. (k', s) \<in> set ?cps \<and> k' \<le> height \<and> from_str s = Some h') \<longrightarrow> k' \<le> k)"
      by (simp only: set_usable [symmetric]) fast
    also have "\<dots> \<longleftrightarrow> (\<forall>(k', s') \<in> set ?cps. k' > height \<or> from_str s' = None \<or> k' \<le> k)"
      unfolding split_beta by (metis (no_types, lifting) fst_conv snd_conv linorder_not_le not_Some_eq prod.collapse)
    finally show ?thesis unfolding list_all_iff .
  qed
  with last_checkpoint_in_eq [OF inc, of from_str height None] last_greatest [OF usable_increasing [OF inc], of from_str height k h]
    set_usable [of k h from_str height ?cps]
  show ?thesis by (cases "?us = []") (auto simp: get_last_checkpoint_before_def)
qed

section \<open>Hash strings\<close>

definition hex_digit :: "char \<Rightarrow> bool" where
  "hex_digit c \<longleftrightarrow> c \<in> set ''0123456789abcdefABCDEF''"

definition hash_string :: "string \<Rightarrow> bool" where
  "hash_string s \<longleftrightarrow> length s = 64 \<and> list_all hex_digit s"

definition hash_parser :: "hash_parse \<Rightarrow> bool" where
  "hash_parser from_str \<longleftrightarrow> (\<forall>s. from_str s \<noteq> None \<longleftrightarrow> hash_string s)"

text \<open>A parser of that kind, for the witnesses: the digits as one number.\<close>

definition sample_parser :: hash_parse where
  "sample_parser s = (if hash_string s then Some (fold (\<lambda>c w. 16 * w + of_char c) s 0) else None)"

lemma sample_parser: "hash_parser sample_parser"
  by (simp add: hash_parser_def sample_parser_def)

text \<open>The mainnet checkpoints are all in force: each listed hash parses and the query at
  its height returns it.\<close>

theorem mainnet_checkpoints_enforced:
  assumes "hash_parser from_str"
  shows "list_all (\<lambda>(k, s). \<exists>h. from_str s = Some h \<and> get_checkpoint from_str k (for_network from_str Bitcoin) = Some h)
    (checkpoints (for_network from_str Bitcoin))"
proof -
  let ?cps = "checkpoints (for_network from_str Bitcoin)"
  have "list_all (\<lambda>(k, s). hash_string s) ?cps"
    by (simp add: mainnet_def hash_string_def hex_digit_def)
  then have "\<exists>h. from_str s = Some h" if "(k, s) \<in> set ?cps" for k s
    using that assms unfolding list_all_iff hash_parser_def by fast
  then have "\<exists>h. from_str s = Some h \<and> get_checkpoint from_str k (for_network from_str Bitcoin) = Some h"
    if "(k, s) \<in> set ?cps" for k s
    using that unfolding get_checkpoint_def get_checkpoint_in_iff [OF checkpoints_increasing] by blast
  then show ?thesis unfolding list_all_iff by blast
qed

theorem mainnet_checkpoints_enforced_witness:
  "\<exists>h. get_checkpoint sample_parser 11111 (for_network sample_parser Bitcoin) = Some h"
proof -
  have "(11111, ''0000000069e244f73d78e8fd29ba2fd2ed618bd6fa2ee92559f542fdb26e7c1d'')
      \<in> set (checkpoints (for_network sample_parser Bitcoin))"
    unfolding mainnet_def for_network.simps chain_params.select_convs list.set by (rule insertI1)
  with mainnet_checkpoints_enforced [OF sample_parser] show ?thesis unfolding list_all_iff by fast
qed

text \<open>The two checkpoint queries agree: where \<open>is_checkpoint\<close> answers, it accepts exactly
  the hash \<open>get_checkpoint\<close> reports, and any hash at a height without one.\<close>

theorem checkpoint_queries_agree:
  "is_checkpoint from_str height hash p = Inl InvalidCheckpointHash \<or>
   is_checkpoint from_str height hash p =
     Inr (case get_checkpoint from_str height p of None \<Rightarrow> True | Some h \<Rightarrow> hash = h)"
proof (cases "is_checkpoint from_str height hash p")
  case (Inl e)
  then show ?thesis by (cases e) simp
next
  case (Inr b)
  then show ?thesis using is_checkpoint_in_Inr by (fastforce simp: is_checkpoint_def get_checkpoint_def)
qed

section \<open>Where the code departs from its intent\<close>

text \<open>The testnet checkpoint at 500000 and the assumed-valid hash have 62 digits: neither
  parses, so neither is in force.\<close>

lemma testnet_checkpoint_not_enforced:
  "hash_parser from_str \<Longrightarrow> get_checkpoint from_str 500000 (for_network from_str Testnet) = None \<and>
     assume_valid (for_network from_str Testnet) = None \<and>
     500000 \<in> fst ` set (checkpoints (for_network from_str Testnet))"
proof -
  assume "hash_parser from_str"
  then have "from_str s = None" if "length s = 62" for s
  proof -
    have "\<not> hash_string s" using that by (simp add: hash_string_def)
    with \<open>hash_parser from_str\<close> show ?thesis unfolding hash_parser_def by blast
  qed
  then show ?thesis by (simp add: testnet_def get_checkpoint_def)
qed

text \<open>The unit test expects a signet checkpoint at 50000; there is none.\<close>

lemma signet_has_no_checkpoint:
  "get_checkpoint from_str 50000 (for_network from_str Signet) = None"
  by (simp add: get_checkpoint_def signet_def)

end
