(* ===== verification/Downloader.thy ===== *)
theory Downloader
  imports Net_Types
begin

text \<open>
  The block download queue of \<^verbatim>\<open>src/p2p/legacy.rs\<close> (\<open>Downloader\<close>): a queue of
  hashes, the blocks in flight with their peer and deadline, a counter of busy
  slots per peer.  \<open>clk k\<close> is the clock at the \<open>k\<close>-th pass of a loop.  The
  percentage of \<open>get_progress\<close> is only logged and left out.

  The state the queue promises its client is the set of pending hashes; the
  locale states that contract and the interpretation shows the queue meets it.
\<close>

section \<open>State and operations\<close>

record downloader =
  inflight :: "(block_hash, socket_addr \<times> instant) hmap"
  per_peer :: "(socket_addr, nat) hmap"
  global_window :: nat
  per_peer_window :: nat
  queue :: "block_hash list"
  total_blocks :: nat
  downloaded_blocks :: nat

definition blk_timeout :: duration where
  "blk_timeout = from_secs 120"

definition downloader_new :: "nat \<Rightarrow> nat \<Rightarrow> downloader" where
  "downloader_new gw pw =
     \<lparr>inflight = [], per_peer = [], global_window = gw, per_peer_window = pw, queue = [],
      total_blocks = 0, downloaded_blocks = 0\<rparr>"

definition push_many :: "block_hash list \<Rightarrow> downloader \<Rightarrow> downloader" where
  "push_many v d =
     fold (\<lambda>h d. d\<lparr>queue := queue d @ [h], total_blocks := total_blocks d + 1\<rparr>) v d"

definition get_progress :: "downloader \<Rightarrow> nat \<times> nat" where
  "get_progress d = (downloaded_blocks d, total_blocks d)"

function poll_loop ::
  "(nat \<Rightarrow> instant) \<Rightarrow> nat \<Rightarrow> socket_addr \<Rightarrow> block_hash list \<Rightarrow> downloader \<Rightarrow> block_hash list \<times> downloader" where
  "poll_loop clk k addr out d =
     (if length (inflight d) \<ge> global_window d then (out, d)
      else if hm_count (per_peer d) addr \<ge> per_peer_window d then (out, d)
      else case queue d of
             [] \<Rightarrow> (out, d)
           | h # q \<Rightarrow>
               poll_loop clk (k + 1) addr (out @ [h])
                 (d\<lparr>queue := q,
                    inflight := hm_insert h (addr, clk k + int blk_timeout) (inflight d),
                    per_peer := hm_bump addr (per_peer d)\<rparr>))"
  by pat_completeness auto
termination
  by (relation "measure (\<lambda>(clk, k, addr, out, d). length (queue d))") auto

declare poll_loop.simps [simp del]

definition poll_assign :: "(nat \<Rightarrow> instant) \<Rightarrow> socket_addr \<Rightarrow> downloader \<Rightarrow> block_hash list \<times> downloader" where
  "poll_assign clk addr d = poll_loop clk 0 addr [] d"

definition complete :: "block_hash \<Rightarrow> downloader \<Rightarrow> downloader" where
  "complete h d =
     (case hm_get (inflight d) h of
        None \<Rightarrow> d
      | Some (addr, _) \<Rightarrow>
          d\<lparr>inflight := hm_remove h (inflight d),
            per_peer := hm_modify addr (\<lambda>n. if n > 0 then n - 1 else n) (per_peer d),
            downloaded_blocks := downloaded_blocks d + 1\<rparr>)"

definition reassign_timeouts ::
  "((block_hash \<times> socket_addr \<times> instant) list \<Rightarrow> (block_hash \<times> socket_addr \<times> instant) list) \<Rightarrow>
   instant \<Rightarrow> downloader \<Rightarrow> block_hash list \<times> downloader" where
  "reassign_timeouts ord now d =
     (let gone = filter (\<lambda>(h, a, dl). dl \<le> now) (ord (inflight d));
          dec = fold (\<lambda>(h, a, dl). hm_bump a) gone []
      in (map fst gone,
          d\<lparr>inflight := filter (\<lambda>(h, a, dl). \<not> dl \<le> now) (inflight d),
            per_peer := fold (\<lambda>(a, n). hm_modify a (\<lambda>c. c - n)) dec (per_peer d)\<rparr>))"

text \<open>The first statement of the event loop's body.\<close>

definition requeue_timeouts ::
  "((block_hash \<times> socket_addr \<times> instant) list \<Rightarrow> (block_hash \<times> socket_addr \<times> instant) list) \<Rightarrow>
   instant \<Rightarrow> downloader \<Rightarrow> downloader" where
  "requeue_timeouts ord now d =
     (let (expired, d') = reassign_timeouts ord now d in fold (\<lambda>h. push_many [h]) expired d')"

section \<open>Limits\<close>

definition slots :: "downloader \<Rightarrow> socket_addr \<Rightarrow> nat" where
  "slots d a = hm_sum (\<lambda>v. of_bool (fst v = a)) (inflight d)"

definition pending :: "downloader \<Rightarrow> block_hash set" where
  "pending d = set (queue d) \<union> dom (hm_get (inflight d))"

definition dl_invar :: "downloader \<Rightarrow> bool" where
  "dl_invar d \<longleftrightarrow> hm_wf (inflight d) \<and> hm_wf (per_peer d) \<and>
     length (inflight d) \<le> global_window d \<and>
     (\<forall>a. slots d a \<le> hm_count (per_peer d) a \<and> hm_count (per_peer d) a \<le> per_peer_window d) \<and>
     downloaded_blocks d + length (inflight d) + length (queue d) \<le> total_blocks d"

text \<open>What holds as long as no hash is pushed twice: nothing is in flight and queued
  at once, and a peer's counter is exactly the number of blocks it owes.\<close>

definition dl_distinct :: "downloader \<Rightarrow> bool" where
  "dl_distinct d \<longleftrightarrow> distinct (queue d) \<and> set (queue d) \<inter> dom (hm_get (inflight d)) = {} \<and>
     (\<forall>a. hm_count (per_peer d) a = slots d a)"

lemma push_many_eq:
  "push_many v d = d\<lparr>queue := queue d @ v, total_blocks := total_blocks d + length v\<rparr>"
  unfolding push_many_def by (induction v arbitrary: d) simp_all

lemma fold_push_one: "fold (\<lambda>h. push_many [h]) v d = push_many v d"
  by (induction v arbitrary: d) (simp_all add: push_many_eq)

lemma slots_queue [simp]: "slots (d\<lparr>queue := q, total_blocks := t\<rparr>) a = slots d a"
  by (simp add: slots_def)

lemma dl_invar_new [invar_intros]: "dl_invar (downloader_new gw pw)"
  by (simp add: dl_invar_def downloader_new_def slots_def)

lemma dl_invar_push_many [invar_intros]: "dl_invar d \<Longrightarrow> dl_invar (push_many v d)"
  by (simp add: dl_invar_def push_many_eq)

subsection \<open>Assignment\<close>

text \<open>One pass of the loop.\<close>

definition assign_one :: "instant \<Rightarrow> socket_addr \<Rightarrow> downloader \<Rightarrow> downloader" where
  "assign_one t addr d =
     d\<lparr>queue := tl (queue d), inflight := hm_insert (hd (queue d)) (addr, t + int blk_timeout) (inflight d),
       per_peer := hm_bump addr (per_peer d)\<rparr>"

definition can_assign :: "socket_addr \<Rightarrow> downloader \<Rightarrow> bool" where
  "can_assign addr d \<longleftrightarrow> length (inflight d) < global_window d \<and>
     hm_count (per_peer d) addr < per_peer_window d \<and> queue d \<noteq> []"

lemma poll_loop_eq:
  "poll_loop clk k addr out d =
     (if can_assign addr d
      then poll_loop clk (k + 1) addr (out @ [hd (queue d)]) (assign_one (clk k) addr d) else (out, d))"
  by (subst poll_loop.simps)
    (auto simp: can_assign_def assign_one_def not_less not_le split: list.splits)

lemma assign_one_slots:
  assumes "hm_wf (inflight d)"
  shows "slots (assign_one t addr d) a \<le> slots d a + of_bool (a = addr)"
    and "hm_get (inflight d) (hd (queue d)) = None \<Longrightarrow>
      slots (assign_one t addr d) a = slots d a + of_bool (a = addr)"
proof -
  have "slots (assign_one t addr d) a = of_bool (a = addr) +
      hm_sum (\<lambda>v. of_bool (fst v = a)) (hm_remove (hd (queue d)) (inflight d))"
    by (simp add: slots_def assign_one_def hm_sum_insert [OF assms] eq_commute)
  then show "slots (assign_one t addr d) a \<le> slots d a + of_bool (a = addr)"
    and "hm_get (inflight d) (hd (queue d)) = None \<Longrightarrow>
      slots (assign_one t addr d) a = slots d a + of_bool (a = addr)"
    using hm_sum_remove_le [OF assms, of "\<lambda>v. of_bool (fst v = a)" "hd (queue d)"]
    by (simp_all add: slots_def hm_remove_absent)
qed

lemma assign_one_fields:
  "queue (assign_one t addr d) = tl (queue d)"
  "hm_count (per_peer (assign_one t addr d)) a = hm_count (per_peer d) a + of_bool (a = addr)"
  "global_window (assign_one t addr d) = global_window d"
  "per_peer_window (assign_one t addr d) = per_peer_window d"
  "total_blocks (assign_one t addr d) = total_blocks d"
  "downloaded_blocks (assign_one t addr d) = downloaded_blocks d"
  "hm_wf (inflight d) \<Longrightarrow> hm_wf (inflight (assign_one t addr d))"
  "hm_wf (per_peer d) \<Longrightarrow> hm_wf (per_peer (assign_one t addr d))"
  "hm_get (inflight (assign_one t addr d)) =
     (hm_get (inflight d))(hd (queue d) \<mapsto> (addr, t + int blk_timeout))"
  by (simp_all add: assign_one_def hm_count_bump hm_wf_insert hm_wf_bump update_conv')

lemma dl_invar_assign_one:
  assumes "dl_invar d" and "can_assign addr d"
  shows "dl_invar (assign_one t addr d)"
proof -
  have wf: "hm_wf (inflight d)" "hm_wf (per_peer d)" using assms(1) by (simp_all add: dl_invar_def)
  have len: "length (inflight (assign_one t addr d)) \<le> Suc (length (inflight d))"
    using hm_length_insert [OF wf(1)] by (simp add: assign_one_def)
  have "slots (assign_one t addr d) a \<le> hm_count (per_peer d) a + of_bool (a = addr)" for a
    using assms(1) assign_one_slots(1) [OF wf(1), of t addr a]
    unfolding dl_invar_def by (meson add_right_mono order_trans)
  moreover have "hm_count (per_peer d) a + of_bool (a = addr) \<le> per_peer_window d" for a
    using assms by (cases "a = addr") (simp_all add: dl_invar_def can_assign_def Suc_leI)
  moreover have "downloaded_blocks d + length (inflight (assign_one t addr d)) + (length (queue d) - Suc 0)
      \<le> total_blocks d"
    using assms len by (cases "queue d") (simp_all add: dl_invar_def can_assign_def)
  ultimately show ?thesis
    using assms len wf by (simp add: dl_invar_def can_assign_def assign_one_fields)
qed

lemma poll_loop_invar: "dl_invar d \<Longrightarrow> dl_invar (snd (poll_loop clk k addr out d))"
proof (induction "length (queue d)" arbitrary: k out d)
  case 0
  then show ?case by (subst poll_loop_eq) (simp add: can_assign_def)
next
  case (Suc n)
  have "n = length (queue (assign_one (clk k) addr d))" using Suc(2) by (simp add: assign_one_def)
  from Suc(1) [OF this] Suc(3) show ?case
    by (subst poll_loop_eq) (simp add: dl_invar_assign_one)
qed

lemma dl_invar_poll_assign [invar_intros]: "dl_invar d \<Longrightarrow> dl_invar (snd (poll_assign clk addr d))"
  by (simp add: poll_assign_def poll_loop_invar)

lemma poll_loop_pending:
  "pending (snd (poll_loop clk k addr out d)) = pending d \<and>
   set (fst (poll_loop clk k addr out d)) \<subseteq> set out \<union> set (queue d)"
proof (induction "length (queue d)" arbitrary: k out d)
  case 0
  then show ?case by (subst (1 2) poll_loop_eq) (simp add: can_assign_def)
next
  case (Suc n)
  then obtain h q where q: "queue d = h # q" by (cases "queue d") auto
  have "n = length (queue (assign_one (clk k) addr d))" using Suc(2) by (simp add: assign_one_def)
  from Suc(1) [OF this, of "k + 1" "out @ [h]"] q show ?case
    by (subst (1 2) poll_loop_eq) (auto simp: pending_def assign_one_def hm_simps)
qed

subsection \<open>Completion and timeouts\<close>

lemma slots_remove:
  assumes "hm_wf (inflight d)" and "hm_get (inflight d) h = Some (addr, dl)"
    and "inflight d' = hm_remove h (inflight d)"
  shows "slots d a = slots d' a + of_bool (a = addr)"
  using hm_sum_remove [OF assms(1,2), of "\<lambda>v. of_bool (fst v = a)"] assms(3)
  by (auto simp: slots_def)

lemma dl_invar_complete [invar_intros]:
  assumes "dl_invar d"
  shows "dl_invar (complete h d)"
proof (cases "hm_get (inflight d) h")
  case None
  with assms show ?thesis by (simp add: complete_def)
next
  case (Some v)
  obtain addr dl where v: "v = (addr, dl)" by (cases v)
  have wf: "hm_wf (inflight d)" using assms by (simp add: dl_invar_def)
  let ?d = "complete h d"
  have infl: "inflight ?d = hm_remove h (inflight d)" using Some v by (simp add: complete_def)
  have "slots ?d a \<le> hm_count (per_peer ?d) a \<and> hm_count (per_peer ?d) a \<le> per_peer_window d" for a
  proof -
    have "hm_count (per_peer ?d) a = hm_count (per_peer d) a - of_bool (a = addr)"
      using Some v by (auto simp: complete_def hm_count_modify)
    moreover have "slots d a \<le> hm_count (per_peer d) a" "hm_count (per_peer d) a \<le> per_peer_window d"
      using assms by (simp_all add: dl_invar_def)
    ultimately show ?thesis using slots_remove [OF wf Some [unfolded v] infl, of a] by linarith
  qed
  with assms infl Some v hm_length_remove [OF wf Some] show ?thesis
    by (simp add: dl_invar_def hm_wf_remove) (simp add: complete_def)
qed

definition overdue :: "instant \<Rightarrow> block_hash \<times> socket_addr \<times> instant \<Rightarrow> bool" where
  "overdue now = (\<lambda>(h, a, dl). dl \<le> now)"

lemma slots_split:
  "hm_sum (\<lambda>v. of_bool (fst v = a)) m =
   hm_sum (\<lambda>v. of_bool (fst v = a)) (filter (\<lambda>x. \<not> P x) m) + count_list (map (fst \<circ> snd) (filter P m)) a"
  by (induction m) auto

lemma reassign_timeouts_eq:
  "reassign_timeouts ord now d =
     (map fst (filter (overdue now) (ord (inflight d))),
      d\<lparr>inflight := filter (\<lambda>x. \<not> overdue now x) (inflight d),
        per_peer := fold (\<lambda>(a, n). hm_modify a (\<lambda>c. c - n))
          (fold hm_bump (map (fst \<circ> snd) (filter (overdue now) (ord (inflight d)))) []) (per_peer d)\<rparr>)"
  by (simp add: reassign_timeouts_def overdue_def Let_def case_prod_unfold fold_map comp_def)

lemma hm_wf_fold_modify: "hm_wf m \<Longrightarrow> hm_wf (fold (\<lambda>(a, n). hm_modify a (f n)) ds m)"
  by (induction ds arbitrary: m) (simp_all add: case_prod_beta)

text \<open>The blocks that time out free exactly the slots they held.\<close>

lemma reassign_timeouts_counts:
  assumes inv: "dl_invar d" and ord: "iteration_order ord" and r: "reassign_timeouts ord now d = (expired, d')"
  shows "\<exists>n. slots d a = slots d' a + n \<and> hm_count (per_peer d') a = hm_count (per_peer d) a - n"
proof -
  let ?gone = "\<lambda>xs. map (fst \<circ> snd) (filter (overdue now) xs)"
  have wf: "hm_wf (inflight d)" using inv by (simp add: dl_invar_def)
  have "distinct (map fst (fold hm_bump (?gone (ord (inflight d))) []))"
    using hm_wf_fold_bump [of "[]"] by (simp add: hm_wf_def)
  then have "hm_count (per_peer d') a = hm_count (per_peer d) a - count_list (?gone (ord (inflight d))) a"
    using r by (auto simp: reassign_timeouts_eq hm_count_fold_sub hm_count_fold_bump)
  moreover have "slots d a = slots d' a + count_list (?gone (inflight d)) a"
    using r slots_split [of a "inflight d" "overdue now"] by (auto simp: slots_def reassign_timeouts_eq)
  ultimately show ?thesis using iteration_order_count_list [OF ord wf] by metis
qed

lemma reassign_timeouts_inflight:
  assumes wf: "hm_wf (inflight d)" and ord: "iteration_order ord" and r: "reassign_timeouts ord now d = (expired, d')"
  shows "hm_get (inflight d') h = (case hm_get (inflight d) h of None \<Rightarrow> None
           | Some v \<Rightarrow> if snd v \<le> now then None else Some v)"
    and "set expired = {h. \<exists>v. hm_get (inflight d) h = Some v \<and> snd v \<le> now}"
    and "length (inflight d) = length (inflight d') + length expired"
    and "distinct expired"
proof -
  have d': "inflight d' = filter (\<lambda>p. \<not> snd (snd p) \<le> now) (inflight d)"
    and ex: "expired = map fst (filter (\<lambda>p. snd (snd p) \<le> now) (ord (inflight d)))"
    using r by (auto simp: reassign_timeouts_eq overdue_def case_prod_unfold)
  show "hm_get (inflight d') h = (case hm_get (inflight d) h of None \<Rightarrow> None
           | Some v \<Rightarrow> if snd v \<le> now then None else Some v)"
    unfolding d' using hm_get_filter [OF wf, of "\<lambda>k v. \<not> snd v \<le> now"] by (auto split: option.splits)
  show "set expired = {h. \<exists>v. hm_get (inflight d) h = Some v \<and> snd v \<le> now}"
    unfolding ex using hm_get_in_set [OF wf] by (force simp: iteration_orderD(1) [OF ord])
  have dist: "distinct (inflight d)" using wf by (simp add: hm_wf_def distinct_map)
  have m: "mset (ord (inflight d)) = mset (inflight d)" by (rule iteration_order_mset [OF ord dist])
  then have "length (filter (\<lambda>p. snd (snd p) \<le> now) (ord (inflight d))) = length (filter (\<lambda>p. snd (snd p) \<le> now) (inflight d))"
    by (metis mset_filter size_mset)
  then show "length (inflight d) = length (inflight d') + length expired"
    unfolding d' ex using sum_length_filter_compl [of "\<lambda>p. snd (snd p) \<le> now" "inflight d"] by simp
  have "distinct (map fst (ord (inflight d)))"
    using m wf unfolding hm_wf_def by (metis mset_eq_imp_distinct_iff mset_map)
  then show "distinct expired" unfolding ex by (rule distinct_map_filter)
qed

lemma dl_invar_reassign:
  assumes "dl_invar d" and "iteration_order ord" and "reassign_timeouts ord now d = (expired, d')"
  shows "dl_invar d'"
proof -
  have wf: "hm_wf (inflight d)" "hm_wf (per_peer d)" using assms(1) by (simp_all add: dl_invar_def)
  have "slots d' a \<le> hm_count (per_peer d') a \<and> hm_count (per_peer d') a \<le> per_peer_window d" for a
  proof -
    have "slots d a \<le> hm_count (per_peer d) a" "hm_count (per_peer d) a \<le> per_peer_window d"
      using assms(1) by (simp_all add: dl_invar_def)
    with reassign_timeouts_counts [OF assms, of a] show ?thesis by auto
  qed
  moreover have "d' = d\<lparr>inflight := inflight d', per_peer := per_peer d'\<rparr>"
    "hm_wf (inflight d')" "hm_wf (per_peer d')"
    using assms(3) wf by (auto simp: reassign_timeouts_eq hm_wf_filter hm_wf_fold_modify)
  moreover from this(1) have "queue d' = queue d" "total_blocks d' = total_blocks d"
    "downloaded_blocks d' = downloaded_blocks d" "global_window d' = global_window d"
    "per_peer_window d' = per_peer_window d"
    by (metis downloader.ext_inject downloader.surjective downloader.update_convs(1,2))+
  ultimately show ?thesis
    using assms(1) reassign_timeouts_inflight(3) [OF wf(1) assms(2,3)] by (simp add: dl_invar_def)
qed

lemma dl_invar_requeue [invar_intros]:
  assumes "dl_invar d" and "iteration_order ord"
  shows "dl_invar (requeue_timeouts ord now d)"
  using dl_invar_reassign [OF assms] dl_invar_push_many
  by (auto simp: requeue_timeouts_def fold_push_one split: prod.splits)

section \<open>The contract with the peer manager\<close>

text \<open>What a client relies on: a pushed hash stays pending until it is finished, a
  poll hands out pending hashes only.\<close>

locale download_queue =
  fixes inv :: "'d \<Rightarrow> bool" and pend :: "'d \<Rightarrow> 'h set"
    and push :: "'h list \<Rightarrow> 'd \<Rightarrow> 'd" and poll :: "'p \<Rightarrow> 'd \<Rightarrow> 'h list \<times> 'd"
    and finish :: "'h \<Rightarrow> 'd \<Rightarrow> 'd"
  assumes inv_push: "inv d \<Longrightarrow> inv (push hs d)"
    and inv_poll: "inv d \<Longrightarrow> inv (snd (poll p d))"
    and inv_finish: "inv d \<Longrightarrow> inv (finish h d)"
    and pend_push: "pend (push hs d) = pend d \<union> set hs"
    and pend_poll: "pend (snd (poll p d)) = pend d"
    and polled: "set (fst (poll p d)) \<subseteq> pend d"
    and finish_lower: "pend d - {h} \<subseteq> pend (finish h d)"
    and finish_upper: "pend (finish h d) \<subseteq> pend d"
begin

lemma announce_and_poll:
  "inv d \<Longrightarrow> inv (snd (poll p (push hs d))) \<and> pend (snd (poll p (push hs d))) = pend d \<union> set hs \<and>
     set (fst (poll p (push hs d))) \<subseteq> pend d \<union> set hs"
  using polled [of p "push hs d"] by (simp add: inv_push inv_poll pend_push pend_poll)

lemma finish_and_poll:
  "inv d \<Longrightarrow> inv (snd (poll p (finish h d))) \<and> pend d - {h} \<subseteq> pend (snd (poll p (finish h d))) \<and>
     pend (snd (poll p (finish h d))) \<subseteq> pend d \<and> set (fst (poll p (finish h d))) \<subseteq> pend d"
  using polled [of p "finish h d"] finish_lower [of d h] finish_upper [of h d]
  by (auto simp: inv_finish inv_poll pend_poll)

end

lemma pending_push_many [simp]: "pending (push_many hs d) = pending d \<union> set hs"
  by (auto simp: pending_def push_many_eq)

lemma pending_poll_assign [simp]: "pending (snd (poll_assign clk addr d)) = pending d"
  by (simp add: poll_assign_def poll_loop_pending)

lemma poll_assign_queued: "set (fst (poll_assign clk addr d)) \<subseteq> set (queue d)"
  using poll_loop_pending [of clk 0 addr "[]" d] by (simp add: poll_assign_def)

lemma pending_complete: "pending d - {h} \<subseteq> pending (complete h d)" "pending (complete h d) \<subseteq> pending d"
  by (auto simp: pending_def complete_def hm_simps split: option.splits if_splits)

interpretation dq: download_queue dl_invar pending push_many "\<lambda>(clk, addr). poll_assign clk addr" complete
proof (unfold_locales, goal_cases)
  case (6 p d)
  show ?case using poll_assign_queued [of "fst p" "snd p" d] by (cases p) (auto simp: pending_def)
qed (simp_all add: invar_intros pending_complete case_prod_beta)

lemma pending_requeue:
  assumes "hm_wf (inflight d)" and "iteration_order ord"
  shows "pending (requeue_timeouts ord now d) = pending d"
proof -
  obtain expired d' where r: "reassign_timeouts ord now d = (expired, d')" by (cases "reassign_timeouts ord now d")
  have "queue d' = queue d" using r by (auto simp: reassign_timeouts_eq)
  with reassign_timeouts_inflight(1,2) [OF assms r] show ?thesis
    by (auto simp: requeue_timeouts_def r fold_push_one pending_def push_many_eq dom_def split: option.splits if_splits)
qed

section \<open>Runs\<close>

datatype dl_op =
    DlPush "block_hash list"
  | DlPoll "nat \<Rightarrow> instant" socket_addr
  | DlComplete block_hash
  | DlTimeouts "(block_hash \<times> socket_addr \<times> instant) list \<Rightarrow> (block_hash \<times> socket_addr \<times> instant) list" instant

fun dl_step :: "dl_op \<Rightarrow> downloader \<Rightarrow> downloader" where
  "dl_step (DlPush hs) d = push_many hs d"
| "dl_step (DlPoll clk addr) d = snd (poll_assign clk addr d)"
| "dl_step (DlComplete h) d = complete h d"
| "dl_step (DlTimeouts ord now) d = requeue_timeouts ord now d"

fun dl_ok :: "dl_op \<Rightarrow> bool" where
  "dl_ok (DlTimeouts ord now) = iteration_order ord"
| "dl_ok _ = True"

fun pushed :: "dl_op \<Rightarrow> block_hash list" where
  "pushed (DlPush hs) = hs"
| "pushed _ = []"

definition dl_windows :: "downloader \<Rightarrow> nat \<times> nat" where
  "dl_windows d = (global_window d, per_peer_window d)"

lemma poll_loop_windows: "dl_windows (snd (poll_loop clk k addr out d)) = dl_windows d"
proof (induction "length (queue d)" arbitrary: k out d)
  case 0
  then show ?case by (subst poll_loop_eq) (simp add: can_assign_def)
next
  case (Suc n)
  have "n = length (queue (assign_one (clk k) addr d))" using Suc(2) by (simp add: assign_one_def)
  from Suc(1) [OF this] show ?case by (subst poll_loop_eq) (simp add: dl_windows_def assign_one_fields)
qed

lemma dl_step_windows: "dl_windows (dl_step op d) = dl_windows d"
proof (cases op)
  case (DlPoll clk addr)
  then show ?thesis by (simp add: poll_assign_def poll_loop_windows)
qed (auto simp: push_many_eq dl_windows_def complete_def requeue_timeouts_def reassign_timeouts_eq fold_push_one
    split: option.splits)

lemma dl_step_invar: "dl_ok op \<Longrightarrow> dl_invar d \<Longrightarrow> dl_invar (dl_step op d)"
  by (cases op) (simp_all add: invar_intros)

interpretation dl_machine: invariant_machine "downloader_new gw pw" dl_step dl_ok
  "\<lambda>d. dl_invar d \<and> dl_windows d = (gw, pw)" for gw pw
  using dl_invar_new
  by unfold_locales (simp_all add: dl_step_windows dl_step_invar, simp add: downloader_new_def dl_windows_def)

abbreviation dl_run :: "nat \<Rightarrow> nat \<Rightarrow> dl_op list \<Rightarrow> downloader" where
  "dl_run gw pw ops \<equiv> fold dl_step ops (downloader_new gw pw)"

subsection \<open>A sample run\<close>

text \<open>Six blocks are queued, one peer takes four of them, a second peer the others,
  two arrive and one times out.\<close>

abbreviation peer_a :: socket_addr where "peer_a \<equiv> SocketAddrV4 1 8333"
abbreviation peer_b :: socket_addr where "peer_b \<equiv> SocketAddrV4 2 8333"

definition sample_run :: "dl_op list" where
  "sample_run =
     [DlPush [1, 2, 3, 4, 5, 6], DlPoll (\<lambda>_. 0) peer_a, DlPoll (\<lambda>_. 10) peer_b,
      DlComplete 1, DlComplete 5]"

lemma sample_run_ok: "list_all dl_ok sample_run" "distinct (concat (map pushed sample_run))"
  by (simp_all add: sample_run_def)

lemmas dl_exec = poll_assign_def poll_loop.simps push_many_eq complete_def downloader_new_def hm_count_def
  hm_bump_def hm_remove_def hm_modify_def

lemma sample_run_result:
  "dl_run 16 4 sample_run =
     \<lparr>inflight = [(2, peer_a, 120000000000), (3, peer_a, 120000000000), (4, peer_a, 120000000000),
                  (6, peer_b, 120000000010)],
      per_peer = [(peer_a, 3), (peer_b, 1)], global_window = 16, per_peer_window = 4, queue = [],
      total_blocks = 6, downloaded_blocks = 2\<rparr>"
  by (simp add: sample_run_def dl_exec blk_timeout_def from_secs_def)

text \<open>C11. The download windows are never exceeded: whatever is pushed, polled,
  completed or timed out, at most \<open>gw\<close> blocks are in flight, at most \<open>pw\<close> with any
  one peer, and completed, in-flight and queued blocks never outnumber the blocks
  that were queued.\<close>

theorem download_windows_respected:
  assumes "list_all dl_ok ops" and "d = dl_run gw pw ops"
  shows "length (inflight d) \<le> gw \<and> slots d a \<le> hm_count (per_peer d) a \<and> hm_count (per_peer d) a \<le> pw \<and>
    downloaded_blocks d + length (inflight d) + length (queue d) \<le> total_blocks d"
  using dl_machine.invar_reachable [OF assms(1), of gw pw] assms(2)
  by (auto simp: dl_invar_def dl_windows_def)

theorem download_windows_respected_witness:
  "length (inflight (dl_run 16 4 sample_run)) = 4 \<and> slots (dl_run 16 4 sample_run) peer_a \<le> 4"
  using download_windows_respected [OF sample_run_ok(1) refl, of 16 4 peer_a]
  by (simp add: sample_run_result)

lemma dl_run_pending:
  assumes "list_all dl_ok ops" and "d = dl_run gw pw ops"
  shows "set (concat (map pushed ops)) - {h. DlComplete h \<in> set ops} \<subseteq> pending d \<and>
    pending d \<subseteq> set (concat (map pushed ops))"
  using assms
proof (induction ops arbitrary: d rule: rev_induct)
  case Nil
  then show ?case by (simp add: pending_def downloader_new_def)
next
  case (snoc op ops)
  let ?d = "dl_run gw pw ops"
  have inv: "dl_invar ?d" using dl_machine.invar_reachable [of ops gw pw] snoc.prems(1) by simp
  then have wf: "hm_wf (inflight ?d)" by (simp add: dl_invar_def)
  have IH: "set (concat (map pushed ops)) - {h. DlComplete h \<in> set ops} \<subseteq> pending ?d"
    "pending ?d \<subseteq> set (concat (map pushed ops))"
    using snoc by simp_all
  show ?case
  proof (cases op)
    case (DlComplete h)
    with IH pending_complete(1) [of ?d h] pending_complete(2) [of h ?d] snoc.prems(2) show ?thesis by auto
  qed (use IH snoc.prems pending_requeue [OF wf] in auto)
qed

text \<open>C10. No block is lost: every pushed hash stays queued or in flight until its block
  arrives, through assignments and timeouts, and nothing else is ever pending.\<close>

theorem download_no_block_lost:
  assumes "list_all dl_ok ops" and "d = dl_run gw pw ops"
  shows "set (concat (map pushed ops)) - {h. DlComplete h \<in> set ops} \<subseteq> pending d \<and>
    pending d \<subseteq> set (concat (map pushed ops))"
  using assms by (rule dl_run_pending)

theorem download_no_block_lost_witness:
  "pending (dl_run 16 4 sample_run) = {2, 3, 4, 6} \<and>
   set (concat (map pushed sample_run)) - {h. DlComplete h \<in> set sample_run} = {2, 3, 4, 6}"
proof -
  have "set (concat (map pushed sample_run)) - {h. DlComplete h \<in> set sample_run} = {2, 3, 4, 6}"
    by (auto simp: sample_run_def)
  moreover have "pending (dl_run 16 4 sample_run) = {2, 3, 4, 6}"
    by (auto simp: sample_run_result pending_def split: if_splits)
  ultimately show ?thesis using download_no_block_lost [OF sample_run_ok(1) refl, of 16 4] by simp
qed

section \<open>Exact accounting without duplicates\<close>

lemma dl_distinct_assign_one:
  assumes "hm_wf (inflight d)" and "dl_distinct d" and "queue d \<noteq> []"
  shows "dl_distinct (assign_one t addr d)"
proof -
  obtain h q where q: "queue d = h # q" using assms(3) by (cases "queue d") auto
  with assms(2) have "hm_get (inflight d) (hd (queue d)) = None" by (auto simp: dl_distinct_def dom_def)
  with assign_one_slots(2) [OF assms(1) this] assms(2) q show ?thesis
    by (auto simp: dl_distinct_def assign_one_fields)
qed

lemma poll_loop_prefix:
  assumes "hm_wf (inflight d)" and "dl_distinct d"
    and "n = min (length (queue d)) (min (global_window d - length (inflight d)) (per_peer_window d - hm_count (per_peer d) addr))"
  shows "fst (poll_loop clk k addr out d) = out @ take n (queue d) \<and>
    queue (snd (poll_loop clk k addr out d)) = drop n (queue d) \<and>
    dl_distinct (snd (poll_loop clk k addr out d)) \<and> hm_wf (inflight (snd (poll_loop clk k addr out d))) \<and>
    length (inflight (snd (poll_loop clk k addr out d))) = length (inflight d) + n"
  using assms
proof (induction n arbitrary: k out d)
  case 0
  then have "\<not> can_assign addr d" by (auto simp: can_assign_def min_def split: if_splits)
  with 0 show ?case by (subst (1 2 3 4 5) poll_loop_eq) simp
next
  case (Suc n)
  let ?d = "assign_one (clk k) addr d"
  have can: "can_assign addr d" using Suc.prems(3) by (auto simp: can_assign_def)
  then obtain h q where q: "queue d = h # q" by (cases "queue d") (auto simp: can_assign_def)
  with Suc.prems(2) have fresh: "hm_get (inflight d) (hd (queue d)) = None" by (auto simp: dl_distinct_def dom_def)
  have len: "length (inflight ?d) = Suc (length (inflight d))"
    using fresh by (simp add: assign_one_def hm_insert_fresh)
  have "n = min (length (queue ?d)) (min (global_window ?d - length (inflight ?d)) (per_peer_window ?d - hm_count (per_peer ?d) addr))"
    using Suc.prems(3) q len by (simp add: assign_one_fields) linarith
  from Suc.IH [OF _ dl_distinct_assign_one [OF Suc.prems(1,2)] this, of "k + 1" "out @ [h]"] Suc.prems(1) q can len show ?case
    by (subst (1 2 3 4 5) poll_loop_eq) (simp add: assign_one_fields)
qed

lemma dl_distinct_push_many:
  "dl_distinct d \<Longrightarrow> distinct hs \<Longrightarrow> set hs \<inter> pending d = {} \<Longrightarrow> dl_distinct (push_many hs d)"
  by (auto simp: dl_distinct_def push_many_eq pending_def)

lemma dl_distinct_complete:
  assumes "hm_wf (inflight d)" and "dl_distinct d"
  shows "dl_distinct (complete h d)"
proof (cases "hm_get (inflight d) h")
  case None
  with assms show ?thesis by (simp add: complete_def)
next
  case (Some v)
  obtain addr dl where v: "v = (addr, dl)" by (cases v)
  let ?d = "complete h d"
  have infl: "inflight ?d = hm_remove h (inflight d)" and q: "queue ?d = queue d"
    using Some v by (simp_all add: complete_def)
  have "hm_count (per_peer ?d) a = slots ?d a" for a
  proof -
    have "hm_count (per_peer ?d) a = hm_count (per_peer d) a - of_bool (a = addr)"
      using Some v by (auto simp: complete_def hm_count_modify)
    with slots_remove [OF assms(1) Some [unfolded v] infl, of a] assms(2) show ?thesis
      by (simp add: dl_distinct_def)
  qed
  with assms(2) infl q show ?thesis by (auto simp: dl_distinct_def hm_simps)
qed

lemma dl_distinct_requeue:
  assumes "dl_invar d" and "iteration_order ord" and "dl_distinct d"
  shows "dl_distinct (requeue_timeouts ord now d)"
proof -
  obtain expired d' where r: "reassign_timeouts ord now d = (expired, d')" by (cases "reassign_timeouts ord now d")
  have wf: "hm_wf (inflight d)" using assms(1) by (simp add: dl_invar_def)
  note infl = reassign_timeouts_inflight [OF wf assms(2) r]
  have q: "queue d' = queue d" using r by (auto simp: reassign_timeouts_eq)
  have "hm_count (per_peer d') a = slots d' a" for a
  proof -
    have "hm_count (per_peer d) a = slots d a" using assms(3) by (simp add: dl_distinct_def)
    with reassign_timeouts_counts [OF assms(1,2) r, of a] show ?thesis by auto
  qed
  then have "dl_distinct d'"
    using assms(3) q infl(1) unfolding dl_distinct_def by (fastforce simp: dom_def split: option.splits if_splits)
  moreover have "set expired \<inter> pending d' = {}"
    using assms(3) q infl(1,2) unfolding dl_distinct_def pending_def by (fastforce simp: dom_def)
  ultimately show ?thesis
    using infl(4) by (simp add: requeue_timeouts_def r fold_push_one dl_distinct_push_many)
qed

definition dl_balance :: "downloader \<Rightarrow> bool" where
  "dl_balance d \<longleftrightarrow> downloaded_blocks d + length (inflight d) + length (queue d) = total_blocks d"

lemma poll_loop_totals:
  "total_blocks (snd (poll_loop clk k addr out d)) = total_blocks d \<and>
   downloaded_blocks (snd (poll_loop clk k addr out d)) = downloaded_blocks d"
proof (induction "length (queue d)" arbitrary: k out d)
  case 0
  then show ?case by (subst (1 2) poll_loop_eq) (simp add: can_assign_def)
next
  case (Suc n)
  have "n = length (queue (assign_one (clk k) addr d))" using Suc(2) by (simp add: assign_one_def)
  from Suc(1) [OF this] show ?case by (subst (1 2) poll_loop_eq) (simp add: assign_one_fields)
qed

lemma poll_assign_exact:
  assumes "hm_wf (inflight d)" and "dl_distinct d"
  shows "dl_distinct (snd (poll_assign clk addr d)) \<and> (dl_balance d \<longrightarrow> dl_balance (snd (poll_assign clk addr d)))"
  using poll_loop_prefix [OF assms refl, of clk 0 addr "[]"] poll_loop_totals [of clk 0 addr "[]" d]
  by (simp add: poll_assign_def dl_balance_def)

lemma dl_step_exact:
  assumes "dl_ok op" and "dl_invar d" and "dl_distinct d" and "distinct (pushed op)"
    and "set (pushed op) \<inter> pending d = {}"
  shows "dl_distinct (dl_step op d)"
    and "dl_balance d \<Longrightarrow> \<forall>ord now. DlTimeouts ord now \<noteq> op \<Longrightarrow> dl_balance (dl_step op d)"
proof -
  have wf: "hm_wf (inflight d)" using assms(2) by (simp add: dl_invar_def)
  show "dl_distinct (dl_step op d)"
    using assms dl_distinct_push_many dl_distinct_complete [OF wf] dl_distinct_requeue poll_assign_exact [OF wf]
    by (cases op) simp_all
  show "dl_balance (dl_step op d)" if "dl_balance d" "\<forall>ord now. DlTimeouts ord now \<noteq> op"
    using that poll_assign_exact [OF wf assms(3)] hm_length_remove [OF wf]
    by (cases op) (auto simp: dl_balance_def push_many_eq complete_def split: option.splits)
qed

text \<open>A poll hands out the longest prefix of the queue that fits both windows, moves
  exactly those hashes from the queue into flight, and leaves the rest queued in
  order.\<close>

theorem poll_assign_longest_prefix:
  assumes "dl_invar d" and "dl_distinct d"
    and "n = min (length (queue d)) (min (global_window d - length (inflight d)) (per_peer_window d - slots d addr))"
    and "poll_assign clk addr d = (out, d')"
  shows "out = take n (queue d) \<and> queue d' = drop n (queue d) \<and>
    length (inflight d') = length (inflight d) + n \<and> pending d' = pending d"
proof -
  have wf: "hm_wf (inflight d)" and "hm_count (per_peer d) addr = slots d addr"
    using assms(1,2) by (simp_all add: dl_invar_def dl_distinct_def)
  with poll_loop_prefix [OF wf assms(2), of n addr clk 0 "[]"] assms(3,4)
    pending_poll_assign [of clk addr d] show ?thesis
    by (simp add: poll_assign_def)
qed

theorem poll_assign_longest_prefix_witness:
  "\<exists>d'. poll_assign (\<lambda>_. 0) peer_a (push_many [1, 2, 3, 4, 5, 6] (downloader_new 16 4)) = ([1, 2, 3, 4], d') \<and>
     queue d' = [5, 6]"
proof -
  let ?d = "push_many [1, 2, 3, 4, 5, 6] (downloader_new 16 4)"
  have "dl_invar ?d" by (simp add: invar_intros)
  moreover have "dl_distinct ?d"
    by (simp add: push_many_eq downloader_new_def dl_distinct_def slots_def)
  ultimately have "fst (poll_assign (\<lambda>_. 0) peer_a ?d) = [1, 2, 3, 4] \<and>
      queue (snd (poll_assign (\<lambda>_. 0) peer_a ?d)) = [5, 6]"
    using poll_assign_longest_prefix [OF _ _ refl prod.collapse [symmetric], of ?d "\<lambda>_. 0" peer_a]
    by (simp add: push_many_eq downloader_new_def slots_def)
  then show ?thesis by (metis prod.collapse)
qed



section \<open>Where the code departs from its intent\<close>

text \<open>The manager pushes every announced hash it has a header for, also one already in
  flight.  A second peer then takes the hash over and the first peer's counter is
  never given back: with its window full it gets no block again, although
  nothing is in flight.\<close>

definition reannounced_run :: "dl_op list" where
  "reannounced_run =
     [DlPush [1, 2, 3, 4], DlPoll (\<lambda>_. 0) peer_a, DlPush [1, 2, 3, 4], DlPoll (\<lambda>_. 0) peer_b,
      DlComplete 1, DlComplete 2, DlComplete 3, DlComplete 4, DlPush [5]]"

lemma reannounced_blocks_leak_slots:
  "inflight (dl_run 16 4 reannounced_run) = [] \<and> queue (dl_run 16 4 reannounced_run) = [5] \<and>
   fst (poll_assign (\<lambda>_. 0) peer_a (dl_run 16 4 reannounced_run)) = []"
proof -
  have "dl_run 16 4 reannounced_run =
      \<lparr>inflight = [], per_peer = [(peer_a, 4), (peer_b, 0)], global_window = 16, per_peer_window = 4,
       queue = [5], total_blocks = 9, downloaded_blocks = 4\<rparr>"
    by (simp add: reannounced_run_def dl_exec)
  then show ?thesis by (simp add: poll_assign_def poll_loop.simps hm_count_def)
qed

text \<open>A block that times out is counted again in the total, which the completed blocks
  then never reach.\<close>

lemma timeouts_inflate_total:
  "get_progress (dl_run 16 4 [DlPush [1], DlPoll (\<lambda>_. 0) peer_a, DlTimeouts (\<lambda>xs. xs) (10 ^ 12),
     DlPoll (\<lambda>_. 0) peer_b, DlComplete 1]) = (1, 2)"
  by (simp add: dl_exec get_progress_def requeue_timeouts_def reassign_timeouts_def blk_timeout_def
      from_secs_def)

end
