(* ===== verification/Header_Sync.thy ===== *)
theory Header_Sync
  imports Peer_Handshake Chain_Params Downloader "HOL-Library.Sublist"
begin

text \<open>
  The header chain of \<open>PeerManager\<close> (\<^verbatim>\<open>src/p2p/legacy.rs\<close>): its start from the
  header file, the block locator, the extension by received headers with the
  checkpoint test, the switch from header sync to block download.

  \<open>H\<close> holds the bitcoin crate's functions on headers.  The header file is part of
  the state; \<open>disk_ok k\<close> says whether the append for the \<open>k\<close>-th header of a batch
  succeeds.  Messages handed to a peer's stream after its handshake are appended to
  \<open>outbox\<close>; the code ignores the result of those writes.  \<open>block_tx\<close> and \<open>on_tx\<close> hold
  what has been passed to the block channel and to the transaction callback, when
  set.
\<close>

section \<open>State\<close>

record header_api =
  block_hash_of :: "block_header \<Rightarrow> block_hash"
  encode_header :: "block_header \<Rightarrow> u8 list"
  decode_header :: "u8 list \<Rightarrow> block_header option"
  genesis_hash :: "network \<Rightarrow> block_hash"
  parse_hash :: hash_parse
  service_network_witness :: u64
  service_witness :: u64
  has_network :: "u64 \<Rightarrow> bool"

datatype disk_file = NoFile | Unreadable | FileBytes "u8 list"

record peer_manager =
  pm_net :: network
  peers :: "(socket_addr, peer) hmap"
  pm_downloader :: downloader
  prev_map :: "(block_hash, block_hash) hmap"
  have_header :: "block_hash hset"
  best_header_tip :: block_hash
  recent_chain :: "block_hash list"
  last_locator :: "block_hash list"
  pm_start_height :: i32
  headers_synced :: bool
  peer_heights :: "(socket_addr, i32) hmap"
  best_known_height :: i32
  header_chain_height :: i32
  header_chain :: "block_header list"
  sync_peer :: "socket_addr option"
  pm_chain_params :: chain_params
  on_tx :: "transaction list option"
  block_tx :: "(block_hash \<times> u8 list) list option"
  headers_file :: disk_file
  outbox :: "(socket_addr \<times> network_message) list"

definition global_inflight :: nat where "global_inflight = 16"
definition per_peer_inflight :: nat where "per_peer_inflight = 4"

section \<open>The header file\<close>

definition get_headers_file_path :: "network \<Rightarrow> string" where
  "get_headers_file_path net =
     (case net of
        Bitcoin \<Rightarrow> ''headers_mainnet.dat''
      | Testnet \<Rightarrow> ''headers_testnet.dat''
      | Signet \<Rightarrow> ''headers_signet.dat''
      | Regtest \<Rightarrow> ''headers_regtest.dat''
      | _ \<Rightarrow> ''headers_unknown.dat'')"

text \<open>The files of a directory, with the one a manager has written put back.\<close>

type_synonym directory = "string \<Rightarrow> disk_file"

definition headers_written :: "peer_manager \<Rightarrow> directory \<Rightarrow> directory" where
  "headers_written m dir = dir(get_headers_file_path (pm_net m) := headers_file m)"

lemma headers_files_separate:
  "headers_written m dir (get_headers_file_path net) = (if net = pm_net m then headers_file m else dir (get_headers_file_path net))"
  by (cases net; cases "pm_net m") (simp_all add: headers_written_def get_headers_file_path_def)

datatype load_error = OpenFailed | BadHeader

function read_headers :: "header_api \<Rightarrow> block_header list \<Rightarrow> u8 list \<Rightarrow> load_error + block_header list" where
  "read_headers H headers bytes =
     (if length bytes < 80 then Inr headers
      else case decode_header H (take 80 bytes) of
             None \<Rightarrow> Inl BadHeader
           | Some header \<Rightarrow> read_headers H (headers @ [header]) (drop 80 bytes))"
  by pat_completeness auto
termination
  by (relation "measure (\<lambda>(H, headers, bytes). length bytes)") auto

declare read_headers.simps [simp del]

fun load_headers_from_disk :: "header_api \<Rightarrow> disk_file \<Rightarrow> load_error + block_header list" where
  "load_headers_from_disk H NoFile = Inr []"
| "load_headers_from_disk H Unreadable = Inl OpenFailed"
| "load_headers_from_disk H (FileBytes bytes) = read_headers H [] bytes"

definition save_headers_to_disk :: "header_api \<Rightarrow> peer_manager \<Rightarrow> peer_manager" where
  "save_headers_to_disk H m =
     m\<lparr>headers_file := FileBytes (concat (map (encode_header H) (header_chain m)))\<rparr>"

fun append_bytes :: "u8 list \<Rightarrow> disk_file \<Rightarrow> disk_file" where
  "append_bytes bs NoFile = FileBytes bs"
| "append_bytes bs (FileBytes old) = FileBytes (old @ bs)"
| "append_bytes bs Unreadable = Unreadable"

definition append_header_to_disk :: "header_api \<Rightarrow> bool \<Rightarrow> block_header \<Rightarrow> peer_manager \<Rightarrow> peer_manager" where
  "append_header_to_disk H write_ok hh m =
     (if write_ok then m\<lparr>headers_file := append_bytes (encode_header H hh) (headers_file m)\<rparr> else m)"

section \<open>Start\<close>

definition skip_count :: "i32 \<Rightarrow> nat" where
  "skip_count start_height = unat ((scast start_height :: usize) + 1)"

definition with_start_height :: "header_api \<Rightarrow> network \<Rightarrow> i32 \<Rightarrow> disk_file \<Rightarrow> peer_manager" where
  "with_start_height H net start_height file =
     (let g = genesis_hash H net;
          loaded = (case load_headers_from_disk H file of Inl _ \<Rightarrow> [] | Inr hs \<Rightarrow> hs);
          hashes = map (block_hash_of H) loaded;
          chain = g # hashes;
          d0 = downloader_new global_inflight per_peer_inflight;
          blocks_to_download = drop (skip_count start_height) chain
      in \<lparr>pm_net = net, peers = [],
          pm_downloader = (if loaded = [] then d0
            else if blocks_to_download = [] then d0 else push_many blocks_to_download d0),
          prev_map = fold (\<lambda>hh. hm_insert (block_hash_of H hh) (prev_blockhash hh)) loaded [],
          have_header = fold hs_insert hashes [g],
          best_header_tip = last chain, recent_chain = chain, last_locator = [g],
          pm_start_height = start_height, headers_synced = (loaded \<noteq> []),
          peer_heights = [], best_known_height = 0, header_chain_height = of_nat (length loaded),
          header_chain = loaded, sync_peer = None, pm_chain_params = for_network (parse_hash H) net,
          on_tx = None, block_tx = None, headers_file = file, outbox = []\<rparr>)"

definition peer_manager_new :: "header_api \<Rightarrow> network \<Rightarrow> disk_file \<Rightarrow> peer_manager" where
  "peer_manager_new H net file = with_start_height H net 0 file"

definition with_block_processor :: "peer_manager \<Rightarrow> peer_manager" where
  "with_block_processor m = m\<lparr>block_tx := Some []\<rparr>"

definition with_tx_processor :: "peer_manager \<Rightarrow> peer_manager" where
  "with_tx_processor m = m\<lparr>on_tx := Some []\<rparr>"

definition peers_len :: "peer_manager \<Rightarrow> nat" where
  "peers_len m = length (peers m)"

section \<open>The locator\<close>

function locator_loop ::
  "block_hash list \<Rightarrow> block_hash list \<Rightarrow> nat \<Rightarrow> nat \<Rightarrow> block_hash list option" where
  "locator_loop chain loc step idx =
     (if length loc < 32
      then case rust_index chain idx of
             None \<Rightarrow> None
           | Some h \<Rightarrow>
               let loc' = loc @ [h] in
               if idx = 0 then Some loc'
               else let step' = (if length loc' \<ge> 10 then step * 2 else step)
                    in locator_loop chain loc' step' (idx - step')
      else Some loc)"
  by pat_completeness auto
termination
  by (relation "measure (\<lambda>(chain, loc, step, idx). 32 - length loc)") auto

declare locator_loop.simps [simp del]

definition build_locator :: "peer_manager \<Rightarrow> block_hash list option" where
  "build_locator m =
     do { loc \<leftarrow> locator_loop (recent_chain m) [] 1 (length (recent_chain m) - 1);
          l \<leftarrow> (if loc = [] then None else Some (last loc));
          g \<leftarrow> rust_index (recent_chain m) 0;
          Some (if l \<noteq> g then loc @ [g] else loc) }"

definition send_to :: "socket_addr \<Rightarrow> network_message \<Rightarrow> peer_manager \<Rightarrow> peer_manager" where
  "send_to a msg m = (if hm_contains (peers m) a then m\<lparr>outbox := outbox m @ [(a, msg)]\<rparr> else m)"

definition request_headers :: "socket_addr \<Rightarrow> peer_manager \<Rightarrow> peer_manager option" where
  "request_headers to m =
     (if \<not> hm_contains (peers m) to then Some m
      else do { loc \<leftarrow> build_locator m;
                Some (send_to to (GetHeaders advertised_proto loc 0) (m\<lparr>last_locator := loc\<rparr>)) })"

section \<open>Extension\<close>

text \<open>The fields one accepted header changes.\<close>

definition add_header :: "header_api \<Rightarrow> bool \<Rightarrow> block_header \<Rightarrow> peer_manager \<Rightarrow> peer_manager" where
  "add_header H write_ok hh m =
     (let h = block_hash_of H hh in
      append_header_to_disk H write_ok hh
        (m\<lparr>prev_map := hm_insert h (prev_blockhash hh) (prev_map m),
           have_header := hs_insert h (have_header m),
           recent_chain := recent_chain m @ [h],
           header_chain := header_chain m @ [hh],
           header_chain_height := header_chain_height m + 1\<rparr>))"

fun extend_loop ::
  "header_api \<Rightarrow> (nat \<Rightarrow> bool) \<Rightarrow> nat \<Rightarrow> block_header list \<Rightarrow> block_hash \<Rightarrow> nat \<Rightarrow> peer_manager \<Rightarrow>
   nat \<times> peer_manager" where
  "extend_loop H disk_ok idx [] processing_tip added m = (added, m)"
| "extend_loop H disk_ok idx (hh # hhs) processing_tip added m =
     (let h = block_hash_of H hh in
      if h \<in> set (have_header m) then extend_loop H disk_ok (idx + 1) hhs h added m
      else if prev_blockhash hh \<noteq> processing_tip then (added, m)
      else
        let next_height = header_chain_height m + 1 in
        (case get_checkpoint (parse_hash H) next_height (pm_chain_params m) of
           Some cp \<Rightarrow>
             if h \<noteq> cp then (added, m)
             else extend_loop H disk_ok (idx + 1) hhs h (added + 1) (add_header H (disk_ok idx) hh m)
         | None \<Rightarrow> extend_loop H disk_ok (idx + 1) hhs h (added + 1) (add_header H (disk_ok idx) hh m)))"

definition extend_headers ::
  "header_api \<Rightarrow> (nat \<Rightarrow> bool) \<Rightarrow> block_header list \<Rightarrow> peer_manager \<Rightarrow> (nat \<times> peer_manager) option" where
  "extend_headers H disk_ok new_headers m =
     (if new_headers = [] then Some (0, m)
      else if recent_chain m = [] then None
      else let (added, m') = extend_loop H disk_ok 0 new_headers (last (recent_chain m)) 0 m
           in Some (added, m'\<lparr>best_header_tip := last (recent_chain m')\<rparr>))"

section \<open>The end of header sync\<close>

definition queue_blocks_from_headers :: "peer_manager \<Rightarrow> peer_manager" where
  "queue_blocks_from_headers m =
     (let blocks_to_download = drop (skip_count (pm_start_height m)) (recent_chain m)
      in if blocks_to_download = [] then m
         else m\<lparr>pm_downloader := push_many blocks_to_download (pm_downloader m)\<rparr>)"

definition check_headers_sync_complete :: "peer_manager \<Rightarrow> peer_manager" where
  "check_headers_sync_complete m =
     (if headers_synced m then m
      else if 0 < sint (best_known_height m) \<and>
              sint (best_known_height m - 144) \<le> sint (header_chain_height m)
           then queue_blocks_from_headers (m\<lparr>headers_synced := True\<rparr>)
           else m)"

definition respond_getheaders :: "socket_addr \<Rightarrow> peer_manager \<Rightarrow> peer_manager" where
  "respond_getheaders a m = send_to a (Headers []) m"

section \<open>The chain invariant\<close>

definition checkpoint_ok :: "header_api \<Rightarrow> peer_manager \<Rightarrow> nat \<Rightarrow> block_hash \<Rightarrow> bool" where
  "checkpoint_ok H m k h \<longleftrightarrow>
     (case get_checkpoint (parse_hash H) (of_nat k) (pm_chain_params m) of None \<Rightarrow> True | Some cp \<Rightarrow> h = cp)"

text \<open>The views of the chain agree: hashes, headers, height, tip and known set.\<close>

definition chain_views :: "header_api \<Rightarrow> peer_manager \<Rightarrow> bool" where
  "chain_views H m \<longleftrightarrow>
     recent_chain m = genesis_hash H (pm_net m) # map (block_hash_of H) (header_chain m) \<and>
     header_chain_height m = of_nat (length (header_chain m)) \<and>
     set (have_header m) = set (recent_chain m) \<and>
     dom (hm_get (prev_map m)) = block_hash_of H ` set (header_chain m) \<and>
     pm_chain_params m = for_network (parse_hash H) (pm_net m)"

text \<open>What the extension adds on top: no hash twice, every header connects to a header
  stored before it, every checkpoint height holds the checkpoint's hash.\<close>

definition chain_checked :: "header_api \<Rightarrow> peer_manager \<Rightarrow> bool" where
  "chain_checked H m \<longleftrightarrow> distinct (recent_chain m) \<and>
     (\<forall>k < length (header_chain m). prev_blockhash (header_chain m ! k) \<in> set (take (Suc k) (recent_chain m))) \<and>
     (\<forall>k < length (recent_chain m). 0 < k \<longrightarrow> checkpoint_ok H m k (recent_chain m ! k))"

text \<open>The file holds the encoding of the chain.\<close>

definition file_in_step :: "header_api \<Rightarrow> peer_manager \<Rightarrow> bool" where
  "file_in_step H m \<longleftrightarrow>
     headers_file m = FileBytes (concat (map (encode_header H) (header_chain m))) \<or>
     headers_file m = NoFile \<and> header_chain m = []"

lemma add_header_fields:
  "recent_chain (add_header H ok hh m) = recent_chain m @ [block_hash_of H hh]"
  "header_chain (add_header H ok hh m) = header_chain m @ [hh]"
  "header_chain_height (add_header H ok hh m) = header_chain_height m + 1"
  "have_header (add_header H ok hh m) = hs_insert (block_hash_of H hh) (have_header m)"
  "prev_map (add_header H ok hh m) = hm_insert (block_hash_of H hh) (prev_blockhash hh) (prev_map m)"
  "pm_net (add_header H ok hh m) = pm_net m" "pm_chain_params (add_header H ok hh m) = pm_chain_params m"
  "headers_file (add_header H ok hh m) =
     (if ok then append_bytes (encode_header H hh) (headers_file m) else headers_file m)"
  by (simp_all add: add_header_def append_header_to_disk_def Let_def)

text \<open>Induction over a batch: a property kept by every accepted header survives it.\<close>

lemma extend_loop_keeps:
  assumes step: "\<And>k hh m. P m \<Longrightarrow> prev_blockhash hh \<in> set (have_header m) \<Longrightarrow>
      block_hash_of H hh \<notin> set (have_header m) \<Longrightarrow>
      (case get_checkpoint (parse_hash H) (header_chain_height m + 1) (pm_chain_params m) of
         None \<Rightarrow> True | Some cp \<Rightarrow> block_hash_of H hh = cp) \<Longrightarrow>
      P (add_header H (disk_ok k) hh m)"
    and "P m" and "tip \<in> set (have_header m)"
  shows "P (snd (extend_loop H disk_ok idx hhs tip added m))"
  using assms(2,3)
proof (induction hhs arbitrary: idx tip added m)
  case Nil
  then show ?case by simp
next
  case (Cons hh hhs)
  let ?m = "\<lambda>k. add_header H (disk_ok k) hh m"
  have go: "block_hash_of H hh \<in> set (have_header (?m k))" for k by (simp add: add_header_fields)
  show ?case
    using Cons.prems step [of m hh idx] Cons.IH [OF _ go] Cons.IH [OF Cons.prems(1)]
    by (auto simp: Let_def split: option.splits)
qed

lemma chain_views_add:
  "chain_views H m \<Longrightarrow> chain_views H (add_header H ok hh m)"
  by (auto simp: chain_views_def add_header_fields hm_simps)

lemma chain_checked_add:
  assumes "chain_views H m" and "chain_checked H m" and "prev_blockhash hh \<in> set (have_header m)"
    and "block_hash_of H hh \<notin> set (have_header m)"
    and "case get_checkpoint (parse_hash H) (header_chain_height m + 1) (pm_chain_params m) of
         None \<Rightarrow> True | Some cp \<Rightarrow> block_hash_of H hh = cp"
  shows "chain_checked H (add_header H ok hh m)"
proof -
  have len: "length (recent_chain m) = Suc (length (header_chain m))" using assms(1) by (simp add: chain_views_def)
  have hv: "set (have_header m) = set (recent_chain m)" using assms(1) by (simp add: chain_views_def)
  have "prev_blockhash ((header_chain m @ [hh]) ! k) \<in> set (take (Suc k) (recent_chain m @ [block_hash_of H hh]))"
    if "k < Suc (length (header_chain m))" for k
    using that assms(2,3) len hv by (cases "k < length (header_chain m)") (auto simp: chain_checked_def nth_append less_Suc_eq)
  moreover have "checkpoint_ok H m k ((recent_chain m @ [block_hash_of H hh]) ! k)"
    if "k < Suc (length (recent_chain m))" "0 < k" for k
  proof (cases "k < length (recent_chain m)")
    case True
    with that assms(2) show ?thesis by (simp add: chain_checked_def nth_append)
  next
    case False
    with that have "k = length (recent_chain m)" by simp
    with assms(1,5) len show ?thesis
      by (simp add: checkpoint_ok_def chain_views_def add.commute nth_append)
  qed
  moreover have "distinct (recent_chain m @ [block_hash_of H hh])" using assms(2,4) hv by (simp add: chain_checked_def)
  ultimately show ?thesis
    unfolding chain_checked_def add_header_fields length_append checkpoint_ok_def by simp
qed

lemma file_in_step_add: "file_in_step H m \<Longrightarrow> file_in_step H (add_header H True hh m)"
  by (auto simp: file_in_step_def add_header_fields)

lemma extend_headers_cases:
  assumes "extend_headers H disk_ok hhs m = Some (n, m')"
  obtains (none) "hhs = []" "m' = m"
  | (loop) m1 where "extend_loop H disk_ok 0 hhs (last (recent_chain m)) 0 m = (n, m1)"
      "m' = m1\<lparr>best_header_tip := last (recent_chain m1)\<rparr>" "recent_chain m \<noteq> []"
  using assms by (auto simp: extend_headers_def split: if_splits prod.splits)

lemma extend_headers_keeps:
  assumes ext: "extend_headers H disk_ok hhs m = Some (n, m')" and v: "chain_views H m" and "P m"
    and step: "\<And>k hh m. chain_views H m \<Longrightarrow> P m \<Longrightarrow> prev_blockhash hh \<in> set (have_header m) \<Longrightarrow>
      block_hash_of H hh \<notin> set (have_header m) \<Longrightarrow>
      (case get_checkpoint (parse_hash H) (header_chain_height m + 1) (pm_chain_params m) of
         None \<Rightarrow> True | Some cp \<Rightarrow> block_hash_of H hh = cp) \<Longrightarrow>
      P (add_header H (disk_ok k) hh m)"
    and tip: "\<And>m h. P m \<Longrightarrow> P (m\<lparr>best_header_tip := h\<rparr>)"
  shows "chain_views H m' \<and> P m'"
  using ext
proof (cases rule: extend_headers_cases)
  case none
  with assms(2,3) show ?thesis by simp
next
  case (loop m1)
  have "last (recent_chain m) \<in> set (have_header m)" 
    using v last_in_set [OF loop(3)] by (simp add: chain_views_def del: last.simps)
  then have "chain_views H m1 \<and> P m1"
    using extend_loop_keeps [where P = "\<lambda>m. chain_views H m \<and> P m", OF _ conjI [OF v assms(3)]]
      chain_views_add step loop(1) by (metis (no_types, lifting) snd_conv)
  with tip loop(2) show ?thesis by (simp add: chain_views_def)
qed

lemma chain_views_start: "chain_views H (with_start_height H net h file)"
proof -
  have "set (fold hs_insert xs ys) = set xs \<union> set ys" for xs ys :: "block_hash list"
    by (induction xs arbitrary: ys) auto
  moreover have "dom (hm_get (fold (\<lambda>hh. hm_insert (block_hash_of H hh) (prev_blockhash hh)) xs m)) =
      block_hash_of H ` set xs \<union> dom (hm_get m)" for xs m
    by (induction xs arbitrary: m) (auto simp: hm_simps)
  ultimately show ?thesis by (auto simp: with_start_height_def chain_views_def Let_def)
qed

lemma chain_checked_fresh: "chain_checked H (with_start_height H net h NoFile)"
  by (simp add: with_start_height_def chain_checked_def Let_def)

lemma file_in_step_fresh: "file_in_step H (with_start_height H net h NoFile)"
  by (simp add: with_start_height_def file_in_step_def Let_def)

lemma chain_views_extend: "chain_views H m \<Longrightarrow> extend_headers H disk_ok hhs m = Some (n, m') \<Longrightarrow> chain_views H m'"
  using extend_headers_keeps [where P = "\<lambda>_. True"] by blast

lemma chain_checked_extend:
  assumes "chain_views H m" and "chain_checked H m" and "extend_headers H disk_ok hhs m = Some (n, m')"
  shows "chain_checked H m'"
  using extend_headers_keeps [where P = "chain_checked H", OF assms(3,1,2)] chain_checked_add
  by (simp add: chain_checked_def checkpoint_ok_def)

lemma file_in_step_extend:
  assumes "chain_views H m" and "file_in_step H m" and "extend_headers H (\<lambda>_. True) hhs m = Some (n, m')"
  shows "file_in_step H m'"
  using extend_headers_keeps [where P = "file_in_step H", OF assms(3,1,2)] file_in_step_add
  by (simp add: file_in_step_def)

lemma extend_headers_total: "chain_views H m \<Longrightarrow> \<exists>n m'. extend_headers H disk_ok hhs m = Some (n, m')"
  by (auto simp: extend_headers_def chain_views_def split: prod.splits)

section \<open>Reading the file back\<close>

text \<open>The documented behaviour of the header encoding: 80 bytes that decode to the header.\<close>

definition header_codec :: "header_api \<Rightarrow> bool" where
  "header_codec H \<longleftrightarrow> (\<forall>hh. length (encode_header H hh) = 80 \<and> decode_header H (encode_header H hh) = Some hh)"

lemma read_headers_encoded:
  assumes "header_codec H" and "length rest < 80"
  shows "read_headers H acc (concat (map (encode_header H) hhs) @ rest) = Inr (acc @ hhs)"
proof (induction hhs arbitrary: acc)
  case Nil
  with assms(2) show ?case by (simp add: read_headers.simps)
next
  case (Cons hh hhs)
  have "length (encode_header H hh) = 80" "decode_header H (encode_header H hh) = Some hh"
    using assms(1) by (simp_all add: header_codec_def)
  with Cons [of "acc @ [hh]"] show ?case by (subst read_headers.simps) simp
qed

section \<open>Locators\<close>

text \<open>The heights a locator visits from height \<open>i\<close> with \<open>n\<close> hashes already listed.\<close>

lemma locator_loop_heights:
  assumes "idx < length chain" and "0 < step" and "length loc \<le> 32"
  shows "\<exists>is. locator_loop chain loc step idx = Some (loc @ map ((!) chain) is) \<and>
     length loc + length is \<le> 32 \<and> sorted_wrt (>) is \<and> list_all (\<lambda>i. i \<le> idx) is \<and>
     (length loc < 32 \<longrightarrow> is \<noteq> [] \<and> hd is = idx)"
  using assms
proof (induction chain loc step idx rule: locator_loop.induct)
  case (1 chain loc step idx)
  show ?case
  proof (cases "length loc < 32")
    case False
    with 1(4) show ?thesis by (intro exI [of _ "[]"]) (simp add: locator_loop.simps)
  next
    case True
    show ?thesis
    proof (cases "idx = 0")
      case True
      with \<open>length loc < 32\<close> 1(2) show ?thesis
        by (intro exI [of _ "[0]"]) (simp add: locator_loop.simps)
    next
      case False
      let ?loc = "loc @ [chain ! idx]"
      let ?step = "if length ?loc \<ge> 10 then step * 2 else step"
      have "idx - ?step < length chain" "0 < ?step" "length ?loc \<le> 32" using 1(2,3) True by auto
      from 1(1) [OF True rust_index_in_range [OF 1(2)] refl False refl this]
      obtain "is" where IH: "locator_loop chain ?loc ?step (idx - ?step) = Some (?loc @ map ((!) chain) is)"
        "Suc (length loc) + length is \<le> 32" "sorted_wrt (>) is" "list_all (\<lambda>i. i \<le> idx - ?step) is"
        by auto
      have "locator_loop chain loc step idx = Some (loc @ map ((!) chain) (idx # is))"
        using True False 1(2) IH(1) by (subst locator_loop.simps) (simp add: Let_def)
      moreover have "list_all (\<lambda>i. i < idx) is"
        using IH(4) 1(3) False by (auto simp: list_all_iff split: if_splits)
      ultimately show ?thesis using IH(2,3) True
        by (intro exI [of _ "idx # is"]) (auto simp: list_all_iff)
    qed
  qed
qed

lemma build_locator_heights:
  assumes "recent_chain m \<noteq> []"
  shows "\<exists>is. build_locator m = Some (map ((!) (recent_chain m)) is) \<and> length is \<le> 33 \<and> sorted_wrt (>) is \<and>
     is \<noteq> [] \<and> hd is = length (recent_chain m) - 1 \<and> recent_chain m ! last is = hd (recent_chain m)"
proof -
  let ?c = "recent_chain m"
  from locator_loop_heights [of "length ?c - 1" ?c 1 "[]"] assms obtain "is" where
    l: "locator_loop ?c [] 1 (length ?c - 1) = Some (map ((!) ?c) is)" "length is \<le> 32" "sorted_wrt (>) is"
      "is \<noteq> []" "hd is = length ?c - 1" by auto
  have b: "build_locator m = Some (map ((!) ?c) is @ (if ?c ! last is \<noteq> ?c ! 0 then [?c ! 0] else []))"
    using assms l by (simp add: build_locator_def last_map)
  show ?thesis
  proof (cases "?c ! last is = ?c ! 0")
    case True
    with b l assms show ?thesis by (intro exI [of _ "is"]) (simp add: hd_conv_nth)
  next
    case False
    then have "0 < last is" by (metis gr0I)
    moreover have "\<forall>i \<in> set is. last is \<le> i"
      using l(3,4) by (induction "is") (auto split: if_splits simp: less_imp_le)
    ultimately have "sorted_wrt (>) (is @ [0])" using l(3) by (force simp: sorted_wrt_append)
    with b l assms False show ?thesis by (intro exI [of _ "is @ [0]"]) (simp add: hd_conv_nth [of ?c])
  qed
qed

section \<open>Properties\<close>

text \<open>C26. A locator is built without a panic, lists at most 33 hashes in strictly falling
  order of height, starts at the tip and ends with the genesis hash.\<close>

theorem locator_tip_to_genesis:
  assumes "chain_views H m"
  shows "\<exists>is. build_locator m = Some (map ((!) (recent_chain m)) is) \<and> 0 < length is \<and> length is \<le> 33 \<and>
    sorted_wrt (>) is \<and> hd is = length (header_chain m) \<and>
    recent_chain m ! last is = genesis_hash H (pm_net m)"
proof -
  have "recent_chain m \<noteq> []" "hd (recent_chain m) = genesis_hash H (pm_net m)"
    "length (recent_chain m) - 1 = length (header_chain m)"
    using assms by (simp_all add: chain_views_def)
  with build_locator_heights [of m] show ?thesis by auto
qed

subsection \<open>Sample headers\<close>

text \<open>The hash of a sample header is the number it carries; bytes are little endian.\<close>

fun bytes_of :: "nat \<Rightarrow> nat \<Rightarrow> u8 list" where
  "bytes_of 0 n = []"
| "bytes_of (Suc k) n = of_nat (n mod 256) # bytes_of k (n div 256)"

fun nat_of_bytes :: "u8 list \<Rightarrow> nat" where
  "nat_of_bytes [] = 0"
| "nat_of_bytes (b # bs) = unat b + 256 * nat_of_bytes bs"

lemma nat_of_bytes_of: "nat_of_bytes (bytes_of k n) = n mod 256 ^ k"
  by (induction k arbitrary: n) (simp_all add: mod_mult2_eq unat_of_nat take_bit_nat_def add.commute)

lemma length_bytes_of [simp]: "length (bytes_of k n) = k"
  by (induction k arbitrary: n) simp_all

definition sample_hdr :: "block_hash \<Rightarrow> 384 word \<Rightarrow> block_header" where
  "sample_hdr p n = \<lparr>prev_blockhash = p, header_rest = n\<rparr>"

definition sample_headers :: header_api where
  "sample_headers =
     \<lparr>block_hash_of = (\<lambda>hh. ucast (header_rest hh)),
      encode_header = (\<lambda>hh. bytes_of 32 (unat (prev_blockhash hh)) @ bytes_of 48 (unat (header_rest hh))),
      decode_header = (\<lambda>bs. Some \<lparr>prev_blockhash = of_nat (nat_of_bytes (take 32 bs)),
        header_rest = of_nat (nat_of_bytes (drop 32 bs))\<rparr>),
      genesis_hash = (\<lambda>_. 0), parse_hash = sample_parser,
      service_network_witness = 9, service_witness = 8, has_network = (\<lambda>s. s = 9)\<rparr>"

lemma sample_header_codec: "header_codec sample_headers"
proof -
  have "unat (w :: 256 word) mod 256 ^ 32 = unat w" for w
    using unsigned_less [of w, where ?'a = nat] by simp
  moreover have "unat (w :: 384 word) mod 256 ^ 48 = unat w" for w
    using unsigned_less [of w, where ?'a = nat] by simp
  ultimately show ?thesis by (simp add: header_codec_def sample_headers_def nat_of_bytes_of)
qed

definition sample_manager :: peer_manager where
  "sample_manager = with_start_height sample_headers Regtest 0 NoFile"

lemma sample_manager_views: "chain_views sample_headers sample_manager" "chain_checked sample_headers sample_manager"
  by (simp_all add: sample_manager_def chain_views_start chain_checked_fresh)

theorem locator_tip_to_genesis_witness:
  "\<exists>is. build_locator sample_manager = Some (map ((!) (recent_chain sample_manager)) is) \<and> length is \<le> 33 \<and>
     recent_chain sample_manager ! last is = 0"
  using locator_tip_to_genesis [OF sample_manager_views(1)]
  by (auto simp: sample_manager_def with_start_height_def Let_def sample_headers_def)

text \<open>C24. Restarting from the header file restores the chain: as long as every append
  succeeded, the headers, hashes, height and tip after a restart are those before
  it, also when a partly written header trails the file.\<close>

theorem restart_restores_chain:
  assumes "header_codec H" and "chain_views H m" and "best_header_tip m = last (recent_chain m)"
    and "file_in_step H m" and "headers_file m = FileBytes bytes" and "length trailing < 80"
    and "m' = with_start_height H (pm_net m) start (FileBytes (bytes @ trailing))"
  shows "header_chain m' = header_chain m \<and> recent_chain m' = recent_chain m \<and>
    header_chain_height m' = header_chain_height m \<and> best_header_tip m' = best_header_tip m"
proof -
  have "bytes = concat (map (encode_header H) (header_chain m))"
    using assms(4,5) by (auto simp: file_in_step_def)
  then have "load_headers_from_disk H (FileBytes (bytes @ trailing)) = Inr (header_chain m)"
    using read_headers_encoded [OF assms(1,6), of "[]"] by simp
  with assms(2,3,7) show ?thesis by (simp add: with_start_height_def Let_def chain_views_def)
qed

text \<open>Two headers received on a fresh regtest manager, both written to the file.\<close>

definition synced_manager :: peer_manager where
  "synced_manager = snd (the (extend_headers sample_headers (\<lambda>_. True)
     [sample_hdr 0 1, sample_hdr 1 2] sample_manager))"

lemma regtest_no_checkpoint [simp]: "get_checkpoint fs k regtest = None"
  by (simp add: get_checkpoint_def regtest_def)

lemma synced_manager_eq: "extend_headers sample_headers (\<lambda>_. True)
     [sample_hdr 0 1, sample_hdr 1 2] sample_manager = Some (2, synced_manager)"
  by (simp add: synced_manager_def extend_headers_def sample_manager_def with_start_height_def Let_def
      sample_headers_def sample_hdr_def add_header_def append_header_to_disk_def)

lemma synced_manager_fields:
  "header_chain synced_manager = [sample_hdr 0 1, sample_hdr 1 2]" "recent_chain synced_manager = [0, 1, 2]"
  "best_header_tip synced_manager = 2" "have_header synced_manager = [2, 1, 0]" "headers_synced synced_manager = False"
  "pm_net synced_manager = Regtest" "header_chain_height synced_manager = 2"
  by (simp_all add: synced_manager_def extend_headers_def sample_manager_def with_start_height_def Let_def
      sample_headers_def sample_hdr_def add_header_def append_header_to_disk_def)

lemma synced_manager_checkpoint [simp]: "get_checkpoint fs k (pm_chain_params synced_manager) = None"
  by (simp add: synced_manager_def extend_headers_def sample_manager_def with_start_height_def Let_def
      sample_headers_def sample_hdr_def add_header_def append_header_to_disk_def)

lemma synced_manager_ok: "chain_views sample_headers synced_manager" "file_in_step sample_headers synced_manager"
  using chain_views_extend [OF sample_manager_views(1) synced_manager_eq]
    file_in_step_extend [OF sample_manager_views(1) _ synced_manager_eq] file_in_step_fresh
  by (simp_all add: sample_manager_def)

theorem restart_restores_chain_witness:
  "\<exists>bytes. headers_file synced_manager = FileBytes bytes \<and>
     recent_chain (with_start_height sample_headers (pm_net synced_manager) 0 (FileBytes (bytes @ [7, 7]))) = [0, 1, 2]"
proof -
  obtain bytes where "headers_file synced_manager = FileBytes bytes"
    using synced_manager_ok(2) by (auto simp: file_in_step_def synced_manager_fields)
  with restart_restores_chain [OF sample_header_codec synced_manager_ok(1) _ synced_manager_ok(2) this _ refl, of "[7, 7]" 0]
  show ?thesis by (simp add: synced_manager_fields)
qed

subsection \<open>The switch to block download\<close>

lemma skip_count_nonneg: "0 \<le> sint start \<Longrightarrow> skip_count start = nat (sint start) + 1"
proof -
  assume nn: "0 \<le> sint start"
  have lt: "sint start < 2 ^ 31" using sint_lt [of start] by simp
  have "(scast start :: usize) = word_of_int (int (nat (sint start)))"
    unfolding scast_eq using nn by (rule arg_cong [OF sym [OF nat_0_le]])
  then have "(scast start :: usize) + 1 = of_nat (nat (sint start) + 1)"
    by (simp only: of_int_of_nat_eq of_nat_add of_nat_1)
  then show ?thesis
    using nn lt by (simp add: skip_count_def unat_of_nat take_bit_nat_eq_self_iff nat_less_iff del: of_nat_add of_nat_Suc)
qed

lemma sint_minus_threshold: "0 < sint (w :: i32) \<Longrightarrow> sint (w - 144) = sint w - 144"
proof -
  assume "0 < sint w"
  moreover have "sint w < 2 ^ 31" using sint_lt [of w] by simp
  moreover have "sint (w - 144) = signed_take_bit 31 (sint w - 144)" by (simp add: sint_word_ariths(2))
  ultimately show ?thesis by (simp add: signed_take_bit_int_eq_self_iff)
qed

lemma sint_of_nat_small: "n < 2 ^ 31 \<Longrightarrow> sint (of_nat n :: i32) = int n"
proof -
  assume "n < 2 ^ 31"
  moreover have "(of_nat n :: i32) = word_of_int (int n)" by simp
  ultimately show ?thesis by (simp only: sint_sbintrunc') (simp add: signed_take_bit_int_eq_self_iff)
qed

text \<open>C25. Header sync ends exactly when the chain is within 144 headers of the best height a
  peer announced; then exactly the hashes above the start height are queued for
  download, in chain order, and before that nothing changes.\<close>

theorem sync_end_queues_missing_blocks:
  assumes "chain_views H m" and "\<not> headers_synced m" and "0 < sint (best_known_height m)"
    and "0 \<le> sint (pm_start_height m)" and "length (header_chain m) < 2 ^ 31"
    and "m' = check_headers_sync_complete m"
  shows "(headers_synced m' \<longleftrightarrow> sint (best_known_height m) - 144 \<le> int (length (header_chain m))) \<and>
    (if headers_synced m'
     then queue (pm_downloader m') =
       queue (pm_downloader m) @ drop (nat (sint (pm_start_height m)) + 1) (recent_chain m)
     else m' = m)"
proof -
  have "sint (header_chain_height m) = int (length (header_chain m))"
    using assms(1,5) by (simp add: chain_views_def sint_of_nat_small)
  with assms(2-4,6) show ?thesis
    by (auto simp: check_headers_sync_complete_def queue_blocks_from_headers_def sint_minus_threshold Let_def
        push_many_eq skip_count_nonneg)
qed

theorem sync_end_queues_missing_blocks_witness:
  "queue (pm_downloader (check_headers_sync_complete (synced_manager\<lparr>best_known_height := 146\<rparr>))) = [1, 2]"
proof -
  let ?m = "synced_manager\<lparr>best_known_height := 146\<rparr>"
  have v: "chain_views sample_headers ?m" using synced_manager_ok(1) by (simp add: chain_views_def)
  have "pm_start_height synced_manager = 0" "queue (pm_downloader synced_manager) = []"
    by (simp_all add: synced_manager_def extend_headers_def sample_manager_def with_start_height_def Let_def
      sample_headers_def sample_hdr_def add_header_def append_header_to_disk_def downloader_new_def)
  with sync_end_queues_missing_blocks [OF v _ _ _ _ refl] show ?thesis
    by (simp add: synced_manager_fields split: if_splits)
qed

section \<open>Where the code departs from its intent\<close>

text \<open>A header already known moves the expected parent back into the chain: a batch of a
  known header and a sibling of its successor appends the sibling after the tip,
  although its parent is not the tip.\<close>

lemma fork_appended_to_tip:
  "\<exists>m'. extend_headers sample_headers (\<lambda>_. True) [sample_hdr 0 1, sample_hdr 1 5] synced_manager = Some (1, m') \<and>
     recent_chain m' = [0, 1, 2, 5] \<and> prev_blockhash (last (header_chain m')) = 1"
  by (simp add: extend_headers_def synced_manager_fields Let_def sample_headers_def sample_hdr_def add_header_def
      append_header_to_disk_def synced_manager_checkpoint)

text \<open>Headers read from the file are neither linked nor compared with the checkpoints, yet
  end header sync.\<close>

lemma loaded_headers_unchecked:
  "recent_chain (with_start_height sample_headers Regtest 0 (FileBytes (encode_header sample_headers (sample_hdr 7 5)))) = [0, 5] \<and>
   headers_synced (with_start_height sample_headers Regtest 0 (FileBytes (encode_header sample_headers (sample_hdr 7 5))))"
proof -
  have "read_headers sample_headers [] (encode_header sample_headers (sample_hdr 7 5)) = Inr [sample_hdr 7 5]"
    using read_headers_encoded [OF sample_header_codec, of "[]" "[]" "[sample_hdr 7 5]"] by simp
  then show ?thesis by (simp add: with_start_height_def Let_def) (simp add: sample_headers_def sample_hdr_def)
qed

end
