(* ===== verification/Peer_Manager.thy ===== *)
theory Peer_Manager
  imports Header_Sync
begin

text \<open>
  The rest of \<open>PeerManager\<close> (\<^verbatim>\<open>src/p2p/legacy.rs\<close>) and the DNS seeds
  (\<^verbatim>\<open>src/seeds.rs\<close>): outbound connections and the choice of the sync peer, the
  bootstrap, one handler per message, one iteration of the event loop.

  A \<open>world\<close> answers what the code asks the outside during one step: name
  resolution, connection attempts, clock readings, file writes, the iteration
  order of the peer table.
\<close>

section \<open>DNS seeds\<close>

fun dns_seeds :: "network \<Rightarrow> string list" where
  "dns_seeds Bitcoin =
     [''seed.bitcoin.sipa.be'',
      ''dnsseed.bluematt.me'',
      ''dnsseed.bitcoin.dashjr.org'',
      ''seed.bitcoinstats.com'',
      ''seed.bitcoin.jonasschnelli.ch'',
      ''seed.btc.petertodd.org'',
      ''seed.bitcoin.sprovoost.nl'',
      ''dnsseed.emzy.de'',
      ''seed.bitcoin.wiz.biz'']"
| "dns_seeds Testnet =
     [''testnet-seed.bitcoin.jonasschnelli.ch'',
      ''seed.tbtc.petertodd.org'',
      ''seed.testnet.bitcoin.sprovoost.nl'']"
| "dns_seeds Testnet4 =
     [''seed.testnet4.bitcoin.jonasschnelli.ch'']"
| "dns_seeds Signet =
     [''seed.signet.bitcoin.sprovoost.nl'',
      ''dnsseed.signet.bitcoin.jonasschnelli.ch'',
      ''18.142.242.1:38333'',
      ''34.171.112.142:38333'',
      ''35.217.13.118:38333'',
      ''38.247.82.124:38333'',
      ''45.94.168.5:38333'',
      ''51.210.144.135:38333'',
      ''54.151.174.170:38333'',
      ''66.254.43.122:38333'',
      ''72.48.253.168:38333'',
      ''81.17.97.236:38333'',
      ''91.134.73.14:38333'',
      ''95.141.35.117:38333'',
      ''129.226.149.150:38333'',
      ''131.153.11.131:38333'']"
| "dns_seeds Regtest = []"

fun default_port :: "network \<Rightarrow> string" where
  "default_port Bitcoin = ''8333''"
| "default_port Testnet = ''18333''"
| "default_port Testnet4 = ''48333''"
| "default_port Signet = ''38333''"
| "default_port Regtest = ''18444''"

definition seed_target :: "network \<Rightarrow> string \<Rightarrow> string" where
  "seed_target net seed =
     (if CHR '':'' \<in> set seed then seed else seed @ '':'' @ default_port net)"

section \<open>The world\<close>

datatype dial_result = DialFailed | Dialled "nat \<Rightarrow> bool" "recv_result list"

record world =
  resolve :: "string \<Rightarrow> socket_addr list option"
  dial :: "nat \<Rightarrow> socket_addr \<Rightarrow> dial_result"
  clk :: "nat \<Rightarrow> instant"
  wall :: instant
  disk_ok :: "nat \<Rightarrow> bool"
  key_order :: "socket_addr list \<Rightarrow> socket_addr list"

section \<open>Outbound connections\<close>

datatype outbound_error = ConnectFailed | HandshakeFailed peer_error

text \<open>Poll the downloader for a peer and ask it for the blocks assigned.\<close>

definition assign_blocks :: "world \<Rightarrow> socket_addr \<Rightarrow> peer_manager \<Rightarrow> peer_manager" where
  "assign_blocks W addr m =
     (let (assign, d) = poll_assign (clk W) addr (pm_downloader m);
          m' = m\<lparr>pm_downloader := d\<rparr>
      in if assign = [] then m' else send_to addr (GetData (map InvWitnessBlock assign)) m')"

definition select_sync_peer :: "header_api \<Rightarrow> socket_addr \<Rightarrow> peer \<Rightarrow> peer_manager \<Rightarrow> peer_manager" where
  "select_sync_peer H addr p m =
     (if has_network H (their_services p) \<and> 0 < sint (their_start_height p)
      then
        let should_select =
          (case sync_peer m of
             None \<Rightarrow> True
           | Some current_sync \<Rightarrow>
               (case hm_get (peer_heights m) current_sync of
                  None \<Rightarrow> True
                | Some current_height \<Rightarrow> sint current_height < sint (their_start_height p)))
        in if should_select then m\<lparr>sync_peer := Some addr\<rparr> else m
      else m)"

text \<open>The book-keeping for a peer whose handshake succeeded.\<close>

definition register_peer :: "socket_addr \<Rightarrow> peer \<Rightarrow> peer_manager \<Rightarrow> peer_manager" where
  "register_peer addr p m =
     m\<lparr>peer_heights := hm_insert addr (their_start_height p) (peer_heights m),
       best_known_height := (if sint (best_known_height m) < sint (their_start_height p)
         then their_start_height p else best_known_height m),
       peers := hm_insert addr p (peers m)\<rparr>"

definition add_outbound ::
  "header_api \<Rightarrow> world \<Rightarrow> nat \<Rightarrow> socket_addr \<Rightarrow> peer_manager \<Rightarrow> (outbound_error + unit) \<times> peer_manager" where
  "add_outbound H W k addr m =
     (if hm_contains (peers m) addr then (Inr (), m)
      else case dial W k addr of
        DialFailed \<Rightarrow> (Inl ConnectFailed, m)
      | Dialled send_ok rs \<Rightarrow>
          let our_services = (if headers_synced m then service_network_witness H else service_witness H) in
          (case handshake send_ok rs (pm_start_height m) our_services peer_connect of
             Inl e \<Rightarrow> (Inl (HandshakeFailed e), m)
           | Inr (p, _) \<Rightarrow>
               let m' = register_peer addr p m
               in (Inr (), if \<not> headers_synced m' then select_sync_peer H addr p m'
                           else assign_blocks W addr m')))"

section \<open>Bootstrap\<close>

definition boot_full :: "nat \<Rightarrow> nat \<Rightarrow> bool" where
  "boot_full attempts connected \<longleftrightarrow> connected \<ge> 6 \<or> attempts \<ge> 30"

text \<open>The inner loop; the first component says that the function has returned.\<close>

fun boot_addrs ::
  "header_api \<Rightarrow> world \<Rightarrow> socket_addr list \<Rightarrow> nat \<times> nat \<times> peer_manager \<Rightarrow> bool \<times> nat \<times> nat \<times> peer_manager" where
  "boot_addrs H W [] (attempts, connected, m) = (False, attempts, connected, m)"
| "boot_addrs H W (addr # addrs) (attempts, connected, m) =
     (if boot_full attempts connected then (True, attempts, connected, m)
      else if hm_contains (peers m) addr then boot_addrs H W addrs (attempts + 1, connected, m)
      else case add_outbound H W (attempts + 1) addr m of
             (Inr _, m') \<Rightarrow> boot_addrs H W addrs (attempts + 1, connected + 1, m')
           | (Inl _, m') \<Rightarrow> boot_addrs H W addrs (attempts + 1, connected, m'))"

fun boot_seeds ::
  "header_api \<Rightarrow> world \<Rightarrow> string list \<Rightarrow> nat \<times> nat \<times> peer_manager \<Rightarrow> nat \<times> peer_manager" where
  "boot_seeds H W [] (attempts, connected, m) = (connected, m)"
| "boot_seeds H W (seed # seeds) (attempts, connected, m) =
     (let (returned, attempts', connected', m') =
        (case resolve W (seed_target (pm_net m) seed) of
           None \<Rightarrow> (False, attempts, connected, m)
         | Some addrs \<Rightarrow> boot_addrs H W addrs (attempts, connected, m))
      in if returned \<or> boot_full attempts' connected' then (connected', m')
         else boot_seeds H W seeds (attempts', connected', m'))"

definition bootstrap :: "header_api \<Rightarrow> world \<Rightarrow> peer_manager \<Rightarrow> nat \<times> peer_manager" where
  "bootstrap H W m = boot_seeds H W (dns_seeds (pm_net m)) (0, 0, m)"

section \<open>Message handlers\<close>

definition max_headers_per_msg :: nat where "max_headers_per_msg = 2000"
definition immediate_req_timeout :: nat where "immediate_req_timeout = 60"
definition initial_rereq_secs :: nat where "initial_rereq_secs = 2"
definition stall_limit :: duration where "stall_limit = from_secs (15 * 60)"
definition max_outbound_from_addr :: nat where "max_outbound_from_addr = 8"

text \<open>The manager together with \<open>last_headers_ts\<close>.\<close>

type_synonym loop_state = "peer_manager \<times> instant"

text \<open>The end of a header batch: check for completion, then download.\<close>

definition finish_batch :: "world \<Rightarrow> socket_addr \<Rightarrow> peer_manager \<Rightarrow> peer_manager" where
  "finish_batch W addr m =
     (let m' = check_headers_sync_complete m
      in if headers_synced m' then assign_blocks W addr m' else m')"

definition switch_sync_peer :: "world \<Rightarrow> socket_addr \<Rightarrow> loop_state \<Rightarrow> loop_state option" where
  "switch_sync_peer W addr = (\<lambda>(m, ts).
     let m1 = m\<lparr>sync_peer := None\<rparr>;
         other_peers = filter (\<lambda>a. a \<noteq> addr) (key_order W (hm_keys (peers m1)))
     in (case other_peers of
           [] \<Rightarrow> Some (m1, ts)
         | new_peer # _ \<Rightarrow>
             do { m2 \<leftarrow> request_headers new_peer (m1\<lparr>sync_peer := Some new_peer\<rparr>);
                  Some (m2, wall W) }))"

definition on_headers :: "header_api \<Rightarrow> world \<Rightarrow> socket_addr \<Rightarrow> block_header list \<Rightarrow> peer_manager \<Rightarrow> loop_state option" where
  "on_headers H W addr h m =
     (if h = [] then Some (finish_batch W addr m, wall W)
      else do {
        (added, m1) \<leftarrow> extend_headers H (disk_ok W) h m;
        (if length h = max_headers_per_msg \<and> added > 0
         then do { m2 \<leftarrow> request_headers addr m1;
                   Some (m2, wall W + int (from_secs (immediate_req_timeout - initial_rereq_secs))) }
         else if length h = max_headers_per_msg \<and> added = 0 then switch_sync_peer W addr (m1, wall W)
         else Some (finish_batch W addr m1, wall W)) })"

definition block_items :: "inventory_item list \<Rightarrow> block_hash list" where
  "block_items items = List.map_filter (\<lambda>i. case i of
      InvBlockItem h \<Rightarrow> Some h
    | InvWitnessBlock h \<Rightarrow> Some h
    | _ \<Rightarrow> None) items"

definition on_inv :: "world \<Rightarrow> socket_addr \<Rightarrow> inventory_item list \<Rightarrow> peer_manager \<Rightarrow> peer_manager" where
  "on_inv W addr items m =
     (if \<not> headers_synced m then m
      else
        let need = filter (\<lambda>h. h \<in> set (have_header m)) (block_items items)
        in assign_blocks W addr (m\<lparr>pm_downloader := push_many need (pm_downloader m)\<rparr>))"

definition on_block :: "world \<Rightarrow> socket_addr \<Rightarrow> block_hash \<Rightarrow> u8 list \<Rightarrow> peer_manager \<Rightarrow> peer_manager" where
  "on_block W addr h raw m =
     (if \<not> headers_synced m then m
      else
        let m1 = assign_blocks W addr (m\<lparr>pm_downloader := complete h (pm_downloader m)\<rparr>)
        in m1\<lparr>block_tx := map_option (\<lambda>sent. sent @ [(h, raw)]) (block_tx m1)\<rparr>)"

text \<open>An IPv6 address given as eight words; \<open>::ffff:a.b.c.d\<close> is an IPv4 address.\<close>

definition socket_of :: "net_address \<Rightarrow> socket_addr" where
  "socket_of a =
     (let ws = na_address a in
      if take 5 ws = replicate 5 0 \<and> ws ! 5 = 0xffff
      then SocketAddrV4 (word_cat (ws ! 6) (ws ! 7)) (na_port a)
      else SocketAddrV6 (fold (\<lambda>w v. push_bit 16 v + ucast w) ws 0) (na_port a))"

fun on_addr_loop ::
  "header_api \<Rightarrow> world \<Rightarrow> nat \<Rightarrow> net_address list \<Rightarrow> peer_manager \<Rightarrow> peer_manager" where
  "on_addr_loop H W added [] m = m"
| "on_addr_loop H W added (a # as) m =
     (if length (peers m) \<ge> max_outbound_from_addr then m
      else
        let sock = socket_of a;
            (added', m') = (if \<not> hm_contains (peers m) sock
                            then (added + 1, snd (add_outbound H W added sock m)) else (added, m))
        in if added' \<ge> 2 then m' else on_addr_loop H W added' as m')"

definition on_tx_msg :: "transaction \<Rightarrow> peer_manager \<Rightarrow> peer_manager" where
  "on_tx_msg t m = m\<lparr>on_tx := map_option (\<lambda>seen. seen @ [t]) (on_tx m)\<rparr>"

definition handle_message ::
  "header_api \<Rightarrow> world \<Rightarrow> socket_addr \<Rightarrow> network_message \<Rightarrow> loop_state \<Rightarrow> loop_state option" where
  "handle_message H W addr msg = (\<lambda>(m, ts).
     (case msg of
        Headers h \<Rightarrow> on_headers H W addr h m
      | Inv items \<Rightarrow> Some (on_inv W addr items m, ts)
      | BlockMsg h raw \<Rightarrow> Some (on_block W addr h raw m, ts)
      | Ping nonce \<Rightarrow> Some (send_to addr (Pong nonce) m, ts)
      | Addr addrs \<Rightarrow> Some (on_addr_loop H W 0 addrs m, ts)
      | GetHeaders v loc stop \<Rightarrow> Some (respond_getheaders addr m, ts)
      | TxMsg t \<Rightarrow> Some (on_tx_msg t m, ts)
      | _ \<Rightarrow> Some (m, ts)))"

section \<open>The event loop\<close>

text \<open>One poll of one peer.\<close>

definition poll_peer ::
  "header_api \<Rightarrow> (socket_addr \<Rightarrow> recv_result) \<Rightarrow> (socket_addr \<Rightarrow> world) \<Rightarrow> socket_addr \<Rightarrow>
   loop_state \<Rightarrow> loop_state option" where
  "poll_peer H recv W addr = (\<lambda>(m, ts).
     if \<not> hm_contains (peers m) addr then Some (m, ts)
     else case recv addr of
            RecvMsg msg \<Rightarrow> handle_message H (W addr) addr msg (m, ts)
          | RecvError \<Rightarrow> Some (m\<lparr>peers := hm_remove addr (peers m)\<rparr>, ts)
          | TimedOut \<Rightarrow> Some (m, ts))"

fun poll_peers ::
  "header_api \<Rightarrow> (socket_addr \<Rightarrow> recv_result) \<Rightarrow> (socket_addr \<Rightarrow> world) \<Rightarrow> socket_addr list \<Rightarrow>
   loop_state \<Rightarrow> loop_state option" where
  "poll_peers H recv W [] st = Some st"
| "poll_peers H recv W (addr # addrs) st =
     do { st' \<leftarrow> poll_peer H recv W addr st; poll_peers H recv W addrs st' }"

text \<open>The periodic header request: to the sync peer, or a search for one.\<close>

definition periodic_request :: "header_api \<Rightarrow> world \<Rightarrow> loop_state \<Rightarrow> loop_state option" where
  "periodic_request H W = (\<lambda>(m, ts).
     if headers_synced m then Some (m, ts)
     else case sync_peer m of
       Some sync_addr \<Rightarrow>
         if hm_contains (peers m) sync_addr
         then
           let elapsed = elapsed_or_zero (wall W) ts;
               should_request = (if header_chain_height m = 0 then elapsed > from_secs 1
                                 else elapsed > from_secs initial_rereq_secs)
           in if should_request
              then do { m' \<leftarrow> request_headers sync_addr m; Some (m', wall W) }
              else Some (m, ts)
         else Some (m, ts)
     | None \<Rightarrow>
         if length (peers m) < 3 \<and> elapsed_or_zero (wall W) ts > from_secs 10
         then Some (snd (bootstrap H W m), wall W)
         else Some (m, ts))"

definition stall_check :: "header_api \<Rightarrow> world \<Rightarrow> loop_state \<Rightarrow> loop_state" where
  "stall_check H W = (\<lambda>(m, ts).
     if \<not> headers_synced m \<and> elapsed_or_zero (wall W) ts > stall_limit
     then
       let m' = (case sync_peer m of
           None \<Rightarrow> m
         | Some sync_addr \<Rightarrow> m\<lparr>peers := hm_remove sync_addr (peers m), sync_peer := None\<rparr>)
       in (snd (bootstrap H W m'), ts)
     else (m, ts))"

text \<open>What the outside answers during one iteration.\<close>

record tick =
  t_boot :: world
  t_timeout_order :: "(block_hash \<times> socket_addr \<times> instant) list \<Rightarrow> (block_hash \<times> socket_addr \<times> instant) list"
  t_timeout_now :: instant
  t_key_order :: "socket_addr list \<Rightarrow> socket_addr list"
  t_recv :: "socket_addr \<Rightarrow> recv_result"
  t_world :: "socket_addr \<Rightarrow> world"
  t_request :: world
  t_stall :: world

definition boot_if_empty :: "header_api \<Rightarrow> world \<Rightarrow> peer_manager \<Rightarrow> peer_manager" where
  "boot_if_empty H W m = (if peers m = [] then snd (bootstrap H W (m\<lparr>sync_peer := None\<rparr>)) else m)"

definition event_iteration :: "header_api \<Rightarrow> tick \<Rightarrow> loop_state \<Rightarrow> loop_state option" where
  "event_iteration H T = (\<lambda>(m, ts).
     let m1 = boot_if_empty H (t_boot T) m in
     if peers m1 = [] then Some (m1, ts)
     else
       let m2 = m1\<lparr>pm_downloader := requeue_timeouts (t_timeout_order T) (t_timeout_now T) (pm_downloader m1)\<rparr>
       in do { st3 \<leftarrow> poll_peers H (t_recv T) (t_world T) (t_key_order T (hm_keys (peers m2))) (m2, ts);
               st4 \<leftarrow> periodic_request H (t_request T) st3;
               Some (stall_check H (t_stall T) st4) })"

fun event_loop :: "header_api \<Rightarrow> tick list \<Rightarrow> loop_state \<Rightarrow> loop_state option" where
  "event_loop H [] st = Some st"
| "event_loop H (T # Ts) st = do { st' \<leftarrow> event_iteration H T st; event_loop H Ts st' }"

section \<open>The invariant of the manager\<close>

text \<open>Every block ever asked for has a known header.\<close>

definition requests_known :: "peer_manager \<Rightarrow> bool" where
  "requests_known m \<longleftrightarrow>
     (\<forall>a items. (a, GetData items) \<in> set (outbox m) \<longrightarrow> set (block_items items) \<subseteq> set (have_header m))"

text \<open>Headers first: before header sync is over nothing is queued, asked for or passed on.\<close>

definition headers_first :: "peer_manager \<Rightarrow> bool" where
  "headers_first m \<longleftrightarrow> headers_synced m \<or>
     pending (pm_downloader m) = {} \<and> (\<forall>a items. (a, GetData items) \<notin> set (outbox m)) \<and>
     (block_tx m = None \<or> block_tx m = Some []) \<and> (\<forall>a. hm_count (per_peer (pm_downloader m)) a = 0)"

definition download_ok :: "peer_manager \<Rightarrow> bool" where
  "download_ok m \<longleftrightarrow> dl_invar (pm_downloader m) \<and> dl_windows (pm_downloader m) = (global_inflight, per_peer_inflight) \<and>
     pending (pm_downloader m) \<subseteq> set (have_header m)"

text \<open>\<open>fresh\<close> says that the chain was built from received headers only.\<close>

definition pm_invar :: "header_api \<Rightarrow> bool \<Rightarrow> peer_manager \<Rightarrow> bool" where
  "pm_invar H fresh m \<longleftrightarrow> chain_views H m \<and> (fresh \<longrightarrow> chain_checked H m) \<and> hm_wf (peers m) \<and>
     download_ok m \<and> requests_known m \<and> headers_first m"

lemmas pm_invar_defs = pm_invar_def chain_views_def chain_checked_def checkpoint_ok_def download_ok_def
  requests_known_def headers_first_def

text \<open>A change of the book-keeping only.\<close>

lemma pm_invar_frame:
  assumes "pm_invar H fresh m" and "hm_wf (peers m) \<Longrightarrow> hm_wf (peers m')"
    and "pm_net m' = pm_net m" "recent_chain m' = recent_chain m" "header_chain m' = header_chain m"
      "header_chain_height m' = header_chain_height m" "have_header m' = have_header m" "prev_map m' = prev_map m"
      "pm_chain_params m' = pm_chain_params m" "pm_downloader m' = pm_downloader m" "outbox m' = outbox m"
      "headers_synced m' = headers_synced m" "block_tx m' = block_tx m"
  shows "pm_invar H fresh m'"
  using assms unfolding pm_invar_defs by metis

lemma checkpoint_ok_frame [simp]:
  "checkpoint_ok H (m\<lparr>outbox := x\<rparr>) = checkpoint_ok H m" "checkpoint_ok H (m\<lparr>pm_downloader := d\<rparr>) = checkpoint_ok H m"
  "checkpoint_ok H (m\<lparr>headers_synced := b\<rparr>) = checkpoint_ok H m"
  by (simp_all add: fun_eq_iff checkpoint_ok_def)

lemma chain_frame [simp]:
  "chain_views H (send_to a msg m) = chain_views H m" "chain_checked H (send_to a msg m) = chain_checked H m"
  "chain_views H (m\<lparr>pm_downloader := d\<rparr>) = chain_views H m" "chain_checked H (m\<lparr>pm_downloader := d\<rparr>) = chain_checked H m"
  "chain_views H (m\<lparr>headers_synced := b\<rparr>) = chain_views H m" "chain_checked H (m\<lparr>headers_synced := b\<rparr>) = chain_checked H m"
  by (simp_all add: send_to_def chain_views_def chain_checked_def)

lemma send_to_fields [simp]:
  "headers_synced (send_to a msg m) = headers_synced m" "peers (send_to a msg m) = peers m"
  "pm_net (send_to a msg m) = pm_net m" "recent_chain (send_to a msg m) = recent_chain m"
  "block_tx (send_to a msg m) = block_tx m" "have_header (send_to a msg m) = have_header m"
  "pm_downloader (send_to a msg m) = pm_downloader m" "download_ok (send_to a msg m) = download_ok m"
  by (simp_all add: send_to_def download_ok_def)

lemma set_outbox_send: "set (outbox (send_to a msg m)) \<subseteq> insert (a, msg) (set (outbox m))"
  by (auto simp: send_to_def)

lemma pm_invar_send:
  assumes "pm_invar H fresh m" and "\<And>items. msg \<noteq> GetData items"
  shows "pm_invar H fresh (send_to a msg m)"
proof -
  have "(b, GetData items) \<in> set (outbox (send_to a msg m)) \<Longrightarrow> (b, GetData items) \<in> set (outbox m)" for b items
    using set_outbox_send [of a msg m] assms(2) by auto
  moreover have "requests_known m" "headers_first m" using assms(1) by (simp_all add: pm_invar_def)
  ultimately have "requests_known (send_to a msg m)" "headers_first (send_to a msg m)"
    unfolding requests_known_def headers_first_def send_to_fields by blast+
  with assms(1) show ?thesis by (simp add: pm_invar_def)
qed

text \<open>A change of the downloader that keeps its contract.\<close>

lemma pm_invar_downloader:
  assumes "pm_invar H fresh m" and "dl_invar d" and "dl_windows d = dl_windows (pm_downloader m)"
    and "pending d \<subseteq> set (have_header m)"
    and "headers_synced m \<or> pending d = {} \<and> (\<forall>a. hm_count (per_peer d) a = 0)"
  shows "pm_invar H fresh (m\<lparr>pm_downloader := d\<rparr>)"
proof -
  have "download_ok (m\<lparr>pm_downloader := d\<rparr>)" "requests_known (m\<lparr>pm_downloader := d\<rparr>)"
    "headers_first (m\<lparr>pm_downloader := d\<rparr>)"
    using assms by (auto simp: pm_invar_def download_ok_def requests_known_def headers_first_def)
  with assms(1) show ?thesis by (simp add: pm_invar_def)
qed

lemma block_items_witness: "block_items (map InvWitnessBlock hs) = hs"
  by (induction hs) (simp_all add: block_items_def List.map_filter_simps)

lemma pm_invar_assign [invar_intros]:
  assumes inv: "pm_invar H fresh m" and synced: "headers_synced m"
  shows "pm_invar H fresh (assign_blocks W addr m)"
proof -
  let ?d = "pm_downloader m"
  obtain hs d where p: "poll_assign (clk W) addr ?d = (hs, d)" by (cases "poll_assign (clk W) addr ?d")
  have d: "dl_invar ?d" "pending ?d \<subseteq> set (have_header m)" using inv by (simp_all add: pm_invar_def download_ok_def)
  have "dl_invar d" "pending d = pending ?d" "dl_windows d = dl_windows ?d"
    using dl_invar_poll_assign [OF d(1), of "clk W" addr] pending_poll_assign [of "clk W" addr ?d]
      dl_step_windows [of "DlPoll (clk W) addr" ?d] p by simp_all
  then have inv': "pm_invar H fresh (m\<lparr>pm_downloader := d\<rparr>)"
    using pm_invar_downloader [OF inv] d(2) synced by simp
  have "set hs \<subseteq> set (have_header m)"
    using poll_assign_queued [of "clk W" addr ?d] p d(2) by (auto simp: pending_def)
  then have "requests_known (send_to addr (GetData (map InvWitnessBlock hs)) (m\<lparr>pm_downloader := d\<rparr>))"
    using inv' set_outbox_send [of addr "GetData (map InvWitnessBlock hs)" "m\<lparr>pm_downloader := d\<rparr>"]
    by (fastforce simp: pm_invar_def requests_known_def block_items_witness)
  with inv' synced show ?thesis
    by (simp add: assign_blocks_def p Let_def pm_invar_def headers_first_def)
qed

lemma assign_blocks_fields [simp]:
  "headers_synced (assign_blocks W addr m) = headers_synced m" "peers (assign_blocks W addr m) = peers m"
  "pm_net (assign_blocks W addr m) = pm_net m" "recent_chain (assign_blocks W addr m) = recent_chain m"
  "block_tx (assign_blocks W addr m) = block_tx m" "have_header (assign_blocks W addr m) = have_header m"
  by (simp_all add: assign_blocks_def Let_def split: prod.splits)

lemma pm_invar_start: "pm_invar H (file = NoFile) (with_start_height H net h file)"
proof -
  let ?m = "with_start_height H net h file"
  have v: "chain_views H ?m" by (rule chain_views_start)
  have new: "dl_invar (downloader_new global_inflight per_peer_inflight)"
    "dl_windows (downloader_new global_inflight per_peer_inflight) = (global_inflight, per_peer_inflight)"
    "pending (downloader_new global_inflight per_peer_inflight) = {}"
    "hm_count (per_peer (downloader_new global_inflight per_peer_inflight)) a = 0" for a
    using dl_invar_new by (auto simp: dl_windows_def pending_def downloader_new_def hm_count_def)
  moreover have "pm_downloader ?m = downloader_new global_inflight per_peer_inflight \<or>
      (\<exists>k. pm_downloader ?m = push_many (drop k (recent_chain ?m)) (downloader_new global_inflight per_peer_inflight))"
    by (auto simp: with_start_height_def Let_def)
  moreover have "set (drop k (recent_chain ?m)) \<subseteq> set (have_header ?m)" for k
    using v set_drop_subset [of k "recent_chain ?m"] unfolding chain_views_def by metis
  moreover have "dl_windows (push_many hs d) = dl_windows d" for hs d by (simp add: push_many_eq dl_windows_def)
  ultimately have "download_ok ?m" unfolding download_ok_def using dl_invar_push_many by fastforce
  with v chain_checked_fresh new(3,4) show ?thesis
    by (auto simp: pm_invar_def requests_known_def headers_first_def with_start_height_def Let_def)
qed

subsection \<open>Connections\<close>

lemma pm_invar_register [invar_intros]: "pm_invar H fresh m \<Longrightarrow> pm_invar H fresh (register_peer addr p m)"
  by (erule pm_invar_frame) (auto simp: register_peer_def pm_invar_def hm_wf_insert)

lemma pm_invar_select [invar_intros]: "pm_invar H fresh m \<Longrightarrow> pm_invar H fresh (select_sync_peer K addr p m)"
  by (erule pm_invar_frame) (auto simp: select_sync_peer_def Let_def pm_invar_def split: option.splits)

lemma register_fields [simp]:
  "headers_synced (register_peer addr p m) = headers_synced m" "pm_net (register_peer addr p m) = pm_net m"
  by (simp_all add: register_peer_def)

lemma pm_invar_add_outbound [invar_intros]:
  assumes "pm_invar H fresh m"
  shows "pm_invar H fresh (snd (add_outbound H W k addr m))"
  using assms
  by (auto simp: add_outbound_def Let_def invar_intros split: dial_result.splits sum.splits)

lemma pm_invar_boot_addrs:
  "pm_invar H fresh m \<Longrightarrow> boot_addrs H W addrs (a, c, m) = (r, a', c', m') \<Longrightarrow> pm_invar H fresh m'"
proof (induction addrs arbitrary: a c m)
  case Nil
  then show ?case by simp
next
  case (Cons x xs)
  then show ?case
    using pm_invar_add_outbound [OF Cons.prems(1), of W "a + 1" x]
    by (auto split: if_splits prod.splits sum.splits)
qed

lemma pm_invar_boot_seeds:
  "pm_invar H fresh m \<Longrightarrow> pm_invar H fresh (snd (boot_seeds H W seeds (a, c, m)))"
proof (induction seeds arbitrary: a c m)
  case Nil
  then show ?case by simp
next
  case (Cons x xs)
  obtain r a' c' m' where b: "(case resolve W (seed_target (pm_net m) x) of
      None \<Rightarrow> (False, a, c, m) | Some addrs \<Rightarrow> boot_addrs H W addrs (a, c, m)) = (r, a', c', m')" by (metis surj_pair)
  with Cons.prems have "pm_invar H fresh m'" by (auto split: option.splits dest: pm_invar_boot_addrs)
  with Cons.IH b show ?case by simp
qed

lemma pm_invar_bootstrap [invar_intros]: "pm_invar H fresh m \<Longrightarrow> pm_invar H fresh (snd (bootstrap H W m))"
  by (simp add: bootstrap_def pm_invar_boot_seeds)

lemma pm_invar_sync_peer [invar_intros]: "pm_invar H fresh m \<Longrightarrow> pm_invar H fresh (m\<lparr>sync_peer := a\<rparr>)"
  by (erule pm_invar_frame) (auto simp: pm_invar_def)

lemma pm_invar_drop_peer [invar_intros]: "pm_invar H fresh m \<Longrightarrow> pm_invar H fresh (m\<lparr>peers := hm_remove a (peers m)\<rparr>)"
  by (erule pm_invar_frame) (auto simp: pm_invar_def hm_wf_remove)

subsection \<open>Header handling\<close>

definition ensures :: "('a \<Rightarrow> bool) \<Rightarrow> 'a option \<Rightarrow> bool" where
  "ensures P r \<longleftrightarrow> (\<exists>x. r = Some x \<and> P x)"

lemma ensures_Some [simp]: "ensures P (Some x) \<longleftrightarrow> P x"
  by (simp add: ensures_def)

lemma ensures_bind: "ensures Q r \<Longrightarrow> (\<And>x. Q x \<Longrightarrow> ensures P (k x)) \<Longrightarrow> ensures P (Option.bind r k)"
  by (auto simp: ensures_def)

lemma pm_invar_request_headers:
  assumes "pm_invar H fresh m"
  shows "ensures (\<lambda>m'. pm_invar H fresh m' \<and> headers_synced m' = headers_synced m) (request_headers a m)"
proof (cases "hm_contains (peers m) a")
  case False
  with assms show ?thesis by (simp add: request_headers_def)
next
  case True
  have "recent_chain m \<noteq> []" using assms by (auto simp: pm_invar_def chain_views_def)
  then obtain loc where "build_locator m = Some loc" using build_locator_heights by blast
  moreover have "pm_invar H fresh (m\<lparr>last_locator := loc\<rparr>)"
    using assms by (rule pm_invar_frame) (use assms in \<open>auto simp: pm_invar_def\<close>)
  ultimately show ?thesis using True by (auto simp: request_headers_def intro: pm_invar_send)
qed

lemma extend_loop_frame:
  assumes "extend_loop H ok i hhs tip n m = (n', m')"
  shows "pm_downloader m' = pm_downloader m \<and> outbox m' = outbox m \<and> headers_synced m' = headers_synced m \<and>
    block_tx m' = block_tx m \<and> peers m' = peers m \<and> pm_net m' = pm_net m \<and> set (have_header m) \<subseteq> set (have_header m')"
  using assms
proof (induction hhs arbitrary: i tip n m)
  case Nil
  then show ?case by simp
next
  case (Cons hh hhs)
  have f: "pm_downloader (add_header H b hh m) = pm_downloader m" "outbox (add_header H b hh m) = outbox m"
    "headers_synced (add_header H b hh m) = headers_synced m" "block_tx (add_header H b hh m) = block_tx m"
    "peers (add_header H b hh m) = peers m" "pm_net (add_header H b hh m) = pm_net m" for b
    by (simp_all add: add_header_def append_header_to_disk_def Let_def)
  show ?case
    using Cons.prems Cons.IH [of _ _ _ "add_header H (ok i) hh m"] Cons.IH [of _ _ _ m]
    by (auto simp: Let_def f add_header_fields split: if_splits option.splits)
qed

lemma pm_invar_extend:
  assumes "pm_invar H fresh m"
  shows "ensures (\<lambda>(n, m'). pm_invar H fresh m') (extend_headers H ok hhs m)"
proof -
  have v: "chain_views H m" using assms by (simp add: pm_invar_def)
  obtain n m' where e: "extend_headers H ok hhs m = Some (n, m')" using extend_headers_total [OF v] by blast
  have v': "chain_views H m'" "fresh \<longrightarrow> chain_checked H m'"
    using chain_views_extend [OF v e] chain_checked_extend [OF v _ e] assms by (auto simp: pm_invar_def)
  have f: "pm_downloader m' = pm_downloader m \<and> outbox m' = outbox m \<and> headers_synced m' = headers_synced m \<and>
      block_tx m' = block_tx m \<and> peers m' = peers m \<and> set (have_header m) \<subseteq> set (have_header m')"
    using e by (cases rule: extend_headers_cases) (auto dest: extend_loop_frame)
  have "requests_known m" "download_ok m" "headers_first m" using assms by (simp_all add: pm_invar_def)
  then have "download_ok m'" "requests_known m'" "headers_first m'"
    using f unfolding download_ok_def requests_known_def headers_first_def by (auto, blast)
  with v' f assms e show ?thesis by (simp add: pm_invar_def)
qed

lemma pm_invar_sync_complete [invar_intros]:
  assumes "pm_invar H fresh m"
  shows "pm_invar H fresh (check_headers_sync_complete m)"
proof -
  let ?m = "m\<lparr>headers_synced := True\<rparr>"
  have "download_ok ?m" "requests_known ?m" "headers_first ?m" "hm_wf (peers ?m)"
    using assms by (simp_all add: pm_invar_def download_ok_def requests_known_def headers_first_def)
  with assms have m: "pm_invar H fresh ?m" by (simp add: pm_invar_def)
  let ?hs = "drop (skip_count (pm_start_height ?m)) (recent_chain ?m)"
  have d: "dl_invar (pm_downloader m)" "pending (pm_downloader m) \<subseteq> set (have_header m)"
    using assms by (simp_all add: pm_invar_def download_ok_def)
  have hv: "set (have_header m) = set (recent_chain m)"
    using assms unfolding pm_invar_def chain_views_def by blast
  have "pm_invar H fresh (?m\<lparr>pm_downloader := push_many ?hs (pm_downloader ?m)\<rparr>)"
    using d hv set_drop_subset [of "skip_count (pm_start_height m)" "recent_chain m"]
    by (intro pm_invar_downloader [OF m])
      (auto simp: dl_invar_push_many, simp add: push_many_eq dl_windows_def)
  with m have "pm_invar H fresh (queue_blocks_from_headers ?m)"
    by (simp add: queue_blocks_from_headers_def Let_def)
  with assms show ?thesis by (simp add: check_headers_sync_complete_def)
qed

lemma pm_invar_finish_batch [invar_intros]: "pm_invar H fresh m \<Longrightarrow> pm_invar H fresh (finish_batch W addr m)"
  by (simp add: finish_batch_def Let_def invar_intros)

lemma pm_invar_switch:
  "pm_invar H fresh m \<Longrightarrow> ensures (\<lambda>(m', ts'). pm_invar H fresh m') (switch_sync_peer W addr (m, ts))"
  by (auto simp: switch_sync_peer_def Let_def invar_intros split: list.splits
      intro!: ensures_bind [OF pm_invar_request_headers] pm_invar_sync_peer)

lemma pm_invar_on_headers:
  assumes "pm_invar H fresh m"
  shows "ensures (\<lambda>(m', ts'). pm_invar H fresh m') (on_headers H W addr h m)"
proof (cases "h = []")
  case True
  with assms show ?thesis by (simp add: on_headers_def invar_intros)
next
  case False
  show ?thesis
    unfolding on_headers_def if_not_P [OF False]
  proof (rule ensures_bind [OF pm_invar_extend [OF assms]], clarify)
    fix n m1
    assume m1: "pm_invar H fresh m1"
    have req: "ensures (\<lambda>(m', ts'). pm_invar H fresh m')
        (Option.bind (request_headers addr m1) (\<lambda>m2. Some (m2, t)))" for t
      by (rule ensures_bind [OF pm_invar_request_headers [OF m1]]) simp
    show "ensures (\<lambda>(m', ts'). pm_invar H fresh m')
       (if length h = max_headers_per_msg \<and> 0 < n
        then Option.bind (request_headers addr m1)
          (\<lambda>m2. Some (m2, wall W + int (from_secs (immediate_req_timeout - initial_rereq_secs))))
        else if length h = max_headers_per_msg \<and> n = 0 then switch_sync_peer W addr (m1, wall W)
        else Some (finish_batch W addr m1, wall W))"
      (is "ensures ?P (if ?full_new then _ else if ?full_old then _ else _)")
    proof (cases ?full_new)
      case True
      show ?thesis unfolding if_P [OF True] by (rule req)
    next
      case no: False
      show ?thesis
      proof (cases ?full_old)
        case True
        show ?thesis unfolding if_not_P [OF no] if_P [OF True] by (rule pm_invar_switch [OF m1])
      next
        case False
        show ?thesis unfolding if_not_P [OF no] if_not_P [OF False] by (simp add: pm_invar_finish_batch m1)
      qed
    qed
  qed
qed

subsection \<open>The other messages\<close>

lemma pm_invar_on_inv [invar_intros]:
  assumes "pm_invar H fresh m"
  shows "pm_invar H fresh (on_inv W addr items m)"
proof (cases "headers_synced m")
  case False
  with assms show ?thesis by (simp add: on_inv_def)
next
  case True
  let ?need = "filter (\<lambda>h. h \<in> set (have_header m)) (block_items items)"
  have "dl_invar (pm_downloader m)" "pending (pm_downloader m) \<subseteq> set (have_header m)"
    using assms by (simp_all add: pm_invar_def download_ok_def)
  then have "pm_invar H fresh (m\<lparr>pm_downloader := push_many ?need (pm_downloader m)\<rparr>)"
    using True by (intro pm_invar_downloader [OF assms]) (auto simp: dl_invar_push_many, simp add: push_many_eq dl_windows_def)
  with True show ?thesis by (simp add: on_inv_def Let_def invar_intros)
qed

lemma pm_invar_block_tx:
  assumes "pm_invar H fresh m" and "headers_synced m"
  shows "pm_invar H fresh (m\<lparr>block_tx := b\<rparr>)"
proof -
  have "chain_views H (m\<lparr>block_tx := b\<rparr>) = chain_views H m" "chain_checked H (m\<lparr>block_tx := b\<rparr>) = chain_checked H m"
    by (simp_all add: chain_views_def chain_checked_def checkpoint_ok_def cong: option.case_cong)
  with assms show ?thesis
    by (simp add: pm_invar_def download_ok_def requests_known_def headers_first_def)
qed

lemma pm_invar_on_block [invar_intros]:
  assumes "pm_invar H fresh m"
  shows "pm_invar H fresh (on_block W addr h raw m)"
proof (cases "headers_synced m")
  case False
  with assms show ?thesis by (simp add: on_block_def)
next
  case True
  have d: "dl_invar (pm_downloader m)" "pending (pm_downloader m) \<subseteq> set (have_header m)"
    using assms by (simp_all add: pm_invar_def download_ok_def)
  have "dl_windows (complete h (pm_downloader m)) = dl_windows (pm_downloader m)"
    using dl_step_windows [of "DlComplete h" "pm_downloader m"] by simp
  with d pending_complete(2) [of h "pm_downloader m"] True
  have "pm_invar H fresh (m\<lparr>pm_downloader := complete h (pm_downloader m)\<rparr>)"
    by (intro pm_invar_downloader [OF assms]) (auto simp: dl_invar_complete)
  with True show ?thesis by (simp add: on_block_def Let_def invar_intros pm_invar_block_tx)
qed

lemma pm_invar_on_addr: "pm_invar H fresh m \<Longrightarrow> pm_invar H fresh (on_addr_loop H W added as m)"
  by (induction "as" arbitrary: added m) (simp_all add: Let_def invar_intros)

lemma pm_invar_on_tx [invar_intros]: "pm_invar H fresh m \<Longrightarrow> pm_invar H fresh (on_tx_msg t m)"
  by (erule pm_invar_frame) (simp_all add: on_tx_msg_def)

lemma pm_invar_handle:
  "pm_invar H fresh m \<Longrightarrow> ensures (\<lambda>(m', ts'). pm_invar H fresh m') (handle_message H W addr msg (m, ts))"
  by (cases msg)
    (simp_all add: handle_message_def pm_invar_on_headers pm_invar_on_addr pm_invar_send respond_getheaders_def invar_intros)

subsection \<open>The loop\<close>

abbreviation loop_ok :: "header_api \<Rightarrow> bool \<Rightarrow> loop_state \<Rightarrow> bool" where
  "loop_ok H fresh st \<equiv> pm_invar H fresh (fst st)"

lemma poll_peer_ok: "loop_ok H fresh st \<Longrightarrow> ensures (loop_ok H fresh) (poll_peer H recv W addr st)"
  using pm_invar_handle [of H fresh "fst st" "W addr" addr _ "snd st"]
  by (cases st) (auto simp: poll_peer_def invar_intros case_prod_beta' split: recv_result.splits)

lemma poll_peers_ok: "loop_ok H fresh st \<Longrightarrow> ensures (loop_ok H fresh) (poll_peers H recv W addrs st)"
  by (induction addrs arbitrary: st) (auto intro!: ensures_bind [OF poll_peer_ok])

lemma periodic_request_ok: "loop_ok H fresh st \<Longrightarrow> ensures (loop_ok H fresh) (periodic_request H W st)"
  by (cases st)
    (auto simp: periodic_request_def Let_def invar_intros intro!: ensures_bind [OF pm_invar_request_headers] split: option.splits)

lemma stall_check_ok: "loop_ok H fresh st \<Longrightarrow> loop_ok H fresh (stall_check H W st)"
proof -
  have "pm_invar H fresh m \<Longrightarrow> pm_invar H fresh (m\<lparr>peers := hm_remove a (peers m), sync_peer := None\<rparr>)" for m a
    by (intro pm_invar_sync_peer pm_invar_drop_peer)
  then show "loop_ok H fresh st \<Longrightarrow> ?thesis"
    by (cases st) (auto simp: stall_check_def Let_def invar_intros split: option.splits)
qed

text \<open>With nothing in flight there is nothing to time out.\<close>

lemma requeue_idle:
  assumes "pending d = {}" and "iteration_order ord"
  shows "requeue_timeouts ord now d = d"
proof -
  have "inflight d = []" using assms(1) by (cases "inflight d") (auto simp: pending_def)
  moreover have "ord [] = []" using iteration_orderD(2) [OF assms(2), of "[]"] by simp
  ultimately show ?thesis by (simp add: requeue_timeouts_def reassign_timeouts_def)
qed

lemma event_iteration_ok:
  assumes "loop_ok H fresh st" and "iteration_order (t_timeout_order T)"
  shows "ensures (loop_ok H fresh) (event_iteration H T st)"
proof -
  obtain m ts where st: "st = (m, ts)" by (cases st)
  let ?m = "boot_if_empty H (t_boot T) m"
  let ?d = "requeue_timeouts (t_timeout_order T) (t_timeout_now T) (pm_downloader ?m)"
  have m1: "pm_invar H fresh ?m" using assms(1) st by (simp add: boot_if_empty_def invar_intros)
  then have d: "dl_invar (pm_downloader ?m)" "pending (pm_downloader ?m) \<subseteq> set (have_header ?m)"
    "headers_synced ?m \<or> pending (pm_downloader ?m) = {} \<and> (\<forall>a. hm_count (per_peer (pm_downloader ?m)) a = 0)"
    by (auto simp: pm_invar_def download_ok_def headers_first_def)
  have wf: "hm_wf (inflight (pm_downloader ?m))" using d(1) by (simp add: dl_invar_def)
  have "pm_invar H fresh (?m\<lparr>pm_downloader := ?d\<rparr>)"
    using d dl_step_windows [of "DlTimeouts (t_timeout_order T) (t_timeout_now T)" "pm_downloader ?m"]
    by (intro pm_invar_downloader [OF m1]) (auto simp: dl_invar_requeue assms(2) pending_requeue [OF wf] requeue_idle)
  then have p: "ensures (loop_ok H fresh) (poll_peers H r w as (?m\<lparr>pm_downloader := ?d\<rparr>, ts))" for r w as
    by (intro poll_peers_ok) simp
  have "ensures (loop_ok H fresh) (Option.bind (periodic_request H (t_request T) s)
      (\<lambda>s'. Some (stall_check H (t_stall T) s')))" if "loop_ok H fresh s" for s
    by (rule ensures_bind [OF periodic_request_ok [OF that]]) (simp add: stall_check_ok)
  then have "ensures (loop_ok H fresh) (Option.bind (poll_peers H r w as (?m\<lparr>pm_downloader := ?d\<rparr>, ts))
      (\<lambda>s. Option.bind (periodic_request H (t_request T) s) (\<lambda>s'. Some (stall_check H (t_stall T) s'))))" for r w as
    by (rule ensures_bind [OF p])
  with m1 show ?thesis by (simp add: event_iteration_def st Let_def)
qed

lemma event_loop_ok:
  "loop_ok H fresh st \<Longrightarrow> list_all (\<lambda>T. iteration_order (t_timeout_order T)) Ts \<Longrightarrow>
     ensures (loop_ok H fresh) (event_loop H Ts st)"
  by (induction Ts arbitrary: st) (auto intro!: ensures_bind [OF event_iteration_ok])

section \<open>A sample run\<close>

text \<open>One seed answers, the peer shakes hands and sends two headers.\<close>

definition sample_peer :: socket_addr where
  "sample_peer = SocketAddrV4 77 38333"

definition sample_world :: world where
  "sample_world =
     \<lparr>resolve = (\<lambda>target. if target = ''seed.signet.bitcoin.sprovoost.nl:38333'' then Some [sample_peer] else None),
      dial = (\<lambda>k a. Dialled (\<lambda>_. True)
        [RecvMsg (Version \<lparr>vm_version = 70016, vm_services = 9, vm_start_height = 146\<rparr>), RecvMsg Verack]),
      clk = (\<lambda>_. 0), wall = 0, disk_ok = (\<lambda>_. True), key_order = rev\<rparr>"

definition sample_tick :: tick where
  "sample_tick =
     \<lparr>t_boot = sample_world, t_timeout_order = rev, t_timeout_now = 0, t_key_order = rev,
      t_recv = (\<lambda>_. RecvMsg (Headers [sample_hdr 0 1, sample_hdr 1 2])),
      t_world = (\<lambda>_. sample_world), t_request = sample_world, t_stall = sample_world\<rparr>"

definition signet_manager :: peer_manager where
  "signet_manager = with_start_height sample_headers Signet 0 NoFile"

lemma sample_handshake:
  "handshake (\<lambda>_. True)
     [RecvMsg (Version \<lparr>vm_version = 70016, vm_services = 9, vm_start_height = 146\<rparr>), RecvMsg Verack] h s peer_connect =
   Inr (\<lparr>their_services = 9, their_start_height = 146, negotiated = True, sendheaders_sent = True,
          wtxidrelay_sent = True, verack_seen = True\<rparr>,
      [Version \<lparr>vm_version = 70016, vm_services = s, vm_start_height = h\<rparr>, WtxidRelay, Verack, SendHeaders,
       SendCmpct 1 True, GetAddr])"
  by (simp add: handshake_def send_simps on_version_def on_verack_def handshake_done_def peer_connect_def advertised_proto_def)

lemma sample_add:
  "peers m = [] \<Longrightarrow> \<not> headers_synced m \<Longrightarrow> sync_peer m = None \<Longrightarrow> snd (add_outbound sample_headers sample_world k sample_peer m) =
     (register_peer sample_peer \<lparr>their_services = 9, their_start_height = 146, negotiated = True, sendheaders_sent = True,
          wtxidrelay_sent = True, verack_seen = True\<rparr> m)\<lparr>sync_peer := Some sample_peer\<rparr> \<and>
   fst (add_outbound sample_headers sample_world k sample_peer m) = Inr ()"
  by (simp add: add_outbound_def hm_contains_def sample_world_def sample_handshake select_sync_peer_def
      sample_headers_def register_peer_def Let_def)

definition quiet_tick :: tick where
  "quiet_tick = sample_tick\<lparr>t_recv := (\<lambda>_. TimedOut)\<rparr>"

definition connected_manager :: peer_manager where
  "connected_manager =
     (register_peer sample_peer \<lparr>their_services = 9, their_start_height = 146, negotiated = True, sendheaders_sent = True,
          wtxidrelay_sent = True, verack_seen = True\<rparr> signet_manager)\<lparr>sync_peer := Some sample_peer\<rparr>"

lemma signet_manager_fields:
  "peers signet_manager = []" "\<not> headers_synced signet_manager" "sync_peer signet_manager = None"
  "pm_net signet_manager = Signet" "signet_manager\<lparr>sync_peer := None\<rparr> = signet_manager"
  by (simp_all add: signet_manager_def with_start_height_def Let_def)

lemma sample_add_signet:
  "add_outbound sample_headers sample_world k sample_peer signet_manager = (Inr (), connected_manager)"
  using sample_add [OF signet_manager_fields(1-3)] by (simp add: connected_manager_def prod_eq_iff)

lemma sample_world_fields:
  "resolve sample_world t = (if t = ''seed.signet.bitcoin.sprovoost.nl:38333'' then Some [sample_peer] else None)"
  "clk sample_world = (\<lambda>_. 0)" "wall sample_world = 0" "disk_ok sample_world = (\<lambda>_. True)"
  by (simp_all add: sample_world_def)

lemma connected_manager_fields:
  "pm_net connected_manager = Signet" "hm_keys (peers connected_manager) = [sample_peer]" "\<not> headers_synced connected_manager"
  "sync_peer connected_manager = Some sample_peer" "peers connected_manager \<noteq> []"
  "hm_contains (peers connected_manager) sample_peer" "header_chain_height connected_manager = 0"
  "pm_downloader connected_manager = downloader_new 16 4" "outbox connected_manager = []"
  by (simp_all add: connected_manager_def register_peer_def signet_manager_def with_start_height_def Let_def hm_keys_def
      hm_contains_def global_inflight_def per_peer_inflight_def)

lemma sample_bootstrap: "bootstrap sample_headers sample_world signet_manager = (1, connected_manager)"
  by (simp add: bootstrap_def signet_manager_fields connected_manager_fields seed_target_def boot_full_def hm_contains_def
      sample_add_signet sample_world_fields)

lemma sample_start: "boot_if_empty sample_headers sample_world signet_manager = connected_manager"
  by (simp add: boot_if_empty_def signet_manager_fields sample_bootstrap)

lemma requeue_empty: "requeue_timeouts rev 0 (downloader_new g p) = downloader_new g p"
  by (simp add: requeue_timeouts_def reassign_timeouts_def downloader_new_def)

lemma connected_manager_requeue:
  "connected_manager\<lparr>pm_downloader := requeue_timeouts rev 0 (downloader_new 16 4)\<rparr> = connected_manager"
proof -
  have "requeue_timeouts rev 0 (downloader_new 16 4) = pm_downloader connected_manager"
    by (simp add: requeue_empty connected_manager_fields)
  then show ?thesis by simp
qed

lemmas tick_exec = event_iteration_def quiet_tick_def sample_tick_def sample_start connected_manager_requeue
  connected_manager_fields poll_peer_def periodic_request_def stall_check_def sample_world_fields from_secs_def
  initial_rereq_secs_def stall_limit_def Let_def

lemma quiet_run: "event_loop sample_headers [quiet_tick] (signet_manager, 0) = Some (connected_manager, 0)"
  by (simp add: tick_exec)

text \<open>The two headers reach the announced height less 144, so both blocks are asked for.\<close>

lemma connected_extend:
  "\<exists>m'. extend_headers sample_headers (\<lambda>_. True) [sample_hdr 0 1, sample_hdr 1 2] connected_manager = Some (2, m') \<and>
     recent_chain m' = [0, 1, 2] \<and> header_chain_height m' = 2 \<and> best_known_height m' = 146 \<and>
     pm_downloader m' = downloader_new 16 4 \<and> \<not> headers_synced m' \<and> pm_start_height m' = 0 \<and>
     peers m' = peers connected_manager \<and> outbox m' = [] \<and> block_tx m' = None"
  by (simp add: extend_headers_def connected_manager_def register_peer_def signet_manager_def with_start_height_def Let_def
      sample_headers_def sample_hdr_def add_header_def append_header_to_disk_def signet_def get_checkpoint_def
      global_inflight_def per_peer_inflight_def)

lemma poll_two: "poll_assign (\<lambda>_. 0) sample_peer (push_many [1, 2] (downloader_new 16 4)) =
    ([1, 2], \<lparr>inflight = [(1, sample_peer, int blk_timeout), (2, sample_peer, int blk_timeout)],
      per_peer = [(sample_peer, 2)], global_window = 16, per_peer_window = 4, queue = [], total_blocks = 2,
      downloaded_blocks = 0\<rparr>)"
  by (simp add: dl_exec)

lemma sync_run:
  "\<exists>m' ts. event_loop sample_headers [sample_tick] (signet_manager, 0) = Some (m', ts) \<and>
     outbox m' = [(sample_peer, GetData [InvWitnessBlock 1, InvWitnessBlock 2])] \<and> headers_synced m'"
proof -
  obtain m1 where m1: "extend_headers sample_headers (\<lambda>_. True) [sample_hdr 0 1, sample_hdr 1 2] connected_manager = Some (2, m1)"
    "recent_chain m1 = [0, 1, 2]" "header_chain_height m1 = 2" "best_known_height m1 = 146"
    "pm_downloader m1 = downloader_new 16 4" "\<not> headers_synced m1" "pm_start_height m1 = 0"
    "peers m1 = peers connected_manager" "outbox m1 = []"
    using connected_extend by blast
  have "skip_count 0 = 1" by (simp add: skip_count_def)
  then have c: "check_headers_sync_complete m1 =
      m1\<lparr>headers_synced := True, pm_downloader := push_many [1, 2] (downloader_new 16 4)\<rparr>"
    using m1 by (simp add: check_headers_sync_complete_def queue_blocks_from_headers_def Let_def)
  have f: "outbox (finish_batch sample_world sample_peer m1) = [(sample_peer, GetData [InvWitnessBlock 1, InvWitnessBlock 2])]"
    "headers_synced (finish_batch sample_world sample_peer m1)"
    using m1(8,9) connected_manager_fields(6)
    by (simp_all add: finish_batch_def c assign_blocks_def sample_world_fields poll_two send_to_def)
  then show ?thesis
    using m1(1) by (simp add: tick_exec handle_message_def on_headers_def max_headers_per_msg_def)
qed

section \<open>Properties\<close>

lemma event_loop_start:
  assumes "list_all (\<lambda>T. iteration_order (t_timeout_order T)) Ts"
    and "event_loop H Ts (with_start_height H net h file, ts) = Some (m, ts')"
  shows "pm_invar H (file = NoFile) m"
  using event_loop_ok [OF _ assms(1), of H "file = NoFile" "(with_start_height H net h file, ts)"] pm_invar_start assms(2)
  by (simp add: ensures_def)



text \<open>C13. Every header the node stores has passed the checks: starting without a header
  file, after any run of the event loop no hash is stored twice, every header
  connects to an earlier one and every checkpoint height holds its checkpoint.\<close>

theorem event_loop_headers_checked:
  assumes "list_all (\<lambda>T. iteration_order (t_timeout_order T)) Ts"
    and "event_loop H Ts (with_start_height H net h NoFile, ts) = Some (m, ts')"
  shows "distinct (recent_chain m) \<and>
    (\<forall>k < length (header_chain m). prev_blockhash (header_chain m ! k) \<in> set (take (Suc k) (recent_chain m))) \<and>
    (\<forall>k cp. 0 < k \<and> k < length (recent_chain m) \<and>
       get_checkpoint (parse_hash H) (of_nat k) (for_network (parse_hash H) (pm_net m)) = Some cp \<longrightarrow> recent_chain m ! k = cp)"
proof -
  have "chain_checked H m" "pm_chain_params m = for_network (parse_hash H) (pm_net m)"
    using event_loop_start [OF assms] by (simp_all add: pm_invar_def chain_views_def)
  then show ?thesis by (fastforce simp: chain_checked_def checkpoint_ok_def)
qed

theorem event_loop_headers_checked_witness:
  "\<exists>m ts'. event_loop sample_headers [sample_tick] (signet_manager, 0) = Some (m, ts') \<and> distinct (recent_chain m)"
proof -
  have "list_all (\<lambda>T. iteration_order (t_timeout_order T)) [sample_tick]"
    by (simp add: sample_tick_def iteration_order_rev)
  with event_loop_headers_checked [of "[sample_tick]" sample_headers Signet 0 0] sync_run show ?thesis
    unfolding signet_manager_def by blast
qed

text \<open>C14. Headers first: as long as header sync is not over, no block has been asked for,
  queued or passed to the block processor.\<close>

theorem event_loop_headers_first:
  assumes "list_all (\<lambda>T. iteration_order (t_timeout_order T)) Ts"
    and "event_loop H Ts (with_start_height H net h file, ts) = Some (m, ts')" and "\<not> headers_synced m"
  shows "pending (pm_downloader m) = {} \<and> (\<forall>a items. (a, GetData items) \<notin> set (outbox m)) \<and>
    block_tx m \<in> {None, Some []}"
  using event_loop_start [OF assms(1,2)] assms(3) by (auto simp: pm_invar_def headers_first_def)

theorem event_loop_headers_first_witness:
  "\<exists>m ts'. event_loop sample_headers [quiet_tick] (signet_manager, 0) = Some (m, ts') \<and> sync_peer m = Some sample_peer \<and>
     pending (pm_downloader m) = {}"
proof -
  have "list_all (\<lambda>T. iteration_order (t_timeout_order T)) [quiet_tick]"
    by (simp add: quiet_tick_def sample_tick_def iteration_order_rev)
  from event_loop_headers_first [OF this quiet_run [unfolded signet_manager_def] connected_manager_fields(3)] quiet_run
  show ?thesis by (auto simp: connected_manager_fields(4))
qed

text \<open>C16. The node asks only for blocks whose header it has stored.\<close>

theorem event_loop_requests_known:
  assumes "list_all (\<lambda>T. iteration_order (t_timeout_order T)) Ts"
    and "event_loop H Ts (with_start_height H net h file, ts) = Some (m, ts')"
    and "(a, GetData items) \<in> set (outbox m)" and "InvWitnessBlock b \<in> set items"
  shows "b \<in> set (recent_chain m)"
proof -
  have "b \<in> set (block_items items)" using assms(4) by (force simp: block_items_def List.map_filter_def)
  moreover have "requests_known m" "set (have_header m) = set (recent_chain m)"
    using event_loop_start [OF assms(1,2)] unfolding pm_invar_def chain_views_def by blast+
  ultimately show ?thesis using assms(3) by (auto simp: requests_known_def)
qed

theorem event_loop_requests_known_witness:
  "\<exists>m ts'. event_loop sample_headers [sample_tick] (signet_manager, 0) = Some (m, ts') \<and>
     (sample_peer, GetData [InvWitnessBlock 1, InvWitnessBlock 2]) \<in> set (outbox m) \<and> 2 \<in> set (recent_chain m)"
proof -
  obtain m ts' where m: "event_loop sample_headers [sample_tick] (signet_manager, 0) = Some (m, ts')"
    "(sample_peer, GetData [InvWitnessBlock 1, InvWitnessBlock 2]) \<in> set (outbox m)" using sync_run by auto
  have "list_all (\<lambda>T. iteration_order (t_timeout_order T)) [sample_tick]"
    by (simp add: sample_tick_def iteration_order_rev)
  from event_loop_requests_known [OF this m(1) [unfolded signet_manager_def] m(2), of 2] m show ?thesis by auto
qed

subsection \<open>Connections\<close>

lemma add_outbound_peers:
  "length (peers (snd (add_outbound H W k a m))) \<le> Suc (length (peers m))"
  "fst (add_outbound H W k a m) = Inl e \<Longrightarrow> snd (add_outbound H W k a m) = m"
proof -
  have "peers (select_sync_peer H a p m) = peers m" for p m
    by (simp add: select_sync_peer_def Let_def)
  moreover have "length (hm_insert a p ps) \<le> Suc (length ps)" for p and ps :: "(socket_addr, peer) hmap"
    by (induction ps) auto
  ultimately show "length (peers (snd (add_outbound H W k a m))) \<le> Suc (length (peers m))"
    by (auto simp: add_outbound_def Let_def register_peer_def split: dial_result.splits sum.splits)
  show "fst (add_outbound H W k a m) = Inl e \<Longrightarrow> snd (add_outbound H W k a m) = m"
    by (auto simp: add_outbound_def Let_def split: if_splits dial_result.splits sum.splits)
qed

lemma boot_addrs_bound:
  assumes "boot_addrs H W addrs (a, c, m) = (r, a', c', m')" and "c \<le> 6" and "a \<le> 30"
  shows "c' \<le> 6 \<and> a' \<le> 30 \<and> c \<le> c' \<and> length (peers m') + c \<le> length (peers m) + c'"
  using assms
proof (induction addrs arbitrary: a c m)
  case Nil
  then show ?case by simp
next
  case (Cons x xs)
  obtain rr m1 where ao: "add_outbound H W (a + 1) x m = (rr, m1)" by (cases "add_outbound H W (a + 1) x m")
  show ?case
  proof (cases "boot_full a c \<or> hm_contains (peers m) x")
    case True
    with Cons.prems Cons.IH [of "a + 1" c m] show ?thesis by (auto simp: boot_full_def split: if_splits)
  next
    case False
    then have lim: "c < 6" "a < 30" by (auto simp: boot_full_def)
    show ?thesis
    proof (cases rr)
      case (Inl e)
      with ao add_outbound_peers(2) [of H W "a + 1" x m e] have "m1 = m" by simp
      with Inl False Cons.prems ao lim Cons.IH [of "a + 1" c m] show ?thesis by simp
    next
      case (Inr u)
      have "length (peers m1) \<le> Suc (length (peers m))" using add_outbound_peers(1) [of H W "a + 1" x m] ao by simp
      with Inr False Cons.prems ao lim Cons.IH [of "a + 1" "c + 1" m1] show ?thesis by auto
    qed
  qed
qed

lemma boot_seeds_bound:
  assumes "boot_seeds H W seeds (a, c, m) = (n, m')" and "c \<le> 6" and "a \<le> 30"
  shows "n \<le> 6 \<and> c \<le> n \<and> length (peers m') + c \<le> length (peers m) + n"
  using assms
proof (induction seeds arbitrary: a c m)
  case Nil
  then show ?case by simp
next
  case (Cons x xs)
  obtain r a1 c1 m1 where b: "(case resolve W (seed_target (pm_net m) x) of
      None \<Rightarrow> (False, a, c, m) | Some addrs \<Rightarrow> boot_addrs H W addrs (a, c, m)) = (r, a1, c1, m1)" by (metis surj_pair)
  then have "c1 \<le> 6 \<and> a1 \<le> 30 \<and> c \<le> c1 \<and> length (peers m1) + c \<le> length (peers m) + c1"
    using Cons.prems(2,3) boot_addrs_bound by (auto split: option.splits)
  with Cons.IH [of a1 c1 m1] Cons.prems(1) b show ?case by (auto split: if_splits)
qed

text \<open>One bootstrap connects at most six new peers, whatever the seeds answer.\<close>

theorem bootstrap_bounded:
  "fst (bootstrap H W m) \<le> 6 \<and> length (peers (snd (bootstrap H W m))) \<le> length (peers m) + fst (bootstrap H W m)"
  using boot_seeds_bound [of H W "dns_seeds (pm_net m)" 0 0 m] by (simp add: bootstrap_def prod_eq_iff)

text \<open>A suitable new peer leaves a sync peer at least as high: after it has shaken hands
  during header sync, the sync peer's announced height is not below the new peer's.\<close>

theorem sync_peer_is_high:
  assumes "\<not> headers_synced m" and "\<not> hm_contains (peers m) addr" and "dial W k addr = Dialled send_ok rs"
    and "handshake send_ok rs (pm_start_height m) (service_witness H) peer_connect = Inr (p, out)"
    and "has_network H (their_services p)" and "0 < sint (their_start_height p)"
    and "add_outbound H W k addr m = (r, m')"
  shows "\<exists>a h. sync_peer m' = Some a \<and> hm_get (peer_heights m') a = Some h \<and> sint (their_start_height p) \<le> sint h"
  using assms
  by (auto simp: add_outbound_def Let_def select_sync_peer_def register_peer_def hm_simps not_less
      split: option.splits if_splits)

theorem sync_peer_is_high_witness:
  "\<exists>a h. sync_peer (snd (add_outbound sample_headers sample_world 0 sample_peer signet_manager)) = Some a \<and>
     hm_get (peer_heights (snd (add_outbound sample_headers sample_world 0 sample_peer signet_manager))) a = Some h \<and>
     146 \<le> sint h"
proof -
  have "dial sample_world 0 sample_peer = Dialled (\<lambda>_. True)
      [RecvMsg (Version \<lparr>vm_version = 70016, vm_services = 9, vm_start_height = 146\<rparr>), RecvMsg Verack]"
    by (simp add: sample_world_def)
  from sync_peer_is_high [OF signet_manager_fields(2) _ this sample_handshake _ _ prod.collapse [symmetric]]
  show ?thesis by (simp add: signet_manager_fields hm_contains_def sample_headers_def)
qed

section \<open>Where the code departs from its intent\<close>

text \<open>A connected sync peer that stays silent is never replaced: every header request
  resets the clock the stall limit is measured by.\<close>

lemma silent_sync_peer_kept:
  assumes "\<not> headers_synced m" and "sync_peer m = Some a" and "hm_contains (peers m) a"
    and "periodic_request H W (m, ts) = Some (m', ts')" and "wall W2 \<le> wall W + int (from_secs (15 * 60 - 2))"
  shows "stall_check H W2 (m', ts') = (m', ts')"
  using assms
  by (auto simp: periodic_request_def stall_check_def stall_limit_def from_secs_def initial_rereq_secs_def Let_def
      bind_eq_Some_conv split: if_splits)

text \<open>A sync peer that disconnected keeps its place: no header is requested until the
  stall limit of fifteen minutes.\<close>

lemma lost_sync_peer_blocks_requests:
  "\<not> headers_synced m \<Longrightarrow> sync_peer m = Some a \<Longrightarrow> \<not> hm_contains (peers m) a \<Longrightarrow>
     periodic_request H W (m, ts) = Some (m, ts)"
  by (simp add: periodic_request_def)

text \<open>The stall branch does not reset the clock, so it runs again in every iteration.\<close>

lemma stall_not_reset: "snd (stall_check H W (m, ts)) = ts"
  by (simp add: stall_check_def Let_def)

end
