(* ===== verification/Kernel_Wrapper.thy ===== *)
theory Kernel_Wrapper
  imports Net_Types
begin

text \<open>
  The wrapper around libbitcoinkernel, \<^verbatim>\<open>src/kernel/mod.rs\<close>: \<open>Kernel::new\<close>, the
  queries, block import and processing, \<open>Drop\<close>.

  The C library is an argument, the record \<open>btck_api\<close>: whether a constructor
  returns a non-null pointer, what a chainstate \<open>'c\<close> loads from disk, what
  processing a block does to it.  A ledger records the handles that are live, and
  a fault for every call on a handle that is not: a double free or a use after
  free of the source would be a fault of the model.
\<close>

section \<open>The foreign interface\<close>

type_synonym handle = nat

datatype ffi_kind = ContextOptions | ChainParameters | Context | ManagerOptions | Manager | BlockObject

record 'c ffi_state =
  live :: "(handle, ffi_kind) hmap"
  next_handle :: handle
  chains :: "(handle, 'c) hmap"
  faults :: "(ffi_kind \<times> handle) list"

definition ffi_create :: "ffi_kind \<Rightarrow> bool \<Rightarrow> 'c ffi_state \<Rightarrow> handle option \<times> 'c ffi_state" where
  "ffi_create K ok w =
     (if ok then (Some (next_handle w), w\<lparr>live := hm_insert (next_handle w) K (live w), next_handle := next_handle w + 1\<rparr>)
      else (None, w))"

definition ffi_use :: "ffi_kind \<Rightarrow> handle \<Rightarrow> 'c ffi_state \<Rightarrow> 'c ffi_state" where
  "ffi_use K h w = (if hm_get (live w) h = Some K then w else w\<lparr>faults := faults w @ [(K, h)]\<rparr>)"

definition ffi_destroy :: "ffi_kind \<Rightarrow> handle \<Rightarrow> 'c ffi_state \<Rightarrow> 'c ffi_state" where
  "ffi_destroy K h w =
     (if hm_get (live w) h = Some K then w\<lparr>live := hm_remove h (live w), chains := hm_remove h (chains w)\<rparr>
      else w\<lparr>faults := faults w @ [(K, h)]\<rparr>)"

text \<open>An entry of the block tree is the hash it points to, \<open>None\<close> for a null pointer.\<close>

record btck_chain =
  chain_height :: i32
  chain_genesis :: "block_hash option option"
  chain_tip :: "block_hash option option"
  chain_by_height :: "i32 \<Rightarrow> block_hash option option"

record 'c btck_api =
  context_options_ok :: bool
  chain_parameters_ok :: "u8 \<Rightarrow> bool"
  context_ok :: bool
  manager_options_ok :: "string \<Rightarrow> string \<Rightarrow> bool"
  manager_load :: "string \<Rightarrow> string \<Rightarrow> 'c option"
  active_chain :: "'c \<Rightarrow> btck_chain option"
  block_ok :: "u8 list \<Rightarrow> bool"
  manager_process_block :: "u8 list \<Rightarrow> 'c \<Rightarrow> i32 \<times> i32 \<times> 'c"
  manager_import_blocks :: "string list \<Rightarrow> 'c \<Rightarrow> i32 \<times> 'c"

text \<open>The file system: \<open>canonicalize\<close> before and after the directory is created.\<close>

record file_system =
  canonicalize :: "string \<Rightarrow> string option"
  canonicalize_created :: "string \<Rightarrow> string option"

section \<open>The wrapper\<close>

record kernel =
  k_ctx :: handle
  k_chain_params :: handle
  k_chainman :: handle

datatype wrapper_error =
  CreateFailed ffi_kind
| NulError
| GenesisEncodingError string
| NoActiveChain
| NoChainTip
| NoBlockHash
| BlockNotFound i32
| ProcessBlockFailed i32 i32

definition chain_type_of :: "string \<Rightarrow> u8" where
  "chain_type_of chain =
     (if chain = ''main'' \<or> chain = ''mainnet'' then 0
      else if chain = ''testnet'' then 1
      else if chain = ''testnet4'' then 2
      else if chain = ''signet'' then 3
      else 4)"

definition genesis_network :: "u8 \<Rightarrow> network" where
  "genesis_network chain_type =
     (if chain_type = 0 then Bitcoin
      else if chain_type = 1 \<or> chain_type = 2 then Testnet
      else if chain_type = 3 then Signet
      else Regtest)"

definition absolute_dir :: "file_system \<Rightarrow> string \<Rightarrow> string" where
  "absolute_dir fs dir =
     (case canonicalize fs dir of
        Some p \<Rightarrow> p
      | None \<Rightarrow> (case canonicalize_created fs dir of Some p \<Rightarrow> p | None \<Rightarrow> dir))"

text \<open>\<open>CString::new\<close> fails on a string with a NUL.\<close>

definition has_nul :: "string \<Rightarrow> bool" where
  "has_nul s \<longleftrightarrow> CHR 0x00 \<in> set s"

fun unwrap_or :: "'a \<Rightarrow> 'e + 'a \<Rightarrow> 'a" where
  "unwrap_or d (Inl e) = d"
| "unwrap_or d (Inr x) = x"

subsection \<open>Queries\<close>

definition get_active_chain :: "'c btck_api \<Rightarrow> kernel \<Rightarrow> 'c ffi_state \<Rightarrow> btck_chain option \<times> 'c ffi_state" where
  "get_active_chain A k w =
     (case hm_get (chains w) (k_chainman k) of None \<Rightarrow> None | Some c \<Rightarrow> active_chain A c, ffi_use Manager (k_chainman k) w)"

definition active_height :: "'c btck_api \<Rightarrow> kernel \<Rightarrow> 'c ffi_state \<Rightarrow> (wrapper_error + i32) \<times> 'c ffi_state" where
  "active_height A k w =
     (let (chain, w) = get_active_chain A k w
      in (Inr (case chain of None \<Rightarrow> - 1 | Some ch \<Rightarrow> chain_height ch), w))"

definition get_height :: "'c btck_api \<Rightarrow> kernel \<Rightarrow> 'c ffi_state \<Rightarrow> (wrapper_error + i32) \<times> 'c ffi_state" where
  "get_height = active_height"

definition get_best_block_hash :: "'c btck_api \<Rightarrow> kernel \<Rightarrow> 'c ffi_state \<Rightarrow> (wrapper_error + block_hash) \<times> 'c ffi_state" where
  "get_best_block_hash A k w =
     (let (chain, w) = get_active_chain A k w
      in (case chain of
            None \<Rightarrow> Inl NoActiveChain
          | Some ch \<Rightarrow> (case chain_tip ch of
                         None \<Rightarrow> Inl NoChainTip
                       | Some None \<Rightarrow> Inl NoBlockHash
                       | Some (Some h) \<Rightarrow> Inr h), w))"

definition get_block_hash ::
  "'c btck_api \<Rightarrow> kernel \<Rightarrow> i32 \<Rightarrow> 'c ffi_state \<Rightarrow> (wrapper_error + block_hash) \<times> 'c ffi_state" where
  "get_block_hash A k height w =
     (let (chain, w) = get_active_chain A k w
      in (case chain of
            None \<Rightarrow> Inl NoActiveChain
          | Some ch \<Rightarrow> (case chain_by_height ch height of
                         None \<Rightarrow> Inl (BlockNotFound height)
                       | Some None \<Rightarrow> Inl NoBlockHash
                       | Some (Some h) \<Rightarrow> Inr h), w))"

subsection \<open>Changing the chainstate\<close>

definition import_blocks ::
  "'c btck_api \<Rightarrow> kernel \<Rightarrow> string list \<Rightarrow> 'c ffi_state \<Rightarrow> (wrapper_error + i32) \<times> 'c ffi_state" where
  "import_blocks A k paths w =
     (if \<exists>p \<in> set paths. has_nul p then (Inl NulError, w)
      else
        let w = ffi_use Manager (k_chainman k) w in
        case hm_get (chains w) (k_chainman k) of
          None \<Rightarrow> (Inr (- 1), w)
        | Some c \<Rightarrow>
            let (rc, c') = manager_import_blocks A paths c
            in (Inr rc, w\<lparr>chains := hm_insert (k_chainman k) c' (chains w)\<rparr>))"

definition process_block_ffi ::
  "'c btck_api \<Rightarrow> handle \<Rightarrow> handle \<Rightarrow> u8 list \<Rightarrow> 'c ffi_state \<Rightarrow> i32 \<times> i32 \<times> 'c ffi_state" where
  "process_block_ffi A chainman block raw w =
     (let w = ffi_use BlockObject block (ffi_use Manager chainman w) in
      case hm_get (chains w) chainman of
        None \<Rightarrow> (- 1, 0, w)
      | Some c \<Rightarrow>
          let (rc, new_block, c') = manager_process_block A raw c
          in (rc, new_block, w\<lparr>chains := hm_insert chainman c' (chains w)\<rparr>))"

definition process_block ::
  "'c btck_api \<Rightarrow> kernel \<Rightarrow> u8 list \<Rightarrow> 'c ffi_state \<Rightarrow> (wrapper_error + unit) \<times> 'c ffi_state" where
  "process_block A k raw w =
     (let (height_before, w) = active_height A k w in
      case ffi_create BlockObject (block_ok A raw) w of
        (None, w) \<Rightarrow> (Inl (CreateFailed BlockObject), w)
      | (Some ptr, w) \<Rightarrow>
          let (rc, new_block, w) = process_block_ffi A (k_chainman k) ptr raw w;
              w = ffi_destroy BlockObject ptr w;
              is_already_known = (rc = - 1 \<and> new_block = 0);
              is_error = (rc \<noteq> 0 \<and> \<not> is_already_known)
          in if is_error then (Inl (ProcessBlockFailed rc new_block), w)
             else let (height_after, w) = active_height A k w in (Inr (), w))"

subsection \<open>Drop\<close>

definition kernel_drop :: "kernel \<Rightarrow> 'c ffi_state \<Rightarrow> 'c ffi_state" where
  "kernel_drop k w =
     ffi_destroy ChainParameters (k_chain_params k) (ffi_destroy Context (k_ctx k) (ffi_destroy Manager (k_chainman k) w))"

subsection \<open>Construction\<close>

definition create_context :: "'c btck_api \<Rightarrow> u8 \<Rightarrow> 'c ffi_state \<Rightarrow> (wrapper_error + handle \<times> handle) \<times> 'c ffi_state" where
  "create_context A chain_type w =
     (case ffi_create ContextOptions (context_options_ok A) w of
        (None, w) \<Rightarrow> (Inl (CreateFailed ContextOptions), w)
      | (Some ctx_opts, w) \<Rightarrow>
          (case ffi_create ChainParameters (chain_parameters_ok A chain_type) w of
             (None, w) \<Rightarrow> (Inl (CreateFailed ChainParameters), ffi_destroy ContextOptions ctx_opts w)
           | (Some chain_params, w) \<Rightarrow>
               let w = ffi_use ChainParameters chain_params (ffi_use ContextOptions ctx_opts w) in
               (case ffi_create Context (context_ok A) (ffi_use ContextOptions ctx_opts w) of
                  (None, w) \<Rightarrow> (Inl (CreateFailed Context),
                     ffi_destroy ChainParameters chain_params (ffi_destroy ContextOptions ctx_opts w))
                | (Some ctx, w) \<Rightarrow> (Inr (ctx, chain_params), ffi_destroy ContextOptions ctx_opts w))))"

definition create_manager ::
  "'c btck_api \<Rightarrow> string \<Rightarrow> string \<Rightarrow> handle \<Rightarrow> handle \<Rightarrow> 'c ffi_state \<Rightarrow> (wrapper_error + kernel) \<times> 'c ffi_state" where
  "create_manager A data blocks ctx chain_params w =
     (if has_nul data \<or> has_nul blocks then (Inl NulError, w)
      else case ffi_create ManagerOptions (manager_options_ok A data blocks) (ffi_use Context ctx w) of
        (None, w) \<Rightarrow> (Inl (CreateFailed ManagerOptions), ffi_destroy ChainParameters chain_params (ffi_destroy Context ctx w))
      | (Some chainman_opts, w) \<Rightarrow>
          let w = ffi_use ManagerOptions chainman_opts w in
          (case ffi_create Manager (manager_load A data blocks \<noteq> None) (ffi_use ManagerOptions chainman_opts w) of
             (None, w) \<Rightarrow> (Inl (CreateFailed Manager),
                ffi_destroy ManagerOptions chainman_opts (ffi_destroy ChainParameters chain_params (ffi_destroy Context ctx w)))
           | (Some chainman, w) \<Rightarrow>
               let w = (case manager_load A data blocks of
                          None \<Rightarrow> w
                        | Some c \<Rightarrow> w\<lparr>chains := hm_insert chainman c (chains w)\<rparr>)
               in (Inr \<lparr>k_ctx = ctx, k_chain_params = chain_params, k_chainman = chainman\<rparr>,
                   ffi_destroy ManagerOptions chainman_opts w)))"

text \<open>Processing the genesis block; an encoding error returns early and so drops the kernel.\<close>

definition submit_genesis ::
  "'c btck_api \<Rightarrow> (network \<Rightarrow> string + u8 list) \<Rightarrow> u8 \<Rightarrow> kernel \<Rightarrow> 'c ffi_state \<Rightarrow> (wrapper_error + kernel) \<times> 'c ffi_state" where
  "submit_genesis A genesis_bytes chain_type k w =
     (case genesis_bytes (genesis_network chain_type) of
        Inl e \<Rightarrow> (Inl (GenesisEncodingError e), kernel_drop k w)
      | Inr bytes \<Rightarrow> let (_, w) = process_block A k bytes w in (Inr k, w))"

definition init_genesis ::
  "'c btck_api \<Rightarrow> (network \<Rightarrow> string + u8 list) \<Rightarrow> u8 \<Rightarrow> kernel \<Rightarrow> 'c ffi_state \<Rightarrow> (wrapper_error + kernel) \<times> 'c ffi_state" where
  "init_genesis A genesis_bytes chain_type k w =
     (let (chain, w) = get_active_chain A k w;
          needs_genesis = (case chain of None \<Rightarrow> True | Some ch \<Rightarrow> chain_genesis ch = None)
      in if needs_genesis then submit_genesis A genesis_bytes chain_type k w
         else
           let (height, w) = active_height A k w
           in if unwrap_or 0 height = 0 then submit_genesis A genesis_bytes chain_type k w else (Inr k, w))"

definition kernel_new ::
  "'c btck_api \<Rightarrow> file_system \<Rightarrow> (network \<Rightarrow> string + u8 list) \<Rightarrow> string \<Rightarrow> string \<Rightarrow> string \<Rightarrow> 'c ffi_state \<Rightarrow>
   (wrapper_error + kernel) \<times> 'c ffi_state" where
  "kernel_new A fs genesis_bytes chain datadir blocksdir w =
     (case create_context A (chain_type_of chain) w of
        (Inl e, w) \<Rightarrow> (Inl e, w)
      | (Inr (ctx, chain_params), w) \<Rightarrow>
          (case create_manager A (absolute_dir fs datadir) (absolute_dir fs blocksdir) ctx chain_params w of
             (Inl e, w) \<Rightarrow> (Inl e, w)
           | (Inr k, w) \<Rightarrow> init_genesis A genesis_bytes (chain_type_of chain) k w))"

section \<open>The ledger\<close>

definition ledger_ok :: "'c ffi_state \<Rightarrow> bool" where
  "ledger_ok w \<longleftrightarrow> distinct (map fst (live w)) \<and> (\<forall>h \<in> fst ` set (live w). h < next_handle w)"

lemma hm_remove_rec [simp]:
  "hm_remove h [] = []"
  "hm_remove h ((k, v) # m) = (if k = h then hm_remove h m else (k, v) # hm_remove h m)"
  by (simp_all add: hm_remove_def)

text \<open>What a piece of code may do to the ledger: it adds the handles \<open>new\<close>, makes no bad call
  and leaves the chainstates of older managers alone.\<close>

definition adds :: "(handle \<times> ffi_kind) list \<Rightarrow> 'c ffi_state \<Rightarrow> 'c ffi_state \<Rightarrow> bool" where
  "adds new w w' \<longleftrightarrow> live w' = live w @ new \<and> faults w' = faults w \<and> next_handle w \<le> next_handle w' \<and>
     (\<forall>h \<in> fst ` set new. next_handle w \<le> h) \<and> ledger_ok w' \<and>
     (\<forall>h < next_handle w. hm_get (chains w') h = hm_get (chains w) h)"

lemma adds_refl: "ledger_ok w \<Longrightarrow> adds [] w w"
  by (simp add: adds_def)

lemma adds_distinct: "adds new w w' \<Longrightarrow> distinct (map fst new)"
  by (auto simp: adds_def ledger_ok_def)

lemma adds_disjoint:
  assumes "adds new w w'"
  shows "fst ` set (live w) \<inter> fst ` set new = {}"
proof -
  have "live w' = live w @ new" and "distinct (map fst (live w'))" using assms unfolding adds_def ledger_ok_def by blast+
  then show ?thesis by simp
qed

lemma ledger_ok_chains [simp]: "ledger_ok (w\<lparr>chains := cs\<rparr>) \<longleftrightarrow> ledger_ok w"
  by (simp add: ledger_ok_def)

lemma adds_create [consumes 1, case_names null handle]:
  assumes "adds new w w'"
  obtains "ffi_create K ok w' = (None, w')" and "\<not> ok"
  | h w'' where "ffi_create K ok w' = (Some h, w'')" and "ok" and "adds (new @ [(h, K)]) w w''"
      and "chains w'' = chains w'" and "next_handle w \<le> h"
proof (cases ok)
  case True
  have "next_handle w' \<notin> fst ` set (live w')" using assms unfolding adds_def ledger_ok_def by blast
  then have "hm_get (live w') (next_handle w') = None" by (simp add: map_of_eq_None_iff)
  then have fresh: "hm_insert (next_handle w') K (live w') = live w' @ [(next_handle w', K)]" by (rule hm_insert_fresh)
  have "ledger_ok w'" using assms by (simp add: adds_def)
  then have "ledger_ok (w'\<lparr>live := live w' @ [(next_handle w', K)], next_handle := Suc (next_handle w')\<rparr>)"
    by (fastforce simp: ledger_ok_def)
  with True assms that(2) show ?thesis unfolding ffi_create_def fresh by (simp add: adds_def)
next
  case False
  with that(1) show ?thesis by (simp add: ffi_create_def)
qed

lemma adds_lookup:
  assumes "adds new w w'"
  shows "hm_get new h = Some K \<Longrightarrow> hm_get (live w') h = Some K"
    and "hm_get (live w) h = Some K \<Longrightarrow> hm_get (live w') h = Some K"
  using assms by (auto simp: adds_def ledger_ok_def map_add_def dest: map_of_SomeD split: option.splits) 
    (metis (no_types, lifting) IntI UnCI disjoint_iff fst_conv image_eqI map_of_SomeD)+

lemma adds_use:
  assumes "adds new w w'" and "hm_get new h = Some K \<or> hm_get (live w) h = Some K"
  shows "ffi_use K h w' = w'"
  using assms adds_lookup [OF assms(1), of h K] by (auto simp: ffi_use_def)

lemma adds_destroy:
  assumes "adds new w w'" and "hm_get new h = Some K"
  shows "adds (hm_remove h new) w (ffi_destroy K h w')"
proof -
  have mem: "h \<in> fst ` set new" using assms(2) by (force dest: map_of_SomeD)
  then have old: "h \<notin> fst ` set (live w)" using adds_disjoint [OF assms(1)] by blast
  have ge: "next_handle w \<le> h" using mem assms(1) unfolding adds_def by blast
  have "hm_remove h (live w') = live w @ hm_remove h new"
    using assms(1) old by (force simp: adds_def hm_remove_def filter_id_conv)
  moreover have "ledger_ok w'" using assms(1) by (simp add: adds_def)
  then have "ledger_ok (w'\<lparr>live := hm_remove h (live w'), chains := hm_remove h (chains w')\<rparr>)"
    by (simp add: ledger_ok_def hm_remove_def distinct_map_filter)
  moreover have "\<forall>x \<in> set (hm_remove h new). next_handle w \<le> fst x" using assms(1) by (simp add: adds_def hm_remove_def)
  ultimately show ?thesis using assms(1) ge adds_lookup(1) [OF assms]
    unfolding adds_def ffi_destroy_def by (simp add: hm_simps)
qed

lemma adds_chains:
  assumes "adds new w w'" and "next_handle w \<le> h"
  shows "adds new w (w'\<lparr>chains := hm_insert h c (chains w')\<rparr>)"
  using assms by (simp add: adds_def hm_simps)

text \<open>The context: on an error every handle made so far is released.\<close>

lemma create_context_adds:
  assumes "ledger_ok w" and "create_context A ct w = (r, w')"
  shows "case r of Inl e \<Rightarrow> adds [] w w' | Inr (ctx, cp) \<Rightarrow> adds [(cp, ChainParameters), (ctx, Context)] w w'"
  using adds_refl [OF assms(1)]
proof (cases rule: adds_create [where K = ContextOptions and ok = "context_options_ok A"])
  case null
  with assms show ?thesis by (auto simp: create_context_def adds_refl)
next
  case (handle co w1)
  from handle(3) show ?thesis
  proof (cases rule: adds_create [where K = ChainParameters and ok = "chain_parameters_ok A ct"])
    case null
    with handle assms(2) adds_destroy [OF handle(3), of co ContextOptions] show ?thesis
      by (auto simp: create_context_def)
  next
    case cp: (handle cp w2)
    then have ne: "co \<noteq> cp" using adds_distinct by fastforce
    with cp have use: "ffi_use ContextOptions co w2 = w2" "ffi_use ChainParameters cp w2 = w2" by (simp_all add: adds_use)
    from cp(3) show ?thesis
    proof (cases rule: adds_create [where K = Context and ok = "context_ok A"])
      case null
      have "adds [] w (ffi_destroy ChainParameters cp (ffi_destroy ContextOptions co w2))"
        using adds_destroy [OF adds_destroy [OF cp(3), of co ContextOptions], of cp ChainParameters] ne by simp
      with null handle cp use assms(2) show ?thesis by (auto simp: create_context_def Let_def)
    next
      case ctx: (handle ctx w3)
      then have "co \<noteq> ctx" "cp \<noteq> ctx" using adds_distinct by fastforce+
      with ne adds_destroy [OF ctx(3), of co ContextOptions] ctx handle cp use assms(2) show ?thesis
        by (auto simp: create_context_def Let_def)
    qed
  qed
qed

lemma create_manager_adds:
  assumes "adds [(cp, ChainParameters), (ctx, Context)] w w0" and "\<not> has_nul data" and "\<not> has_nul blocks"
    and "create_manager A data blocks ctx cp w0 = (r, w')"
  shows "case r of Inl e \<Rightarrow> adds [] w w'
    | Inr k \<Rightarrow> adds [(cp, ChainParameters), (ctx, Context), (k_chainman k, Manager)] w w' \<and> k_ctx k = ctx \<and> k_chain_params k = cp \<and>
        hm_get (chains w') (k_chainman k) \<noteq> None"
proof -
  have ne: "cp \<noteq> ctx" using adds_distinct [OF assms(1)] by auto
  with assms(1) have use: "ffi_use Context ctx w0 = w0" by (simp add: adds_use)
  from assms(1) show ?thesis
  proof (cases rule: adds_create [where K = ManagerOptions and ok = "manager_options_ok A data blocks"])
    case null
    have "adds [] w (ffi_destroy ChainParameters cp (ffi_destroy Context ctx w0))"
      using adds_destroy [OF adds_destroy [OF assms(1), of ctx Context], of cp ChainParameters] ne by simp
    with null use assms(2-4) show ?thesis by (auto simp: create_manager_def)
  next
    case mo: (handle mo w1)
    then have ne1: "cp \<noteq> mo" "ctx \<noteq> mo" using adds_distinct by fastforce+
    with mo have use1: "ffi_use ManagerOptions mo w1 = w1" by (simp add: adds_use)
    from mo(3) show ?thesis
    proof (cases rule: adds_create [where K = Manager and ok = "manager_load A data blocks \<noteq> None"])
      case null
      have "adds [] w (ffi_destroy ManagerOptions mo (ffi_destroy ChainParameters cp (ffi_destroy Context ctx w1)))"
        using adds_destroy [OF adds_destroy [OF adds_destroy [OF mo(3), of ctx Context], of cp ChainParameters], of mo ManagerOptions]
          ne ne1 by simp
      with null use use1 mo assms(2-4) show ?thesis by (auto simp: create_manager_def Let_def)
    next
      case cm: (handle cm w2)
      then have ne2: "cp \<noteq> cm" "ctx \<noteq> cm" "mo \<noteq> cm" using adds_distinct by fastforce+
      obtain c where c: "manager_load A data blocks = Some c" using cm(2) by auto
      let ?w = "w2\<lparr>chains := hm_insert cm c (chains w2)\<rparr>"
      have "adds [(cp, ChainParameters), (ctx, Context), (mo, ManagerOptions), (cm, Manager)] w ?w"
        using adds_chains [OF cm(3,5)] by simp
      from adds_destroy [OF this, of mo ManagerOptions] ne ne1 ne2
      have "adds [(cp, ChainParameters), (ctx, Context), (cm, Manager)] w (ffi_destroy ManagerOptions mo ?w)" by simp
      moreover have "hm_get (chains (ffi_destroy ManagerOptions mo ?w)) cm = Some c"
        using ne2 by (simp add: ffi_destroy_def hm_simps)
      ultimately show ?thesis using cm mo use use1 assms(2-4) c by (auto simp: create_manager_def Let_def)
    qed
  qed
qed

section \<open>A kernel in use\<close>

definition kernel_live :: "kernel \<Rightarrow> 'c ffi_state \<Rightarrow> bool" where
  "kernel_live k w \<longleftrightarrow> ledger_ok w \<and> hm_get (live w) (k_ctx k) = Some Context \<and>
     hm_get (live w) (k_chain_params k) = Some ChainParameters \<and> hm_get (live w) (k_chainman k) = Some Manager \<and>
     hm_get (chains w) (k_chainman k) \<noteq> None"

text \<open>What an operation on a live kernel may do: nothing to the ledger, and to the
  chainstates only to its own.\<close>

definition steady :: "kernel \<Rightarrow> 'c ffi_state \<Rightarrow> 'c ffi_state \<Rightarrow> bool" where
  "steady k w w' \<longleftrightarrow> live w' = live w \<and> faults w' = faults w \<and> next_handle w \<le> next_handle w' \<and> ledger_ok w' \<and>
     (\<forall>h < next_handle w. h \<noteq> k_chainman k \<longrightarrow> hm_get (chains w') h = hm_get (chains w) h) \<and>
     hm_get (chains w') (k_chainman k) \<noteq> None"

lemma steady_refl: "kernel_live k w \<Longrightarrow> steady k w w"
  by (simp add: steady_def kernel_live_def)

lemma steady_trans: "steady k w w1 \<Longrightarrow> steady k w1 w2 \<Longrightarrow> steady k w w2"
  by (simp add: steady_def)

lemma steady_live: "kernel_live k w \<Longrightarrow> steady k w w' \<Longrightarrow> kernel_live k w'"
  by (simp add: kernel_live_def steady_def)

lemma kernel_live_less: "kernel_live k w \<Longrightarrow> k_chainman k < next_handle w"
  by (force simp: kernel_live_def ledger_ok_def dest: map_of_SomeD)

lemma use_chainman [simp]: "kernel_live k w \<Longrightarrow> ffi_use Manager (k_chainman k) w = w"
  by (simp add: ffi_use_def kernel_live_def)

lemma queries_live [simp]:
  assumes "kernel_live k w"
  shows "snd (get_active_chain A k w) = w" and "snd (active_height A k w) = w" and "snd (get_height A k w) = w"
    and "snd (get_best_block_hash A k w) = w" and "snd (get_block_hash A k n w) = w"
  using assms
  by (simp_all add: get_active_chain_def active_height_def get_height_def get_best_block_hash_def get_block_hash_def)

text \<open>The block object is released whatever the library answers, and the chainstate is the
  one the library leaves.\<close>

definition chain_after :: "'c btck_api \<Rightarrow> u8 list \<Rightarrow> 'c \<Rightarrow> 'c" where
  "chain_after A raw c = (if block_ok A raw then snd (snd (manager_process_block A raw c)) else c)"

definition block_verdict :: "'c btck_api \<Rightarrow> u8 list \<Rightarrow> 'c \<Rightarrow> wrapper_error + unit" where
  "block_verdict A raw c =
     (if \<not> block_ok A raw then Inl (CreateFailed BlockObject)
      else case manager_process_block A raw c of (rc, new_block, _) \<Rightarrow>
        if rc = 0 \<or> rc = - 1 \<and> new_block = 0 then Inr () else Inl (ProcessBlockFailed rc new_block))"

lemma process_block_live:
  assumes live: "kernel_live k w" and c: "hm_get (chains w) (k_chainman k) = Some c"
    and r: "process_block A k raw w = (r, w')"
  shows "steady k w w' \<and> hm_get (chains w') (k_chainman k) = Some (chain_after A raw c) \<and> r = block_verdict A raw c"
proof -
  have "adds [] w w" using live by (simp add: adds_refl kernel_live_def)
  then show ?thesis
  proof (cases rule: adds_create [where K = BlockObject and ok = "block_ok A raw"])
    case null
    with r queries_live(2) [OF live, of A] steady_refl [OF live] c show ?thesis
      by (auto simp: process_block_def chain_after_def block_verdict_def Let_def case_prod_beta)
  next
    case (handle b w1)
    obtain rc nb c' where p: "manager_process_block A raw c = (rc, nb, c')" by (cases "manager_process_block A raw c")
    let ?cs = "hm_insert (k_chainman k) c' (chains w)"
    have b: "hm_get (live w1) b = Some BlockObject" using adds_lookup(1) [OF handle(3)] by simp
    have m: "hm_get (live w1) (k_chainman k) = Some Manager"
      using adds_lookup(2) [OF handle(3)] live by (simp add: kernel_live_def)
    then have ffi: "process_block_ffi A (k_chainman k) b raw w1 = (rc, nb, w1\<lparr>chains := ?cs\<rparr>)"
      using b c p handle(4) by (simp add: process_block_ffi_def ffi_use_def)
    have "adds [(b, BlockObject)] (w\<lparr>chains := ?cs\<rparr>) (w1\<lparr>chains := ?cs\<rparr>)" using handle(3) by (simp add: adds_def)
    from adds_destroy [OF this, of b BlockObject]
    have a: "adds [] (w\<lparr>chains := ?cs\<rparr>) (ffi_destroy BlockObject b (w1\<lparr>chains := ?cs\<rparr>))" (is "adds _ _ ?w2") by simp
    then have s: "steady k w ?w2" "hm_get (chains ?w2) (k_chainman k) = Some c'"
      using kernel_live_less [OF live] by (auto simp: adds_def steady_def hm_simps)
    have "snd (active_height A k ?w2) = ?w2" using queries_live(2) [OF steady_live [OF live s(1)]] .
    with r ffi s handle(1,2) p queries_live(2) [OF live, of A] show ?thesis
      by (auto simp: process_block_def Let_def case_prod_beta chain_after_def block_verdict_def split: if_splits)
  qed
qed

lemma import_blocks_live:
  assumes "kernel_live k w" and "import_blocks A k paths w = (r, w')"
  shows "steady k w w'"
  using assms steady_refl [OF assms(1)] kernel_live_less [OF assms(1)]
  by (auto simp: import_blocks_def Let_def steady_def kernel_live_def hm_simps ffi_use_def
      split: if_splits option.splits prod.splits)

datatype kernel_op =
  Process_block "u8 list"
| Import_blocks "string list"
| Query_height
| Query_best_hash
| Query_hash i32

fun kernel_step :: "'c btck_api \<Rightarrow> kernel \<Rightarrow> kernel_op \<Rightarrow> 'c ffi_state \<Rightarrow> 'c ffi_state" where
  "kernel_step A k (Process_block raw) w = snd (process_block A k raw w)"
| "kernel_step A k (Import_blocks paths) w = snd (import_blocks A k paths w)"
| "kernel_step A k Query_height w = snd (get_height A k w)"
| "kernel_step A k Query_best_hash w = snd (get_best_block_hash A k w)"
| "kernel_step A k (Query_hash n) w = snd (get_block_hash A k n w)"

lemma process_block_steady: "kernel_live k w \<Longrightarrow> steady k w (snd (process_block A k raw w))"
  using process_block_live [of k w _ A raw, OF _ _ prod.collapse [symmetric]] by (auto simp: kernel_live_def)

lemma kernel_step_steady: "kernel_live k w \<Longrightarrow> steady k w (kernel_step A k op w)"
  using import_blocks_live [OF _ prod.collapse [symmetric]]
  by (cases op) (auto simp: process_block_steady steady_refl)

lemma kernel_run_steady: "kernel_live k w \<Longrightarrow> steady k w (fold (kernel_step A k) ops w)"
proof (induction ops arbitrary: w)
  case Nil
  then show ?case by (simp add: steady_refl)
next
  case (Cons op ops)
  have s: "steady k w (kernel_step A k op w)" using Cons.prems by (rule kernel_step_steady)
  with Cons.IH [OF steady_live [OF Cons.prems s]] show ?case by (simp add: steady_trans)
qed

text \<open>The handles a kernel owns, in the order they are made.\<close>

definition owned :: "kernel \<Rightarrow> (handle \<times> ffi_kind) list" where
  "owned k = [(k_chain_params k, ChainParameters), (k_ctx k, Context), (k_chainman k, Manager)]"

lemma owned_live:
  assumes "adds (owned k) w w'" and "hm_get (chains w') (k_chainman k) \<noteq> None"
  shows "kernel_live k w'"
proof -
  have "hm_get (owned k) (k_chain_params k) = Some ChainParameters" "hm_get (owned k) (k_ctx k) = Some Context"
    "hm_get (owned k) (k_chainman k) = Some Manager"
    using adds_distinct [OF assms(1)] by (auto simp: owned_def)
  from this [THEN adds_lookup(1) [OF assms(1)]] assms show ?thesis by (simp add: kernel_live_def adds_def)
qed

lemma owned_steady:
  assumes "adds (owned k) w w1" and "steady k w1 w2"
  shows "adds (owned k) w w2"
proof -
  have "next_handle w \<le> k_chainman k" using assms(1) by (simp add: adds_def owned_def)
  with assms show ?thesis unfolding adds_def steady_def by auto
qed

lemma owned_drop:
  assumes "adds (owned k) w w'"
  shows "adds [] w (kernel_drop k w')"
proof -
  have ne: "k_chain_params k \<noteq> k_ctx k" "k_chain_params k \<noteq> k_chainman k" "k_ctx k \<noteq> k_chainman k"
    using adds_distinct [OF assms] by (auto simp: owned_def)
  then have "adds [(k_chain_params k, ChainParameters), (k_ctx k, Context)] w (ffi_destroy Manager (k_chainman k) w')"
    using adds_destroy [OF assms, of "k_chainman k" Manager] by (simp add: owned_def)
  from adds_destroy [OF adds_destroy [OF this, of "k_ctx k" Context], of "k_chain_params k" ChainParameters] ne
  show ?thesis by (simp add: kernel_drop_def)
qed

lemma submit_genesis_adds:
  assumes "adds (owned k) w w0" and "hm_get (chains w0) (k_chainman k) \<noteq> None"
    and "submit_genesis A G ct k w0 = (r, w')"
  shows "case r of Inl e \<Rightarrow> adds [] w w' | Inr k' \<Rightarrow> k' = k \<and> adds (owned k) w w' \<and> kernel_live k w'"
proof -
  have live: "kernel_live k w0" using owned_live [OF assms(1,2)] .
  note s = process_block_steady [OF live]
  show ?thesis using assms(3) owned_drop [OF assms(1)] owned_steady [OF assms(1) s] steady_live [OF live s]
    by (auto simp: submit_genesis_def Let_def case_prod_beta split: sum.splits)
qed

lemma kernel_new_adds:
  assumes "ledger_ok w" and "\<not> has_nul (absolute_dir fs datadir)" and "\<not> has_nul (absolute_dir fs blocksdir)"
    and new: "kernel_new A fs G chain datadir blocksdir w = (r, w')"
  shows "case r of Inl e \<Rightarrow> adds [] w w' | Inr k \<Rightarrow> adds (owned k) w w' \<and> kernel_live k w'"
proof -
  obtain r1 w1 where c1: "create_context A (chain_type_of chain) w = (r1, w1)" by fastforce
  note ctx_adds = create_context_adds [OF assms(1) c1]
  show ?thesis
  proof (cases r1)
    case (Inl e)
    with ctx_adds c1 new show ?thesis by (auto simp: kernel_new_def)
  next
    case (Inr p)
    obtain ctx cp where p: "p = (ctx, cp)" by fastforce
    obtain r2 w2 where c2: "create_manager A (absolute_dir fs datadir) (absolute_dir fs blocksdir) ctx cp w1 = (r2, w2)" by fastforce
    have "adds [(cp, ChainParameters), (ctx, Context)] w w1" using Inr p ctx_adds by simp
    note mgr = create_manager_adds [OF this assms(2,3) c2]
    show ?thesis
    proof (cases r2)
      case (Inl e)
      with mgr c1 c2 Inr p new show ?thesis by (auto simp: kernel_new_def)
    next
      case r2: (Inr k)
      then have own: "adds (owned k) w w2" and ch: "hm_get (chains w2) (k_chainman k) \<noteq> None"
        using mgr by (auto simp: owned_def)
      have live: "kernel_live k w2" using owned_live [OF own ch] .
      have init: "init_genesis A G (chain_type_of chain) k w2 = (r, w')" using new c1 c2 Inr p r2 by (simp add: kernel_new_def)
      have "submit_genesis A G (chain_type_of chain) k w2 = (r, w') \<or> (r, w') = (Inr k, w2)"
        using init queries_live(1,2) [OF live, of A] by (auto simp: init_genesis_def Let_def case_prod_beta split: if_splits)
      then show ?thesis
      proof
        assume "submit_genesis A G (chain_type_of chain) k w2 = (r, w')"
        from submit_genesis_adds [OF own ch this] show ?thesis by (auto split: sum.splits)
      next
        assume "(r, w') = (Inr k, w2)"
        with own live show ?thesis by simp
      qed
    qed
  qed
qed

lemma process_block_chain:
  assumes "kernel_live k w" and "hm_get (chains w) (k_chainman k) = Some c"
  shows "hm_get (chains (fold (\<lambda>raw w. snd (process_block A k raw w)) raws w)) (k_chainman k) =
    Some (fold (\<lambda>raw c. snd (snd (manager_process_block A raw c))) (filter (block_ok A) raws) c)"
  using assms
proof (induction raws arbitrary: w c)
  case Nil
  then show ?case by simp
next
  case (Cons raw raws)
  have p: "steady k w (snd (process_block A k raw w))"
    "hm_get (chains (snd (process_block A k raw w))) (k_chainman k) = Some (chain_after A raw c)"
    using process_block_live [OF Cons.prems prod.collapse [symmetric]] by simp_all
  from Cons.IH [OF steady_live [OF Cons.prems(1) p(1)] p(2)] show ?case by (simp add: chain_after_def)
qed

section \<open>Properties\<close>


text \<open>Blocks handed to the kernel one after the other act on its chainstate as the library
  does: the chainstate afterwards is the library's result of the blocks that parse, in
  order, a block the library rejects stops nothing, and each verdict is an error
  exactly for a block that does not parse or a return code other than success or
  already-known.\<close>

theorem process_blocks_in_order:
  assumes "kernel_live k w" and "hm_get (chains w) (k_chainman k) = Some c"
  shows "hm_get (chains (fold (\<lambda>raw w. snd (process_block A k raw w)) raws w)) (k_chainman k) =
      Some (fold (\<lambda>raw c. snd (snd (manager_process_block A raw c))) (filter (block_ok A) raws) c) \<and>
    (fst (process_block A k raw w) = Inr () \<longleftrightarrow>
       block_ok A raw \<and> (case manager_process_block A raw c of (rc, new_block, _) \<Rightarrow> rc = 0 \<or> rc = - 1 \<and> new_block = 0))"
proof
  show "hm_get (chains (fold (\<lambda>raw w. snd (process_block A k raw w)) raws w)) (k_chainman k) =
      Some (fold (\<lambda>raw c. snd (snd (manager_process_block A raw c))) (filter (block_ok A) raws) c)"
    using assms by (rule process_block_chain)
  show "fst (process_block A k raw w) = Inr () \<longleftrightarrow>
       block_ok A raw \<and> (case manager_process_block A raw c of (rc, new_block, _) \<Rightarrow> rc = 0 \<or> rc = - 1 \<and> new_block = 0)"
    using process_block_live [OF assms prod.collapse [symmetric], of A raw]
    by (simp add: block_verdict_def split: prod.splits)
qed

section \<open>A concrete library\<close>

text \<open>A library whose chainstate is the list of block hashes, in which a block of one byte is
  its own hash.\<close>

definition list_chain :: "block_hash list \<Rightarrow> btck_chain option" where
  "list_chain c =
     (if c = [] then None
      else Some \<lparr>chain_height = of_nat (length c - 1), chain_genesis = Some (Some (hd c)), chain_tip = Some (Some (List.last c)),
        chain_by_height = (\<lambda>n. if unat n < length c then Some (Some (c ! unat n)) else None)\<rparr>)"

definition list_api :: "block_hash list btck_api" where
  "list_api = \<lparr>context_options_ok = True, chain_parameters_ok = (\<lambda>_. True), context_ok = True,
     manager_options_ok = (\<lambda>_ _. True), manager_load = (\<lambda>_ _. Some []), active_chain = list_chain,
     block_ok = (\<lambda>raw. length raw = 1),
     manager_process_block = (\<lambda>raw c. if ucast (hd raw) \<in> set c then (- 1, 0, c) else (0, 1, c @ [ucast (hd raw)])),
     manager_import_blocks = (\<lambda>_ c. (0, c))\<rparr>"

definition no_handles :: "'c ffi_state" where
  "no_handles = \<lparr>live = [], next_handle = 0, chains = [], faults = []\<rparr>"

definition plain_fs :: file_system where
  "plain_fs = \<lparr>canonicalize = Some, canonicalize_created = Some\<rparr>"

definition started :: "block_hash list ffi_state" where
  "started = \<lparr>live = [(1, ChainParameters), (2, Context), (4, Manager)], next_handle = 6, chains = [(4, [7])], faults = []\<rparr>"

definition sample_kernel :: kernel where
  "sample_kernel = \<lparr>k_ctx = 2, k_chain_params = 1, k_chainman = 4\<rparr>"

lemma ledger_ok_no_handles: "ledger_ok no_handles"
  by (simp add: ledger_ok_def no_handles_def)

lemma sample_context:
  "create_context list_api ct no_handles =
     (Inr (2, 1), \<lparr>live = [(1, ChainParameters), (2, Context)], next_handle = 3, chains = [], faults = []\<rparr>)"
  by (simp add: create_context_def ffi_create_def ffi_use_def ffi_destroy_def list_api_def no_handles_def)

lemma sample_manager:
  "create_manager list_api ''data'' ''blocks'' 2 1 \<lparr>live = [(1, ChainParameters), (2, Context)], next_handle = 3, chains = [], faults = []\<rparr> =
     (Inr sample_kernel, \<lparr>live = [(1, ChainParameters), (2, Context), (4, Manager)], next_handle = 5, chains = [(4, [])], faults = []\<rparr>)"
  by (simp add: create_manager_def ffi_create_def ffi_use_def ffi_destroy_def list_api_def has_nul_def sample_kernel_def)

lemma sample_process:
  "process_block list_api sample_kernel [7]
     \<lparr>live = [(1, ChainParameters), (2, Context), (4, Manager)], next_handle = 5, chains = [(4, [])], faults = []\<rparr> = (Inr (), started)"
  by (simp add: process_block_def process_block_ffi_def get_active_chain_def active_height_def ffi_create_def ffi_use_def
      ffi_destroy_def list_api_def list_chain_def sample_kernel_def started_def)

lemma sample_no_chain:
  "get_active_chain list_api sample_kernel
     \<lparr>live = [(1, ChainParameters), (2, Context), (4, Manager)], next_handle = 5, chains = [(4, [])], faults = []\<rparr> =
     (None, \<lparr>live = [(1, ChainParameters), (2, Context), (4, Manager)], next_handle = 5, chains = [(4, [])], faults = []\<rparr>)"
  by (simp add: get_active_chain_def sample_kernel_def list_api_def list_chain_def ffi_use_def)

lemma sample_new: "kernel_new list_api plain_fs (\<lambda>_. Inr [7]) ''signet'' ''data'' ''blocks'' no_handles = (Inr sample_kernel, started)"
  by (simp only: kernel_new_def sample_context plain_fs_def absolute_dir_def file_system.simps option.case prod.case sum.case
      sample_manager init_genesis_def sample_no_chain Let_def submit_genesis_def sample_process if_True)


theorem process_blocks_in_order_witness:
  "hm_get (chains (fold (\<lambda>raw w. snd (process_block list_api sample_kernel raw w)) [[8], [], [8], [9]] started)) 4 = Some [7, 8, 9]"
proof -
  have "kernel_live sample_kernel started"
    by (simp add: kernel_live_def ledger_ok_def started_def sample_kernel_def)
  from process_blocks_in_order [OF this, of "[7]" list_api "[[8], [], [8], [9]]"] show ?thesis
    by (simp add: started_def sample_kernel_def list_api_def)
qed

section \<open>Departures from the intent\<close>

text \<open>A path with a NUL makes \<open>Kernel::new\<close> return early by \<open>?\<close>, after the context and the chain
  parameters have been made: they are never released.\<close>

lemma nul_path_leaks:
  "case kernel_new list_api plain_fs (\<lambda>_. Inr [7]) ''signet'' [CHR 0x00] ''blocks'' no_handles of
     (r, w) \<Rightarrow> r = Inl NulError \<and> live w = [(1, ChainParameters), (2, Context)]"
  by (simp add: kernel_new_def sample_context create_manager_def plain_fs_def absolute_dir_def has_nul_def)

text \<open>On testnet4 the kernel is given the genesis block of the older test network.\<close>

lemma testnet4_genesis_is_testnet: "chain_type_of ''testnet4'' = 2 \<and> genesis_network (chain_type_of ''testnet4'') = Testnet"
  by (simp add: chain_type_of_def genesis_network_def)

end
