(* ===== verification/Node_Main.thy ===== *)
theory Node_Main
  imports Mempool_Properties Peer_Manager Kernel_Wrapper
begin

text \<open>
  The entry point, \<^verbatim>\<open>src/main.rs\<close>: how the command line selects the chain, how the
  kernel, the mempool and the peer manager are put together and what the callbacks
  between them do.  The block processor task of \<^verbatim>\<open>src/p2p/legacy.rs\<close> hands the
  blocks of the channel to the kernel one at a time; transactions are handed to the
  mempool by tasks that run in any order.  Strings are ASCII.
\<close>

section \<open>The command line\<close>

record args =
  arg_chain :: string
  arg_datadir :: string
  arg_blocksdir :: "string option"
  arg_import :: "string option"
  arg_rpc :: string
  arg_peer :: "string list"

text \<open>\<open>PathBuf::join\<close>.\<close>

definition path_join :: "string \<Rightarrow> string \<Rightarrow> string" where
  "path_join p q =
     (if q \<noteq> [] \<and> hd q = CHR ''/'' then q
      else if p = [] \<or> last p = CHR ''/'' then p @ q
      else p @ ''/'' @ q)"

fun split_on :: "char \<Rightarrow> string \<Rightarrow> string list" where
  "split_on c [] = [[]]"
| "split_on c (x # xs) =
     (if x = c then [] # split_on c xs
      else case split_on c xs of [] \<Rightarrow> [[x]] | y # ys \<Rightarrow> (x # y) # ys)"

definition is_space :: "char \<Rightarrow> bool" where
  "is_space x \<longleftrightarrow> x \<in> {CHR '' '', CHR 0x09, CHR 0x0A, CHR 0x0B, CHR 0x0C, CHR 0x0D}"

definition trim :: "string \<Rightarrow> string" where
  "trim s = rev (dropWhile is_space (rev (dropWhile is_space s)))"

definition import_files :: "string \<Rightarrow> string list" where
  "import_files list = filter (\<lambda>s. s \<noteq> []) (map trim (split_on (CHR '','') list))"

definition policy_for_chain :: "string \<Rightarrow> mempool_policy" where
  "policy_for_chain chain =
     (if chain = ''main'' \<or> chain = ''mainnet'' then policy_mainnet
      else if chain = ''testnet'' \<or> chain = ''signet'' then policy_testnet
      else policy_regtest)"

definition network_for_chain :: "string \<Rightarrow> network" where
  "network_for_chain chain =
     (if chain = ''main'' \<or> chain = ''mainnet'' then Bitcoin
      else if chain = ''testnet'' then Testnet
      else if chain = ''signet'' then Signet
      else Regtest)"

definition p2p_enabled :: "args \<Rightarrow> bool" where
  "p2p_enabled a \<longleftrightarrow> arg_peer a \<noteq> [] \<or> arg_chain a \<in> {''main'', ''mainnet'', ''testnet'', ''signet''}"

section \<open>Start\<close>

datatype main_error = KernelError wrapper_error | ImportFailed wrapper_error | BadRpcAddr

definition main_setup ::
  "'c btck_api \<Rightarrow> file_system \<Rightarrow> (network \<Rightarrow> string + u8 list) \<Rightarrow> args \<Rightarrow> 'c ffi_state \<Rightarrow>
   (main_error + kernel \<times> mempool) \<times> 'c ffi_state" where
  "main_setup A fs genesis_bytes a w =
     (let blocksdir = (case arg_blocksdir a of Some d \<Rightarrow> d | None \<Rightarrow> path_join (arg_datadir a) ''blocks'') in
      case kernel_new A fs genesis_bytes (arg_chain a) (arg_datadir a) blocksdir w of
        (Inl e, w) \<Rightarrow> (Inl (KernelError e), w)
      | (Inr k, w) \<Rightarrow>
          let mempool = with_kernel (policy_for_chain (arg_chain a)) KernelHandle;
              files = (case arg_import a of None \<Rightarrow> [] | Some list \<Rightarrow> import_files list)
          in if files = [] then (Inr (k, mempool), w)
             else case import_blocks A k files w of
                    (Inl e, w) \<Rightarrow> (Inl (ImportFailed e), kernel_drop k w)
                  | (Inr rc, w) \<Rightarrow> (Inr (k, mempool), w))"

section \<open>The callbacks\<close>

text \<open>The block processor task: one block at a time, an error is logged.\<close>

definition block_processor ::
  "'c btck_api \<Rightarrow> kernel \<Rightarrow> (block_hash \<times> u8 list) list \<Rightarrow> 'c ffi_state \<Rightarrow> 'c ffi_state" where
  "block_processor A k blocks w = fold (\<lambda>(_, raw) w. snd (process_block A k raw w)) blocks w"

definition process_tx ::
  "tx_api \<Rightarrow> (mempool_entry list \<Rightarrow> mempool_entry list) \<Rightarrow> instant \<Rightarrow> transaction \<Rightarrow> mempool \<Rightarrow>
   (mempool_error + unit) \<times> mempool" where
  "process_tx B ord now t mp =
     (let h = 0; f = 1000 in
      case add_tx B ord now t f h mp of
        (Inr _, mp) \<Rightarrow> (Inr (), mp)
      | (Inl e, mp) \<Rightarrow> (Inl e, mp))"

section \<open>The peer-to-peer task\<close>

fun connect_cli ::
  "header_api \<Rightarrow> world \<Rightarrow> (string \<Rightarrow> socket_addr option) \<Rightarrow> nat \<Rightarrow> string list \<Rightarrow> peer_manager \<Rightarrow> peer_manager" where
  "connect_cli H W parse n [] m = m"
| "connect_cli H W parse n (p # ps) m =
     (case parse p of
        None \<Rightarrow> connect_cli H W parse (n + 1) ps m
      | Some addr \<Rightarrow> connect_cli H W parse (n + 1) ps (snd (add_outbound H W n addr m)))"

definition p2p_start ::
  "header_api \<Rightarrow> world \<Rightarrow> world \<Rightarrow> (string \<Rightarrow> socket_addr option) \<Rightarrow> network \<Rightarrow> i32 \<Rightarrow> disk_file \<Rightarrow> string list \<Rightarrow> peer_manager" where
  "p2p_start H W Wb parse net chain_height_now file peers_cli =
     (let pm = with_tx_processor (with_block_processor (with_start_height H net chain_height_now file));
          pm = connect_cli H W parse 0 peers_cli pm
      in if peers_len pm < 2 then snd (bootstrap H Wb pm) else pm)"

definition p2p_task ::
  "header_api \<Rightarrow> 'c btck_api \<Rightarrow> world \<Rightarrow> world \<Rightarrow> (string \<Rightarrow> socket_addr option) \<Rightarrow> disk_file \<Rightarrow> args \<Rightarrow> kernel \<Rightarrow>
   'c ffi_state \<Rightarrow> tick list \<Rightarrow> instant \<Rightarrow> loop_state option" where
  "p2p_task H A W Wb parse file a k w Ts ts =
     (let chain_height_now = unwrap_or 0 (fst (get_height A k w))
      in event_loop H Ts (p2p_start H W Wb parse (network_for_chain (arg_chain a)) chain_height_now file (arg_peer a), ts))"

section \<open>The peer-to-peer task keeps the manager's invariant\<close>

lemma pm_invar_processors:
  assumes "pm_invar H fresh m" and "block_tx m = None"
  shows "pm_invar H fresh (with_tx_processor (with_block_processor m))"
proof -
  have "chain_views H (m\<lparr>block_tx := b\<rparr>) = chain_views H m" "chain_checked H (m\<lparr>block_tx := b\<rparr>) = chain_checked H m" for b
    by (simp_all add: chain_views_def chain_checked_def checkpoint_ok_def cong: option.case_cong)
  with assms have "pm_invar H fresh (with_block_processor m)"
    by (simp add: pm_invar_def download_ok_def requests_known_def headers_first_def with_block_processor_def)
  then show ?thesis by (rule pm_invar_frame) (simp_all add: with_tx_processor_def)
qed

lemma pm_invar_connect_cli: "pm_invar H fresh m \<Longrightarrow> pm_invar H fresh (connect_cli H W parse n ps m)"
  by (induction H W parse n ps m rule: connect_cli.induct) (auto split: option.splits intro: invar_intros)

lemma pm_invar_p2p_start: "pm_invar H (file = NoFile) (p2p_start H W Wb parse net h file ps)"
proof -
  have "block_tx (with_start_height H net h file) = None" by (simp add: with_start_height_def Let_def)
  from pm_invar_connect_cli [OF pm_invar_processors [OF pm_invar_start this]] show ?thesis
    unfolding p2p_start_def Let_def by (auto intro: invar_intros)
qed

lemma p2p_task_invar:
  assumes "list_all (\<lambda>T. iteration_order (t_timeout_order T)) Ts"
  obtains m ts' where "p2p_task H A W Wb parse file a k w Ts ts = Some (m, ts')" "pm_invar H (file = NoFile) m"
  using event_loop_ok [OF _ assms] pm_invar_p2p_start that
  unfolding p2p_task_def Let_def ensures_def by (metis fst_conv surj_pair)

section \<open>The block processor\<close>

lemma block_processor_eq: "block_processor A k blocks w = fold (\<lambda>raw w. snd (process_block A k raw w)) (map snd blocks) w"
  by (induction blocks arbitrary: w) (auto simp: block_processor_def)

lemma block_processor_steady:
  assumes "kernel_live k w"
  shows "steady k w (block_processor A k blocks w)"
proof -
  have "kernel_step A k (Process_block raw) = (\<lambda>w. snd (process_block A k raw w))" for raw by (simp add: fun_eq_iff)
  with kernel_run_steady [OF assms, of A "map (\<lambda>b. Process_block (snd b)) blocks"] show ?thesis
    by (simp add: block_processor_eq fold_map comp_def)
qed

lemma block_processor_chain:
  assumes "kernel_live k w" and "hm_get (chains w) (k_chainman k) = Some c"
  shows "hm_get (chains (block_processor A k blocks w)) (k_chainman k) =
    Some (fold (\<lambda>raw c. snd (snd (manager_process_block A raw c))) (filter (block_ok A) (map snd blocks)) c)"
  using process_block_chain [OF assms] by (simp add: block_processor_eq)

section \<open>The mempool behind the callback\<close>

text \<open>The transactions in the pool.\<close>

definition pool_txs :: "mempool \<Rightarrow> transaction set" where
  "pool_txs mp = tx ` ran (hm_get (entries mp))"

lemma ran_modify:
  assumes "\<And>e. tx (f e) = tx e"
  shows "tx ` ran (hm_get (fold (\<lambda>k. hm_modify k f) ks m)) = tx ` ran (hm_get m)"
proof (induction ks arbitrary: m)
  case Nil
  then show ?case by simp
next
  case (Cons k ks)
  have "tx ` ran (hm_get (hm_modify k f m)) = tx ` ran (hm_get m)"
  proof (cases "hm_get m k")
    case None
    then show ?thesis by (simp add: hm_simps fun_upd_idem)
  next
    case (Some e)
    have "(hm_get m)(k := None, k \<mapsto> e) = hm_get m" using Some by auto
    then have "ran (hm_get m) = insert e (ran ((hm_get m)(k := None)))"
      using ran_map_upd [of "(hm_get m)(k := None)" k e] by simp
    moreover have "ran ((hm_get m)(k \<mapsto> f e)) = insert (f e) (ran ((hm_get m)(k := None)))"
      using ran_map_upd [of "(hm_get m)(k := None)" k "f e"] by simp
    ultimately show ?thesis using Some assms by (simp add: hm_simps)
  qed
  with Cons show ?case by simp
qed

lemma pool_txs_remove: "pool_txs (snd (remove_tx t mp)) \<subseteq> pool_txs mp"
proof (cases "hm_get (entries mp) t")
  case None
  then show ?thesis by (simp add: remove_tx_def)
next
  case (Some e)
  have "ran ((hm_get (entries mp))(t := None)) \<subseteq> ran (hm_get (entries mp))" by (auto simp: ran_def)
  with Some show ?thesis
    by (simp add: pool_txs_def remove_tx_def ran_modify detach_parent_def detach_child_def hm_get_remove image_mono)
qed

lemma pool_txs_remove_all: "pool_txs (remove_all ts mp) \<subseteq> pool_txs mp"
proof (induction ts arbitrary: mp)
  case Nil
  then show ?case by (simp add: remove_all_def)
next
  case (Cons t ts)
  from Cons [of "snd (remove_tx t mp)"] pool_txs_remove [of t mp] show ?case by (simp add: remove_all_def)
qed

lemma pool_txs_commit: "pool_txs (commit_entry now e mp) \<subseteq> insert (tx e) (pool_txs mp)"
proof -
  have "ran (m(k \<mapsto> v)) \<subseteq> insert v (ran m)" for m :: "txid \<rightharpoonup> mempool_entry" and k v by (auto simp: ran_def)
  then show ?thesis
    using ran_modify [of "attach_parent e" "parents e" "entries mp"]
    by (fastforce simp: pool_txs_def commit_entry_def attach_parent_def hm_simps)
qed

lemma pool_txs_add:
  assumes "mp_invar B mp"
  shows "pool_txs (snd (add_tx B ord now t f h mp)) \<subseteq> insert t (pool_txs mp)"
proof (cases "add_tx B ord now t f h mp")
  case (Pair r mp')
  show ?thesis
  proof (cases r)
    case (Inl e)
    with Pair add_tx_Inl [of B ord now t f h mp e mp'] pool_txs_remove_all show ?thesis by fastforce
  next
    case (Inr i)
    with Pair have "add_tx B ord now t f h mp = (Inr i, mp')" by simp
    from add_tx_Inr [OF assms this] obtain mp1 e where s: "mp1 = remove_all (find_conflicts t mp) mp"
      "e = new_entry_of B now t f h mp1" "mp' = maybe_evict ord (commit_entry now e mp1)" by metis
    obtain ts where "mp' = remove_all ts (commit_entry now e mp1)" using maybe_evict_prefix s(3) by metis
    moreover have "tx e = t" by (simp add: s(2) new_entry_of_sel)
    ultimately show ?thesis
      using Pair s(1) pool_txs_remove_all [of ts] pool_txs_commit [of now e mp1] pool_txs_remove_all [of "find_conflicts t mp" mp] by auto
  qed
qed

lemma process_tx_state: "snd (process_tx B ord now t mp) = snd (add_tx B ord now t 1000 0 mp)"
  by (simp add: process_tx_def split: prod.splits sum.splits)

lemma process_txs_safe:
  assumes "mp_invar B mp"
  shows "mp_invar B (fold (\<lambda>(ord, now, t) mp. snd (process_tx B ord now t mp)) calls mp)"
    and "pool_txs (fold (\<lambda>(ord, now, t) mp. snd (process_tx B ord now t mp)) calls mp) \<subseteq> pool_txs mp \<union> (snd \<circ> snd) ` set calls"
proof -
  have "mp_invar B (fold (\<lambda>(ord, now, t) mp. snd (process_tx B ord now t mp)) calls mp) \<and>
    pool_txs (fold (\<lambda>(ord, now, t) mp. snd (process_tx B ord now t mp)) calls mp) \<subseteq> pool_txs mp \<union> (snd \<circ> snd) ` set calls"
    using assms
  proof (induction calls arbitrary: mp)
    case Nil
    then show ?case by simp
  next
    case (Cons call calls)
    obtain ord now t where call: "call = (ord, now, t)" by (cases call)
    have "mp_invar B (snd (process_tx B ord now t mp))" by (simp add: process_tx_state mp_invar_add_tx Cons.prems)
    from Cons.IH [OF this] pool_txs_add [OF Cons.prems, of ord now t 1000 0] show ?case
      by (auto simp: call process_tx_state)
  qed
  then show "mp_invar B (fold (\<lambda>(ord, now, t) mp. snd (process_tx B ord now t mp)) calls mp)"
    and "pool_txs (fold (\<lambda>(ord, now, t) mp. snd (process_tx B ord now t mp)) calls mp) \<subseteq> pool_txs mp \<union> (snd \<circ> snd) ` set calls"
    by simp_all
qed

section \<open>The selection of the chain\<close>

text \<open>For every chain name the command line documents, the kernel's genesis block and the
  peer-to-peer network are of the same network.\<close>

lemma chain_selection_agrees:
  "chain \<in> {''main'', ''mainnet'', ''testnet'', ''signet'', ''regtest''} \<Longrightarrow>
     genesis_network (chain_type_of chain) = network_for_chain chain"
  by (auto simp: genesis_network_def chain_type_of_def network_for_chain_def)

text \<open>On testnet4, which the kernel accepts, the three disagree.\<close>

lemma testnet4_selection:
  "chain_type_of ''testnet4'' = 2 \<and> network_for_chain ''testnet4'' = Regtest \<and> policy_for_chain ''testnet4'' = policy_regtest"
  by (simp add: chain_type_of_def network_for_chain_def policy_for_chain_def)

section \<open>The hard-coded fee\<close>

text \<open>Every received transaction of more than 1000 virtual bytes is refused under the mainnet and
  testnet policies, whatever it pays: the callback always states a fee of 1000.\<close>

lemma large_tx_refused:
  assumes "unat (tx_vsize B t) > 1000" and "min_relay_fee (policy mp) = from_sat_per_vb 1"
  shows "\<exists>e. process_tx B ord now t mp = (Inl e, mp)"
proof -
  have v: "1000 < tx_vsize B t" using assms(1) by (simp add: word_less_nat_alt)
  then have "max (tx_vsize B t) 1 = tx_vsize B t" by (simp add: max_def word_le_nat_alt word_less_nat_alt)
  then have "fee_rate (mempool_entry_new B now t 1000 0) = from_sat_per_vb 0"
    using div_word_less [OF v] by (simp add: mempool_entry_new_def Let_def)
  then have "\<not> is_fee_acceptable (policy mp) (fee_rate (mempool_entry_new B now t 1000 0))"
    using assms(2) by (simp add: is_fee_acceptable_def from_sat_per_vb_def FeeRate_le_iff)
  then have "\<exists>e. add_tx B ord now t 1000 0 mp = (Inl e, mp)"
    by (auto simp: add_tx_def Let_def split: sum.splits)
  then show ?thesis by (auto simp: process_tx_def)
qed

end
