(* ===== verification/Node_Shutdown.thy ===== *)
theory Node_Shutdown
  imports Node_Main
begin

text \<open>
  Who owns the kernel: the second half of \<open>main\<close> in \<^verbatim>\<open>src/main.rs\<close>, with the tasks that
  \<open>with_block_processor\<close> and the message handler of \<^verbatim>\<open>src/p2p/legacy.rs\<close> spawn and the server
  of \<^verbatim>\<open>src/rpc/mod.rs\<close>.

  The kernel is behind an \<open>Arc\<close>; so are the mempool, which owns one of the kernel's \<open>Arc\<close>s,
  and the two callbacks, which own one of the kernel's and one of the mempool's.  An object
  is dropped with its last \<open>Arc\<close>, which drops what it owns.  The tasks interleave freely, so
  the node is a step relation; the end of the runtime after \<open>main\<close> returns drops the tasks
  that are left, in any order.
\<close>

section \<open>Reference counts\<close>

datatype holder =
  Main | RpcServer | Request nat | InMempool | InBlockCb | InTxCb | PeerMgr | BlockTask | BlockJob | TxJob nat

datatype phase = Starting | Serving | Stopping | Returned

record 'c node_state =
  ns_world :: "'c ffi_state"
  ns_pool :: mempool
  kernel_arcs :: "holder set"
  mempool_arcs :: "holder set"
  block_cb_arcs :: "holder set"
  tx_cb_arcs :: "holder set"
  p2p_spawned :: bool
  ns_channel :: "u8 list list"
  block_job :: "u8 list option"
  tx_jobs :: "(nat, transaction) hmap"
  ns_phase :: phase
  shutdown_printed :: bool

definition drop_kernel_arc :: "kernel \<Rightarrow> holder \<Rightarrow> 'c node_state \<Rightarrow> 'c node_state" where
  "drop_kernel_arc k h s =
     (if h \<in> kernel_arcs s
      then let s = s\<lparr>kernel_arcs := kernel_arcs s - {h}\<rparr>
           in if kernel_arcs s = {} then s\<lparr>ns_world := kernel_drop k (ns_world s)\<rparr> else s
      else s)"

definition drop_mempool_arc :: "kernel \<Rightarrow> holder \<Rightarrow> 'c node_state \<Rightarrow> 'c node_state" where
  "drop_mempool_arc k h s =
     (if h \<in> mempool_arcs s
      then let s = s\<lparr>mempool_arcs := mempool_arcs s - {h}\<rparr>
           in if mempool_arcs s = {} then drop_kernel_arc k InMempool s else s
      else s)"

definition drop_block_cb_arc :: "kernel \<Rightarrow> holder \<Rightarrow> 'c node_state \<Rightarrow> 'c node_state" where
  "drop_block_cb_arc k h s =
     (if h \<in> block_cb_arcs s
      then let s = s\<lparr>block_cb_arcs := block_cb_arcs s - {h}\<rparr>
           in if block_cb_arcs s = {} then drop_kernel_arc k InBlockCb s else s
      else s)"

definition drop_tx_cb_arc :: "kernel \<Rightarrow> holder \<Rightarrow> 'c node_state \<Rightarrow> 'c node_state" where
  "drop_tx_cb_arc k h s =
     (if h \<in> tx_cb_arcs s
      then let s = s\<lparr>tx_cb_arcs := tx_cb_arcs s - {h}\<rparr>
           in if tx_cb_arcs s = {} then drop_mempool_arc k InTxCb s else s
      else s)"

section \<open>What the tasks do\<close>

text \<open>\<open>main\<close> after \<open>main_setup\<close>: it holds the kernel and the mempool, which holds the kernel.\<close>

definition main_started :: "mempool \<Rightarrow> 'c ffi_state \<Rightarrow> 'c node_state" where
  "main_started mp w =
     \<lparr>ns_world = w, ns_pool = mp, kernel_arcs = {Main, InMempool}, mempool_arcs = {Main}, block_cb_arcs = {}, tx_cb_arcs = {}, p2p_spawned = False,
      ns_channel = [], block_job = None, tx_jobs = [], ns_phase = Starting, shutdown_printed = False\<rparr>"

definition spawn_p2p :: "'c node_state \<Rightarrow> 'c node_state" where
  "spawn_p2p s =
     s\<lparr>kernel_arcs := insert InBlockCb (kernel_arcs s), mempool_arcs := insert InTxCb (mempool_arcs s),
       block_cb_arcs := {PeerMgr, BlockTask}, tx_cb_arcs := {PeerMgr}, p2p_spawned := True\<rparr>"

definition start_rpc :: "'c node_state \<Rightarrow> 'c node_state" where
  "start_rpc s =
     s\<lparr>kernel_arcs := insert RpcServer (kernel_arcs s), mempool_arcs := insert RpcServer (mempool_arcs s), ns_phase := Serving\<rparr>"

text \<open>One branch of \<open>select!\<close> completes and the future of the server is dropped.\<close>

definition select_done :: "kernel \<Rightarrow> 'c node_state \<Rightarrow> 'c node_state" where
  "select_done k s = (drop_mempool_arc k RpcServer (drop_kernel_arc k RpcServer s))\<lparr>ns_phase := Stopping\<rparr>"

text \<open>The end of \<open>main\<close>: drop the kernel, drop the mempool, say so.\<close>

definition main_done :: "kernel \<Rightarrow> 'c node_state \<Rightarrow> 'c node_state" where
  "main_done k s =
     (drop_mempool_arc k Main (drop_kernel_arc k Main s))\<lparr>ns_phase := Returned, shutdown_printed := True\<rparr>"

text \<open>A bad address of the server: \<open>main\<close> returns an error, and its locals are dropped.\<close>

definition main_failed :: "kernel \<Rightarrow> 'c node_state \<Rightarrow> 'c node_state" where
  "main_failed k s = (drop_kernel_arc k Main (drop_mempool_arc k Main s))\<lparr>ns_phase := Returned\<rparr>"

text \<open>A request works on a clone of the state of the server.\<close>

definition begin_request :: "nat \<Rightarrow> 'c node_state \<Rightarrow> 'c node_state" where
  "begin_request r s =
     s\<lparr>kernel_arcs := insert (Request r) (kernel_arcs s), mempool_arcs := insert (Request r) (mempool_arcs s)\<rparr>"

definition end_request :: "kernel \<Rightarrow> nat \<Rightarrow> 'c node_state \<Rightarrow> 'c node_state" where
  "end_request k r s = drop_mempool_arc k (Request r) (drop_kernel_arc k (Request r) s)"

text \<open>The block processor: a job on a clone of the callback for each block of the channel.\<close>

definition receive_block :: "u8 list \<Rightarrow> 'c node_state \<Rightarrow> 'c node_state" where
  "receive_block raw s = s\<lparr>ns_channel := ns_channel s @ [raw]\<rparr>"

definition begin_block_job :: "'c node_state \<Rightarrow> 'c node_state" where
  "begin_block_job s =
     (case ns_channel s of
        [] \<Rightarrow> s
      | raw # rest \<Rightarrow> s\<lparr>ns_channel := rest, block_job := Some raw, block_cb_arcs := insert BlockJob (block_cb_arcs s)\<rparr>)"

definition end_block_job :: "'c btck_api \<Rightarrow> kernel \<Rightarrow> u8 list \<Rightarrow> 'c node_state \<Rightarrow> 'c node_state" where
  "end_block_job A k raw s =
     drop_block_cb_arc k BlockJob (s\<lparr>ns_world := snd (process_block A k raw (ns_world s)), block_job := None\<rparr>)"

definition block_task_done :: "kernel \<Rightarrow> 'c node_state \<Rightarrow> 'c node_state" where
  "block_task_done k s = drop_block_cb_arc k BlockTask (s\<lparr>ns_channel := []\<rparr>)"

definition begin_tx_job :: "nat \<Rightarrow> transaction \<Rightarrow> 'c node_state \<Rightarrow> 'c node_state" where
  "begin_tx_job j t s = s\<lparr>tx_jobs := hm_insert j t (tx_jobs s), tx_cb_arcs := insert (TxJob j) (tx_cb_arcs s)\<rparr>"

definition end_tx_job ::
  "tx_api \<Rightarrow> (mempool_entry list \<Rightarrow> mempool_entry list) \<Rightarrow> instant \<Rightarrow> kernel \<Rightarrow> nat \<Rightarrow> transaction \<Rightarrow> 'c node_state \<Rightarrow> 'c node_state" where
  "end_tx_job B ord now k j t s =
     drop_tx_cb_arc k (TxJob j) (s\<lparr>ns_pool := snd (process_tx B ord now t (ns_pool s)), tx_jobs := hm_remove j (tx_jobs s)\<rparr>)"

text \<open>At the end of the runtime a transaction task is dropped where it stands.\<close>

definition drop_tx_job :: "kernel \<Rightarrow> nat \<Rightarrow> 'c node_state \<Rightarrow> 'c node_state" where
  "drop_tx_job k j s = drop_tx_cb_arc k (TxJob j) (s\<lparr>tx_jobs := hm_remove j (tx_jobs s)\<rparr>)"

text \<open>The peer manager goes with its task, when it ends, is aborted, or the runtime ends.\<close>

definition p2p_task_done :: "kernel \<Rightarrow> 'c node_state \<Rightarrow> 'c node_state" where
  "p2p_task_done k s = drop_tx_cb_arc k PeerMgr (drop_block_cb_arc k PeerMgr s)"

section \<open>The node\<close>

inductive node_step :: "'c btck_api \<Rightarrow> tx_api \<Rightarrow> kernel \<Rightarrow> 'c node_state \<Rightarrow> 'c node_state \<Rightarrow> bool" for A B k where
  p2p: "ns_phase s = Starting \<Longrightarrow> \<not> p2p_spawned s \<Longrightarrow> node_step A B k s (spawn_p2p s)"
| rpc: "ns_phase s = Starting \<Longrightarrow> node_step A B k s (start_rpc s)"
| bad_rpc_addr: "ns_phase s = Starting \<Longrightarrow> node_step A B k s (main_failed k s)"
| request: "RpcServer \<in> kernel_arcs s \<Longrightarrow> Request r \<notin> kernel_arcs s \<Longrightarrow> node_step A B k s (begin_request r s)"
| query: "Request r \<in> kernel_arcs s \<Longrightarrow> op \<in> {Query_height, Query_best_hash, Query_hash n} \<Longrightarrow>
    node_step A B k s (s\<lparr>ns_world := kernel_step A k op (ns_world s)\<rparr>)"
| answered: "Request r \<in> kernel_arcs s \<Longrightarrow> node_step A B k s (end_request k r s)"
| block: "PeerMgr \<in> block_cb_arcs s \<Longrightarrow> node_step A B k s (receive_block raw s)"
| block_job: "BlockTask \<in> block_cb_arcs s \<Longrightarrow> block_job s = None \<Longrightarrow> ns_channel s \<noteq> [] \<Longrightarrow>
    node_step A B k s (begin_block_job s)"
| block_done: "block_job s = Some raw \<Longrightarrow> node_step A B k s (end_block_job A k raw s)"
| channel_closed: "PeerMgr \<notin> block_cb_arcs s \<Longrightarrow> ns_channel s = [] \<Longrightarrow> block_job s = None \<Longrightarrow>
    node_step A B k s (block_task_done k s)"
| tx_job: "PeerMgr \<in> tx_cb_arcs s \<Longrightarrow> TxJob j \<notin> tx_cb_arcs s \<Longrightarrow> node_step A B k s (begin_tx_job j t s)"
| tx_done: "hm_get (tx_jobs s) j = Some t \<Longrightarrow> node_step A B k s (end_tx_job B ord now k j t s)"
| p2p_ends: "node_step A B k s (p2p_task_done k s)"
| selected: "ns_phase s = Serving \<Longrightarrow> node_step A B k s (select_done k s)"
| main_ends: "ns_phase s = Stopping \<Longrightarrow> node_step A B k s (main_done k s)"
| runtime_ends: "ns_phase s = Returned \<Longrightarrow> node_step A B k s (block_task_done k s)"
| runtime_drops_tx: "ns_phase s = Returned \<Longrightarrow> node_step A B k s (drop_tx_job k j s)"

inductive_cases node_stepE: "node_step A B k s s'"

inductive node_reachable :: "'c btck_api \<Rightarrow> tx_api \<Rightarrow> kernel \<Rightarrow> mempool \<Rightarrow> 'c ffi_state \<Rightarrow> 'c node_state \<Rightarrow> bool" for A B k mp w where
  init: "node_reachable A B k mp w (main_started mp w)"
| step: "node_reachable A B k mp w s \<Longrightarrow> node_step A B k s s' \<Longrightarrow> node_reachable A B k mp w s'"

section \<open>The invariant\<close>

text \<open>Who may hold what, and that each object holds its own \<open>Arc\<close>s as long as it lives.\<close>

definition arcs_ok :: "'c node_state \<Rightarrow> bool" where
  "arcs_ok s \<longleftrightarrow>
     kernel_arcs s \<subseteq> {Main, RpcServer, InMempool, InBlockCb} \<union> range Request \<and>
     mempool_arcs s \<subseteq> {Main, RpcServer, InTxCb} \<union> range Request \<and>
     block_cb_arcs s \<subseteq> {PeerMgr, BlockTask, BlockJob} \<and> tx_cb_arcs s \<subseteq> {PeerMgr} \<union> range TxJob \<and>
     (InMempool \<in> kernel_arcs s \<longleftrightarrow> mempool_arcs s \<noteq> {}) \<and> (InBlockCb \<in> kernel_arcs s \<longleftrightarrow> block_cb_arcs s \<noteq> {}) \<and>
     (InTxCb \<in> mempool_arcs s \<longleftrightarrow> tx_cb_arcs s \<noteq> {})"

text \<open>What the tasks hold.\<close>

definition tasks_ok :: "'c node_state \<Rightarrow> bool" where
  "tasks_ok s \<longleftrightarrow>
     (block_job s \<noteq> None \<longleftrightarrow> BlockJob \<in> block_cb_arcs s) \<and>
     (\<forall>j. hm_get (tx_jobs s) j \<noteq> None \<longleftrightarrow> TxJob j \<in> tx_cb_arcs s) \<and>
     (\<not> p2p_spawned s \<longrightarrow> block_cb_arcs s = {} \<and> tx_cb_arcs s = {}) \<and>
     (Main \<in> kernel_arcs s \<longleftrightarrow> ns_phase s \<noteq> Returned) \<and> (Main \<in> mempool_arcs s \<longleftrightarrow> ns_phase s \<noteq> Returned) \<and>
     (RpcServer \<in> kernel_arcs s \<longleftrightarrow> ns_phase s = Serving) \<and> (RpcServer \<in> mempool_arcs s \<longleftrightarrow> ns_phase s = Serving) \<and>
     (\<forall>r. Request r \<in> kernel_arcs s \<longleftrightarrow> Request r \<in> mempool_arcs s)"

text \<open>The kernel lives exactly as long as somebody holds it; \<open>w\<close> is the library before the start.\<close>

definition world_ok :: "kernel \<Rightarrow> 'c ffi_state \<Rightarrow> 'c node_state \<Rightarrow> bool" where
  "world_ok k w s \<longleftrightarrow>
     (if kernel_arcs s = {} then adds [] w (ns_world s) else kernel_live k (ns_world s) \<and> adds (owned k) w (ns_world s))"

lemma world_ok_cong:
  "kernel_arcs s' \<noteq> {} \<Longrightarrow> kernel_arcs s \<noteq> {} \<Longrightarrow> ns_world s' = ns_world s \<Longrightarrow> world_ok k w s \<Longrightarrow> world_ok k w s'"
  by (simp add: world_ok_def)

lemma world_ok_run:
  "world_ok k w s \<Longrightarrow> kernel_arcs s \<noteq> {} \<Longrightarrow> steady k (ns_world s) w' \<Longrightarrow> world_ok k w (s\<lparr>ns_world := w'\<rparr>)"
  using steady_live [of k "ns_world s" w'] owned_steady [of k w "ns_world s" w'] by (simp add: world_ok_def)

section \<open>Dropping an \<open>Arc\<close>\<close>

lemma drop_kernel_arc_sel [simp]:
  "kernel_arcs (drop_kernel_arc k h s) = kernel_arcs s - {h}"
  "mempool_arcs (drop_kernel_arc k h s) = mempool_arcs s" "block_cb_arcs (drop_kernel_arc k h s) = block_cb_arcs s"
  "tx_cb_arcs (drop_kernel_arc k h s) = tx_cb_arcs s" "block_job (drop_kernel_arc k h s) = block_job s"
  "tx_jobs (drop_kernel_arc k h s) = tx_jobs s" "p2p_spawned (drop_kernel_arc k h s) = p2p_spawned s"
  "ns_phase (drop_kernel_arc k h s) = ns_phase s" "ns_channel (drop_kernel_arc k h s) = ns_channel s"
  "ns_pool (drop_kernel_arc k h s) = ns_pool s"
  by (auto simp: drop_kernel_arc_def Let_def)

lemma drop_mempool_arc_sel [simp]:
  "kernel_arcs (drop_mempool_arc k h s) = kernel_arcs s - (if mempool_arcs s = {h} then {InMempool} else {})"
  "mempool_arcs (drop_mempool_arc k h s) = mempool_arcs s - {h}" "block_cb_arcs (drop_mempool_arc k h s) = block_cb_arcs s"
  "tx_cb_arcs (drop_mempool_arc k h s) = tx_cb_arcs s" "block_job (drop_mempool_arc k h s) = block_job s"
  "tx_jobs (drop_mempool_arc k h s) = tx_jobs s" "p2p_spawned (drop_mempool_arc k h s) = p2p_spawned s"
  "ns_phase (drop_mempool_arc k h s) = ns_phase s" "ns_channel (drop_mempool_arc k h s) = ns_channel s"
  "ns_pool (drop_mempool_arc k h s) = ns_pool s"
  by (auto simp: drop_mempool_arc_def Let_def)

lemma drop_block_cb_arc_sel [simp]:
  "kernel_arcs (drop_block_cb_arc k h s) = kernel_arcs s - (if block_cb_arcs s = {h} then {InBlockCb} else {})"
  "mempool_arcs (drop_block_cb_arc k h s) = mempool_arcs s" "block_cb_arcs (drop_block_cb_arc k h s) = block_cb_arcs s - {h}"
  "tx_cb_arcs (drop_block_cb_arc k h s) = tx_cb_arcs s" "block_job (drop_block_cb_arc k h s) = block_job s"
  "tx_jobs (drop_block_cb_arc k h s) = tx_jobs s" "p2p_spawned (drop_block_cb_arc k h s) = p2p_spawned s"
  "ns_phase (drop_block_cb_arc k h s) = ns_phase s" "ns_channel (drop_block_cb_arc k h s) = ns_channel s"
  "ns_pool (drop_block_cb_arc k h s) = ns_pool s"
  by (auto simp: drop_block_cb_arc_def Let_def)

lemma drop_tx_cb_arc_sel [simp]:
  "kernel_arcs (drop_tx_cb_arc k h s) =
     kernel_arcs s - (if tx_cb_arcs s = {h} \<and> mempool_arcs s = {InTxCb} then {InMempool} else {})"
  "mempool_arcs (drop_tx_cb_arc k h s) = mempool_arcs s - (if tx_cb_arcs s = {h} then {InTxCb} else {})"
  "block_cb_arcs (drop_tx_cb_arc k h s) = block_cb_arcs s"
  "tx_cb_arcs (drop_tx_cb_arc k h s) = tx_cb_arcs s - {h}" "block_job (drop_tx_cb_arc k h s) = block_job s"
  "tx_jobs (drop_tx_cb_arc k h s) = tx_jobs s" "p2p_spawned (drop_tx_cb_arc k h s) = p2p_spawned s"
  "ns_phase (drop_tx_cb_arc k h s) = ns_phase s" "ns_channel (drop_tx_cb_arc k h s) = ns_channel s"
  "ns_pool (drop_tx_cb_arc k h s) = ns_pool s"
  by (auto simp: drop_tx_cb_arc_def Let_def)

lemma world_ok_drop_kernel:
  assumes "world_ok k w s"
  shows "world_ok k w (drop_kernel_arc k h s)"
proof (cases "h \<in> kernel_arcs s")
  case True
  then have "kernel_live k (ns_world s)" "adds (owned k) w (ns_world s)"
    using assms by (auto simp: world_ok_def split: if_splits)
  with True owned_drop [of k w] show ?thesis by (auto simp: world_ok_def drop_kernel_arc_def Let_def)
next
  case False
  with assms show ?thesis by (simp add: drop_kernel_arc_def)
qed

lemma world_ok_drop:
  assumes "world_ok k w s"
  shows "world_ok k w (drop_mempool_arc k h s)" and "world_ok k w (drop_block_cb_arc k h s)" and "world_ok k w (drop_tx_cb_arc k h s)"
proof -
  have mem: "world_ok k w (drop_mempool_arc k h s)" if "world_ok k w s" for h and s :: "'a node_state"
    unfolding drop_mempool_arc_def Let_def
    using that world_ok_drop_kernel [of k w "s\<lparr>mempool_arcs := mempool_arcs s - {h}\<rparr>"] by (simp add: world_ok_def)
  show "world_ok k w (drop_mempool_arc k h s)" using assms by (rule mem)
  show "world_ok k w (drop_block_cb_arc k h s)"
    unfolding drop_block_cb_arc_def Let_def
    using assms world_ok_drop_kernel [of k w "s\<lparr>block_cb_arcs := block_cb_arcs s - {h}\<rparr>"] by (simp add: world_ok_def)
  show "world_ok k w (drop_tx_cb_arc k h s)"
    unfolding drop_tx_cb_arc_def Let_def
    using assms mem [of "s\<lparr>tx_cb_arcs := tx_cb_arcs s - {h}\<rparr>"] by (simp add: world_ok_def)
qed

lemma arcs_ok_update [simp]:
  "arcs_ok (s\<lparr>ns_world := w\<rparr>) = arcs_ok s" "arcs_ok (s\<lparr>ns_pool := mp\<rparr>) = arcs_ok s" "arcs_ok (s\<lparr>ns_channel := c\<rparr>) = arcs_ok s"
  "arcs_ok (s\<lparr>block_job := b\<rparr>) = arcs_ok s" "arcs_ok (s\<lparr>tx_jobs := js\<rparr>) = arcs_ok s"
  "arcs_ok (s\<lparr>ns_phase := p\<rparr>) = arcs_ok s" "arcs_ok (s\<lparr>shutdown_printed := x\<rparr>) = arcs_ok s"
  by (simp_all add: arcs_ok_def)

lemma arcs_ok_drop:
  assumes "arcs_ok s"
  shows "h \<notin> {InMempool, InBlockCb} \<Longrightarrow> arcs_ok (drop_kernel_arc k h s)"
    and "h \<noteq> InTxCb \<Longrightarrow> arcs_ok (drop_mempool_arc k h s)"
    and "arcs_ok (drop_block_cb_arc k h s)" and "arcs_ok (drop_tx_cb_arc k h s)"
  using assms unfolding arcs_ok_def by auto

section \<open>Every step keeps the invariant\<close>

lemma arcs_ok_step:
  assumes "node_step A B k s s'" and "arcs_ok s" and "tasks_ok s"
  shows "arcs_ok s'"
  using assms(1)
proof cases
  case p2p
  with assms(2,3) show ?thesis by (auto simp: spawn_p2p_def arcs_ok_def tasks_ok_def)
next
  case rpc
  with assms(2,3) show ?thesis by (auto simp: start_rpc_def arcs_ok_def tasks_ok_def)
next
  case bad_rpc_addr
  with assms(2,3) show ?thesis by (simp add: main_failed_def arcs_ok_drop)
next
  case (request r)
  with assms(2,3) show ?thesis by (auto simp: begin_request_def arcs_ok_def tasks_ok_def)
next
  case (answered r)
  with assms(2,3) show ?thesis by (simp add: end_request_def arcs_ok_drop)
next
  case block_job
  with assms(2,3) show ?thesis by (auto simp: begin_block_job_def arcs_ok_def split: list.splits)
next
  case (block_done raw)
  with assms(2,3) show ?thesis by (simp add: end_block_job_def arcs_ok_drop)
next
  case (tx_job j t)
  with assms(2,3) show ?thesis by (auto simp: begin_tx_job_def arcs_ok_def)
next
  case p2p_ends
  with assms(2,3) show ?thesis by (simp add: p2p_task_done_def arcs_ok_drop)
next
  case selected
  with assms(2,3) show ?thesis by (simp add: select_done_def arcs_ok_drop)
next
  case main_ends
  with assms(2,3) show ?thesis by (simp add: main_done_def arcs_ok_drop)
qed (use assms(2,3) in \<open>simp_all add: receive_block_def block_task_done_def end_tx_job_def drop_tx_job_def arcs_ok_drop\<close>)

lemma tasks_ok_step:
  assumes "node_step A B k s s'" and "arcs_ok s" and "tasks_ok s"
  shows "tasks_ok s'"
  using assms(1)
proof cases
  case p2p
  with assms(2,3) show ?thesis by (auto simp: spawn_p2p_def tasks_ok_def)
next
  case rpc
  with assms(2,3) show ?thesis by (auto simp: start_rpc_def tasks_ok_def)
next
  case bad_rpc_addr
  with assms(2,3) show ?thesis by (auto simp: main_failed_def tasks_ok_def)
qed (use assms(2,3) in \<open>auto simp: begin_request_def end_request_def receive_block_def begin_block_job_def end_block_job_def
  block_task_done_def begin_tx_job_def end_tx_job_def drop_tx_job_def p2p_task_done_def select_done_def main_done_def tasks_ok_def hm_simps
  split: list.splits if_splits\<close>)

lemma world_ok_same: "world_ok k w s \<Longrightarrow> kernel_arcs s' = kernel_arcs s \<Longrightarrow> ns_world s' = ns_world s \<Longrightarrow> world_ok k w s'"
  by (simp add: world_ok_def)

lemma world_ok_update [simp]:
  "world_ok k w (s\<lparr>ns_pool := mp\<rparr>) = world_ok k w s" "world_ok k w (s\<lparr>ns_channel := c\<rparr>) = world_ok k w s"
  "world_ok k w (s\<lparr>block_job := b\<rparr>) = world_ok k w s" "world_ok k w (s\<lparr>tx_jobs := js\<rparr>) = world_ok k w s"
  "world_ok k w (s\<lparr>ns_phase := p\<rparr>) = world_ok k w s" "world_ok k w (s\<lparr>shutdown_printed := x\<rparr>) = world_ok k w s"
  by (simp_all add: world_ok_def)

lemmas world_ok_drops = world_ok_drop_kernel world_ok_drop

text \<open>A task that runs the kernel holds it, so the kernel lives.\<close>

lemma world_ok_use:
  assumes "world_ok k w s" and "h \<in> kernel_arcs s"
  shows "world_ok k w (s\<lparr>ns_world := kernel_step A k op (ns_world s)\<rparr>)"
proof -
  have "kernel_live k (ns_world s)" using assms by (auto simp: world_ok_def split: if_splits)
  with assms show ?thesis by (intro world_ok_run kernel_step_steady) auto
qed

lemma world_ok_step:
  assumes "node_step A B k s s'" and "arcs_ok s" and "tasks_ok s" and "world_ok k w s"
  shows "world_ok k w s'"
  using assms(1)
proof cases
  case p2p
  then have "kernel_arcs s \<noteq> {}" using assms(3) by (auto simp: tasks_ok_def)
  with p2p assms(4) show ?thesis by (auto simp: spawn_p2p_def intro: world_ok_cong)
next
  case rpc
  then have "kernel_arcs s \<noteq> {}" using assms(3) by (auto simp: tasks_ok_def)
  with rpc assms(4) show ?thesis by (auto simp: start_rpc_def intro: world_ok_cong)
next
  case (request r)
  with assms(4) show ?thesis by (auto simp: begin_request_def intro: world_ok_cong)
next
  case (query r op n)
  with world_ok_use [OF assms(4)] show ?thesis by simp
next
  case (block_done raw)
  then have "InBlockCb \<in> kernel_arcs s" using assms(2,3) by (auto simp: arcs_ok_def tasks_ok_def)
  from world_ok_use [OF assms(4) this, of A "Process_block raw"] block_done show ?thesis
    by (simp add: end_block_job_def world_ok_drops)
qed (use assms(4) in \<open>simp_all add: main_failed_def end_request_def receive_block_def begin_block_job_def block_task_done_def
  begin_tx_job_def end_tx_job_def drop_tx_job_def p2p_task_done_def select_done_def main_done_def world_ok_drops
  world_ok_same [OF assms(4)] split: list.splits\<close>)

lemma node_reachable_invar:
  assumes "node_reachable A B k mp w1 s" and "adds (owned k) w w1" and "kernel_live k w1"
  shows "arcs_ok s \<and> tasks_ok s \<and> world_ok k w s"
  using assms(1)
proof induction
  case init
  with assms(2,3) show ?case by (auto simp: main_started_def arcs_ok_def tasks_ok_def world_ok_def)
next
  case (step s s')
  then show ?case using arcs_ok_step tasks_ok_step world_ok_step by blast
qed

text \<open>The tasks that are left.\<close>

definition tasks_left :: "'c node_state \<Rightarrow> holder set" where
  "tasks_left s = (kernel_arcs s \<union> mempool_arcs s \<union> block_cb_arcs s \<union> tx_cb_arcs s) - {InMempool, InBlockCb, InTxCb}"

lemma tasks_left_empty:
  assumes "arcs_ok s" and "tasks_left s = {}"
  shows "kernel_arcs s = {}"
proof -
  have left: "h \<notin> kernel_arcs s \<and> h \<notin> mempool_arcs s \<and> h \<notin> block_cb_arcs s \<and> h \<notin> tx_cb_arcs s"
    if "h \<notin> {InMempool, InBlockCb, InTxCb}" for h
    using assms(2) that unfolding tasks_left_def by blast
  have "tx_cb_arcs s \<subseteq> {PeerMgr} \<union> range TxJob" "block_cb_arcs s \<subseteq> {PeerMgr, BlockTask, BlockJob}"
    using assms(1) by (simp_all add: arcs_ok_def)
  with left have "tx_cb_arcs s = {}" "block_cb_arcs s = {}" by auto
  with assms(1) have "InTxCb \<notin> mempool_arcs s" "InBlockCb \<notin> kernel_arcs s" by (simp_all add: arcs_ok_def)
  with assms(1) left have "mempool_arcs s = {}" unfolding arcs_ok_def by auto
  with assms(1) left \<open>InBlockCb \<notin> kernel_arcs s\<close> show ?thesis unfolding arcs_ok_def by auto
qed

section \<open>The node can always stop\<close>

lemma node_step_finite:
  assumes "node_step A B k s s'" and "finite (kernel_arcs s)"
  shows "finite (kernel_arcs s')"
  using assms(1)
  by cases (use assms(2) in \<open>simp_all add: spawn_p2p_def start_rpc_def main_failed_def begin_request_def end_request_def
    receive_block_def begin_block_job_def end_block_job_def block_task_done_def begin_tx_job_def end_tx_job_def drop_tx_job_def
    p2p_task_done_def select_done_def main_done_def split: list.splits\<close>)

lemma node_reachable_finite: "node_reachable A B k mp w s \<Longrightarrow> finite (kernel_arcs s)"
  by (induction rule: node_reachable.induct) (auto simp: main_started_def intro: node_step_finite)

text \<open>The runs from a state in which all this holds.\<close>

definition node_good :: "kernel \<Rightarrow> 'c ffi_state \<Rightarrow> 'c node_state \<Rightarrow> bool" where
  "node_good k w s \<longleftrightarrow> arcs_ok s \<and> tasks_ok s \<and> world_ok k w s \<and> finite (kernel_arcs s)"

lemma node_good_step: "node_step A B k s s' \<Longrightarrow> node_good k w s \<Longrightarrow> node_good k w s'"
  unfolding node_good_def by (blast intro: arcs_ok_step tasks_ok_step world_ok_step node_step_finite)

definition run_from :: "'c btck_api \<Rightarrow> tx_api \<Rightarrow> kernel \<Rightarrow> 'c ffi_state \<Rightarrow> 'c node_state \<Rightarrow> 'c node_state \<Rightarrow> bool" where
  "run_from A B k w s0 s \<longleftrightarrow> node_good k w s \<and> (node_step A B k)\<^sup>*\<^sup>* s0 s"

lemma run_from_invar:
  assumes "run_from A B k w s0 s"
  shows "arcs_ok s" and "tasks_ok s" and "world_ok k w s" and "finite (kernel_arcs s)"
  using assms by (simp_all add: run_from_def node_good_def)

lemma run_from_step: "run_from A B k w s0 s \<Longrightarrow> node_step A B k s s' \<Longrightarrow> run_from A B k w s0 s'"
  by (auto simp: run_from_def intro: node_good_step rtranclp.rtrancl_into_rtrancl)

lemma main_can_return:
  assumes "run_from A B k w s0 s"
  shows "\<exists>s'. run_from A B k w s0 s' \<and> ns_phase s' = Returned"
proof -
  have stop: "\<exists>s'. run_from A B k w s0 s' \<and> ns_phase s' = Returned"
    if "run_from A B k w s0 t" "ns_phase t = Stopping" for t
    using run_from_step [OF that(1) main_ends [OF that(2)]] by (auto simp: main_done_def)
  show ?thesis
  proof (cases "ns_phase s")
    case Starting
    from run_from_step [OF assms bad_rpc_addr [OF this]] show ?thesis by (auto simp: main_failed_def)
  next
    case Serving
    have "ns_phase (select_done k s) = Stopping" by (simp add: select_done_def)
    with run_from_step [OF assms selected [OF Serving]] show ?thesis by (rule stop)
  next
    case Stopping
    with assms show ?thesis by (rule stop)
  next
    case Returned
    with assms show ?thesis by blast
  qed
qed

text \<open>After \<open>main\<close> has returned the runtime drops the peer-to-peer tasks; a block that is being
  processed is waited for.\<close>

lemma block_tasks_end:
  assumes "run_from A B k w s0 s" and "ns_phase s = Returned"
  shows "\<exists>s'. run_from A B k w s0 s' \<and> ns_phase s' = Returned \<and> block_cb_arcs s' = {} \<and> PeerMgr \<notin> tx_cb_arcs s'"
proof -
  let ?s1 = "p2p_task_done k s"
  have s1: "run_from A B k w s0 ?s1" using run_from_step [OF assms(1) p2p_ends] .
  obtain s2 where s2: "run_from A B k w s0 s2" "ns_phase s2 = Returned" "block_cb_arcs s2 \<subseteq> {BlockTask}" "PeerMgr \<notin> tx_cb_arcs s2"
  proof (cases "block_job ?s1")
    case None
    then have "BlockJob \<notin> block_cb_arcs ?s1" using run_from_invar(2) [OF s1] by (simp add: tasks_ok_def)
    with s1 run_from_invar(1) [OF s1] assms(2) show ?thesis
      by (intro that [of ?s1]) (auto simp: p2p_task_done_def arcs_ok_def)
  next
    case (Some raw)
    from run_from_step [OF s1 block_done [OF this]] run_from_invar(1) [OF s1] assms(2) show ?thesis
      by (intro that [of "end_block_job A k raw ?s1"]) (auto simp: p2p_task_done_def end_block_job_def arcs_ok_def)
  qed
  from run_from_step [OF s2(1) runtime_ends [OF s2(2)]] s2 show ?thesis
    by (intro exI [of _ "block_task_done k s2"]) (auto simp: block_task_done_def)
qed

lemma tx_tasks_end:
  assumes "run_from A B k w s0 s" and "ns_phase s = Returned" and "block_cb_arcs s = {}" and "PeerMgr \<notin> tx_cb_arcs s"
  shows "\<exists>s'. run_from A B k w s0 s' \<and> ns_phase s' = Returned \<and> block_cb_arcs s' = {} \<and> tx_cb_arcs s' = {}"
  using assms
proof (induction "card (tx_cb_arcs s)" arbitrary: s rule: less_induct)
  case less
  note inv = run_from_invar(1,2) [OF less.prems(1)]
  have jobs: "tx_cb_arcs s \<subseteq> range TxJob" using inv(1) less.prems(4) by (auto simp: arcs_ok_def)
  have fin: "finite (tx_cb_arcs s)"
  proof (rule finite_subset)
    have "h \<in> TxJob ` dom (hm_get (tx_jobs s))" if mem: "h \<in> tx_cb_arcs s" for h
    proof -
      obtain j where "h = TxJob j" using mem jobs by blast
      with mem inv(2) show ?thesis by (simp add: tasks_ok_def dom_def)
    qed
    then show "tx_cb_arcs s \<subseteq> TxJob ` dom (hm_get (tx_jobs s))" by blast
    show "finite (TxJob ` dom (hm_get (tx_jobs s)))" by (simp add: finite_dom_map_of)
  qed
  show ?case
  proof (cases "tx_cb_arcs s = {}")
    case True
    with less.prems show ?thesis by blast
  next
    case False
    then obtain j where j: "TxJob j \<in> tx_cb_arcs s" using jobs by blast
    let ?s = "drop_tx_job k j s"
    have "card (tx_cb_arcs ?s) < card (tx_cb_arcs s)" using card_Diff1_less [OF fin j] by (simp add: drop_tx_job_def)
    moreover have "run_from A B k w s0 ?s" using run_from_step [OF less.prems(1) runtime_drops_tx [OF less.prems(2)]] .
    ultimately show ?thesis using less.hyps [of ?s] less.prems by (simp add: drop_tx_job_def)
  qed
qed

lemma requests_end:
  assumes "run_from A B k w s0 s" and "ns_phase s = Returned" and "block_cb_arcs s = {}" and "tx_cb_arcs s = {}"
  shows "\<exists>s'. run_from A B k w s0 s' \<and> ns_phase s' = Returned \<and> tasks_left s' = {}"
  using assms
proof (induction "card (kernel_arcs s)" arbitrary: s rule: less_induct)
  case less
  note inv = run_from_invar [OF less.prems(1)]
  show ?case
  proof (cases "\<exists>r. Request r \<in> kernel_arcs s")
    case True
    then obtain r where r: "Request r \<in> kernel_arcs s" by blast
    let ?s = "end_request k r s"
    have "card (kernel_arcs ?s) < card (kernel_arcs s)"
      by (rule psubset_card_mono [OF inv(4)]) (use r in \<open>auto simp: end_request_def\<close>)
    moreover have "run_from A B k w s0 ?s" using run_from_step [OF less.prems(1) answered [OF r]] .
    ultimately show ?thesis using less.hyps [of ?s] less.prems by (simp add: end_request_def)
  next
    case False
    then have "tasks_left s = {}" using inv(1,2) less.prems(2-4) unfolding arcs_ok_def tasks_ok_def tasks_left_def by auto
    with less.prems show ?thesis by blast
  qed
qed

lemma setup_owned:
  assumes "ledger_ok w" and "main_setup A fs G a w = (Inr (k, mp), w1)" and "\<not> has_nul (absolute_dir fs (arg_datadir a))"
    and "\<not> has_nul (absolute_dir fs (case arg_blocksdir a of Some d \<Rightarrow> d | None \<Rightarrow> path_join (arg_datadir a) ''blocks''))"
  shows "adds (owned k) w w1" and "kernel_live k w1"
proof -
  let ?blocksdir = "case arg_blocksdir a of Some d \<Rightarrow> d | None \<Rightarrow> path_join (arg_datadir a) ''blocks''"
  let ?files = "case arg_import a of None \<Rightarrow> [] | Some list \<Rightarrow> import_files list"
  obtain r0 w0 where new: "kernel_new A fs G (arg_chain a) (arg_datadir a) ?blocksdir w = (r0, w0)" by fastforce
  note k0 = kernel_new_adds [OF assms(1,3,4) new]
  from assms(2) new have r0: "r0 = Inr k" and w1: "w1 = (if ?files = [] then w0 else snd (import_blocks A k ?files w0))"
    by (auto simp: main_setup_def Let_def split: sum.splits prod.splits if_splits)
  have own: "adds (owned k) w w0" and live: "kernel_live k w0" using k0 r0 by simp_all
  have "steady k w0 w1"
    unfolding w1 using steady_refl [OF live] import_blocks_live [OF live prod.collapse [symmetric], of A ?files] by simp
  with own live show "adds (owned k) w w1" and "kernel_live k w1" using owned_steady steady_live by blast+
qed

lemma tasks_left_nonempty: "arcs_ok s \<Longrightarrow> tasks_left s \<noteq> {} \<Longrightarrow> kernel_arcs s \<noteq> {}"
proof -
  assume ok: "arcs_ok s" and "tasks_left s \<noteq> {}"
  then consider "kernel_arcs s \<noteq> {}" | "mempool_arcs s \<noteq> {}" | "block_cb_arcs s \<noteq> {}" | "tx_cb_arcs s \<noteq> {}"
    by (auto simp: tasks_left_def)
  then show "kernel_arcs s \<noteq> {}" using ok by cases (auto simp: arcs_ok_def)
qed

text \<open>C8. Ownership of the kernel over the whole life of the node, with requests, block jobs, transaction
  tasks and the end of \<open>main\<close> and of the runtime in any order: the library is never called on
  an object that is gone, the kernel lives exactly as long as a task is left that can reach it,
  and with the last one everything is released.\<close>

theorem node_ownership_safe:
  assumes "ledger_ok w" and "main_setup A fs G a w = (Inr (k, mp), w1)" and "\<not> has_nul (absolute_dir fs (arg_datadir a))"
    and "\<not> has_nul (absolute_dir fs (case arg_blocksdir a of Some d \<Rightarrow> d | None \<Rightarrow> path_join (arg_datadir a) ''blocks''))"
    and "node_reachable A B k mp w1 s"
  shows "faults (ns_world s) = faults w \<and>
    (if tasks_left s = {} then live (ns_world s) = live w else kernel_live k (ns_world s))"
proof -
  note inv = node_reachable_invar [OF assms(5) setup_owned [OF assms(1-4)]]
  with tasks_left_empty [of s] tasks_left_nonempty [of s] show ?thesis
    by (auto simp: world_ok_def adds_def split: if_splits)
qed

definition shutdown_args :: args where
  "shutdown_args = \<lparr>arg_chain = ''signet'', arg_datadir = ''data'', arg_blocksdir = Some ''blocks'', arg_import = None,
     arg_rpc = ''nowhere'', arg_peer = []\<rparr>"

lemma shutdown_setup:
  "main_setup list_api plain_fs (\<lambda>_. Inr [7]) shutdown_args no_handles = (Inr (sample_kernel, with_kernel policy_testnet KernelHandle), started)"
  "\<not> has_nul (absolute_dir plain_fs (arg_datadir shutdown_args))"
  "\<not> has_nul (absolute_dir plain_fs (case arg_blocksdir shutdown_args of Some d \<Rightarrow> d | None \<Rightarrow> path_join (arg_datadir shutdown_args) ''blocks''))"
  using sample_new by (simp_all add: main_setup_def shutdown_args_def policy_for_chain_def plain_fs_def absolute_dir_def has_nul_def)

text \<open>A run that ends at once, with a bad address of the server.\<close>

theorem node_ownership_safe_witness:
  "live (ns_world (main_failed sample_kernel (main_started (with_kernel policy_testnet KernelHandle) started))) = []"
proof -
  let ?s = "main_failed sample_kernel (main_started (with_kernel policy_testnet KernelHandle) started)"
  have "node_reachable list_api sample_api sample_kernel (with_kernel policy_testnet KernelHandle) started ?s"
    by (rule node_reachable.step [OF node_reachable.init node_step.bad_rpc_addr]) (simp add: main_started_def)
  note safe = node_ownership_safe [OF ledger_ok_no_handles shutdown_setup this]
  have "tasks_left ?s = {}" by (auto simp: tasks_left_def main_failed_def main_started_def)
  with safe show ?thesis by (simp add: no_handles_def)
qed

text \<open>C9. The node can always stop: from every state it can reach there is a way to the end on which
  \<open>main\<close> returns, the tasks finish or are dropped, and everything is released.\<close>

theorem node_can_stop:
  assumes "ledger_ok w" and "main_setup A fs G a w = (Inr (k, mp), w1)" and "\<not> has_nul (absolute_dir fs (arg_datadir a))"
    and "\<not> has_nul (absolute_dir fs (case arg_blocksdir a of Some d \<Rightarrow> d | None \<Rightarrow> path_join (arg_datadir a) ''blocks''))"
    and "node_reachable A B k mp w1 s"
  shows "\<exists>s'. (node_step A B k)\<^sup>*\<^sup>* s s' \<and> ns_phase s' = Returned \<and> tasks_left s' = {} \<and> live (ns_world s') = live w"
proof -
  have "run_from A B k w s s"
    using node_reachable_invar [OF assms(5) setup_owned [OF assms(1-4)]] node_reachable_finite [OF assms(5)]
    by (simp add: run_from_def node_good_def)
  then obtain s' where s': "run_from A B k w s s'" "ns_phase s' = Returned" "tasks_left s' = {}"
    using main_can_return block_tasks_end tx_tasks_end requests_end by metis
  have "kernel_arcs s' = {}" using tasks_left_empty [OF run_from_invar(1) [OF s'(1)] s'(3)] .
  then have "adds [] w (ns_world s')" using run_from_invar(3) [OF s'(1)] by (simp add: world_ok_def)
  with s' show ?thesis by (auto simp: run_from_def adds_def)
qed

theorem node_can_stop_witness:
  "\<exists>s'. (node_step list_api sample_api sample_kernel)\<^sup>*\<^sup>* (main_started (with_kernel policy_testnet KernelHandle) started) s' \<and>
     live (ns_world s') = []"
proof -
  note stop = node_can_stop [OF ledger_ok_no_handles shutdown_setup node_reachable.init, of sample_api]
  from stop obtain s' where "(node_step list_api sample_api sample_kernel)\<^sup>*\<^sup>* (main_started (with_kernel policy_testnet KernelHandle) started) s'"
    "live (ns_world s') = []"
    unfolding no_handles_def ffi_state.simps by blast
  then show ?thesis by blast
qed

text \<open>The message that all data are on disk can come while the kernel still lives: the block
  processor is not aborted with the peer-to-peer task, and an aborted task goes later.\<close>

lemma shutdown_message_too_early:
  "\<exists>s. node_reachable A B k mp w s \<and> shutdown_printed s \<and> ns_world s = w \<and> BlockTask \<in> block_cb_arcs s"
proof -
  let ?s1 = "start_rpc (spawn_p2p (main_started mp w))"
  let ?s2 = "select_done k ?s1"
  have "node_reachable A B k mp w (spawn_p2p (main_started mp w))"
    by (rule node_reachable.step [OF node_reachable.init node_step.p2p]) (simp_all add: main_started_def)
  then have "node_reachable A B k mp w ?s1"
    by (rule node_reachable.step [OF _ node_step.rpc]) (simp add: main_started_def spawn_p2p_def)
  then have "node_reachable A B k mp w ?s2"
    by (rule node_reachable.step [OF _ node_step.selected]) (simp add: start_rpc_def)
  then have "node_reachable A B k mp w (main_done k ?s2)"
    by (rule node_reachable.step [OF _ node_step.main_ends]) (simp add: select_done_def)
  moreover have "shutdown_printed (main_done k ?s2) \<and> ns_world (main_done k ?s2) = w \<and> BlockTask \<in> block_cb_arcs (main_done k ?s2)"
    by (simp add: main_done_def select_done_def start_rpc_def spawn_p2p_def main_started_def drop_mempool_arc_def
      drop_kernel_arc_def Let_def insert_Diff_if)
  ultimately show ?thesis by blast
qed

end
