(* ===== verification/Block_Log.thy ===== *)
theory Block_Log
  imports Kernel_Wrapper
begin

unbundle bit_operations_syntax

text \<open>
  The diagnostics of \<open>process_block\<close> in \<^verbatim>\<open>src/kernel/mod.rs\<close>: the session counter, which
  results are reported, and \<open>verify_block_files_written\<close>, which looks at the first block
  file.  A line written to the standard error stream is a value of \<open>log_line\<close>.  What the file system
  shows is the record \<open>file_probe\<close>, an argument.
\<close>

section \<open>State\<close>

datatype log_line =
  Activated i32 i32 i32
| KnownAndActive i32 i32 i32
| Added i32 i32 i32
| NotAdded i32 i32 i32 i32
| IndexActivated i32 i32 i32 i32
| AlreadyInIndex i32 i32
| Verifying i32
| FileExists u64
| XorFile nat
| ReadBytes nat
| MagicFound nat
| MagicMissing
| ReadFailed
| OpenFailed
| FileGrowing u64 u64 u64
| FileMissing
| ExpectedPath string
| AlternateFile u64

text \<open>The two static counters and the lines written so far.\<close>

record block_log =
  session_blocks_added :: i32
  last_size :: u64
  log_lines :: "log_line list"

definition log_start :: block_log where
  "log_start = \<lparr>session_blocks_added = 0, last_size = 0, log_lines = []\<rparr>"

definition say :: "log_line list \<Rightarrow> block_log \<Rightarrow> block_log" where
  "say ls l = l\<lparr>log_lines := log_lines l @ ls\<rparr>"

text \<open>
  \<open>probe_size\<close> is the metadata of the block file, \<open>probe_xor\<close> the contents of the key
  file, \<open>probe_data\<close> the first read of the block file: \<open>None\<close> if it cannot be opened,
  \<open>Some None\<close> if it cannot be read.
\<close>

record file_probe =
  probe_size :: "u64 option"
  probe_xor :: "u8 list option"
  probe_data :: "u8 list option option"
  probe_cwd :: "string option"
  probe_alternate :: "u64 option"

section \<open>The block file\<close>

definition xor_decode :: "u8 list option \<Rightarrow> u8 list \<Rightarrow> u8 list" where
  "xor_decode xor_key buffer =
     (case xor_key of
        Some key \<Rightarrow> map (\<lambda>(i, byte). byte XOR key ! (i mod length key)) (enumerate 0 buffer)
      | None \<Rightarrow> buffer)"

definition windows :: "nat \<Rightarrow> 'a list \<Rightarrow> 'a list list" where
  "windows n xs = map (\<lambda>i. take n (drop i xs)) [0..<Suc (length xs) - n]"

definition magic_count :: "u8 list \<Rightarrow> nat" where
  "magic_count decoded = length (filter (\<lambda>w. w = [0x0a, 0x03, 0xcf, 0x40]) (windows 4 decoded))"

definition file_contents_lines :: "file_probe \<Rightarrow> log_line list" where
  "file_contents_lines P =
     (let xor_key = (case probe_xor P of Some key \<Rightarrow> if key \<noteq> [] then Some key else None | None \<Rightarrow> None)
      in (case xor_key of Some key \<Rightarrow> [XorFile (length key)] | None \<Rightarrow> []) @
         (case probe_data P of
            None \<Rightarrow> [OpenFailed]
          | Some None \<Rightarrow> [ReadFailed]
          | Some (Some data) \<Rightarrow>
              let buffer = take 1024 data;
                  found = magic_count (xor_decode xor_key buffer)
              in [ReadBytes (length buffer), if found > 0 then MagicFound found else MagicMissing]))"

definition verify_block_files_written :: "file_probe \<Rightarrow> i32 \<Rightarrow> block_log \<Rightarrow> block_log" where
  "verify_block_files_written P h l =
     (let l = say [Verifying h] l;
          l = (case probe_size P of
                 Some fsize \<Rightarrow>
                   let l = say (FileExists fsize # file_contents_lines P) l;
                       prev_size = last_size l;
                       l = (if prev_size > 0 \<and> fsize \<noteq> prev_size then say [FileGrowing prev_size fsize (fsize - prev_size)] l else l)
                   in l\<lparr>last_size := fsize\<rparr>
               | None \<Rightarrow> say [FileMissing] l)
      in case probe_cwd P of
           Some cwd \<Rightarrow>
             say (ExpectedPath (cwd @ ''/data/blocks/blk00000.dat'') #
               (case probe_alternate P of Some fsize \<Rightarrow> [AlternateFile fsize] | None \<Rightarrow> [])) l
         | None \<Rightarrow> l)"

section \<open>The report of a block\<close>

definition should_log :: "i32 \<Rightarrow> i32 \<Rightarrow> bool" where
  "should_log height_after session_count \<longleftrightarrow>
     sint height_after < 20 \<or> sint session_count < 20 \<or>
     (sint height_after < 100 \<and> sint height_after mod 10 = 0) \<or> sint height_after mod 100 = 0"

definition report_block :: "file_probe \<Rightarrow> i32 \<Rightarrow> i32 \<Rightarrow> i32 \<Rightarrow> i32 \<Rightarrow> block_log \<Rightarrow> block_log" where
  "report_block P rc new_block height_before height_after l =
     (let is_already_known = (rc = - 1 \<and> new_block = 0);
          chain_advanced = (sint height_after > sint height_before);
          session_count = session_blocks_added l;
          l = (if chain_advanced then l\<lparr>session_blocks_added := session_count + 1\<rparr> else l);
          log = should_log height_after session_count
      in if is_already_known then
           (if chain_advanced then (if log then say [Activated height_before height_after session_count] l else l)
            else if log then say [KnownAndActive height_after rc new_block] l else l)
         else if new_block = 1 then
           (if chain_advanced then
              (if log then
                 let l = say [Added height_before height_after session_count] l
                 in if sint height_after \<le> 10 \<or> sint height_after mod 100 = 0 then verify_block_files_written P height_after l else l
               else l)
            else say [NotAdded height_before height_after new_block rc] l)
         else
           (if chain_advanced then (if log then say [IndexActivated height_before height_after rc new_block] l else l)
            else if log then say [AlreadyInIndex height_after new_block] l else l))"

text \<open>\<open>process_block\<close> with its diagnostics.\<close>

definition process_block_logged ::
  "'c btck_api \<Rightarrow> file_probe \<Rightarrow> kernel \<Rightarrow> u8 list \<Rightarrow> 'c ffi_state \<times> block_log \<Rightarrow> (wrapper_error + unit) \<times> 'c ffi_state \<times> block_log" where
  "process_block_logged A P k raw = (\<lambda>(w, l).
     let (height_before, w) = active_height A k w in
     case ffi_create BlockObject (block_ok A raw) w of
       (None, w) \<Rightarrow> (Inl (CreateFailed BlockObject), w, l)
     | (Some ptr, w) \<Rightarrow>
         let (rc, new_block, w) = process_block_ffi A (k_chainman k) ptr raw w;
             w = ffi_destroy BlockObject ptr w;
             is_already_known = (rc = - 1 \<and> new_block = 0);
             is_error = (rc \<noteq> 0 \<and> \<not> is_already_known)
         in if is_error then (Inl (ProcessBlockFailed rc new_block), w, l)
            else let (height_after, w) = active_height A k w
                 in (Inr (), w, report_block P rc new_block (unwrap_or (- 1) height_before) (unwrap_or (- 1) height_after) l))"

section \<open>The diagnostics change nothing\<close>

lemma logged_result: "fst (process_block_logged A P k raw (w, l)) = fst (process_block A k raw w)"
  by (simp add: process_block_logged_def process_block_def Let_def split: prod.splits option.splits)

lemma logged_world: "fst (snd (process_block_logged A P k raw (w, l))) = snd (process_block A k raw w)"
  by (simp add: process_block_logged_def process_block_def Let_def split: prod.splits option.splits)

lemma say_sel [simp]: "session_blocks_added (say ls l) = session_blocks_added l" "last_size (say ls l) = last_size l"
  by (simp_all add: say_def)

lemma verify_session [simp]: "session_blocks_added (verify_block_files_written P h l) = session_blocks_added l"
  by (simp add: verify_block_files_written_def Let_def split: option.splits)

lemma report_session:
  "session_blocks_added (report_block P rc nb hb ha l) = session_blocks_added l + of_bool (sint ha > sint hb)"
  by (simp add: report_block_def Let_def)

text \<open>The height as \<open>process_block\<close> reads it.\<close>

definition height_now :: "'c btck_api \<Rightarrow> kernel \<Rightarrow> 'c ffi_state \<Rightarrow> int" where
  "height_now A k w = sint (unwrap_or (- 1) (fst (active_height A k w)))"

text \<open>Whether processing the block succeeds and raises the active chain.\<close>

definition advances :: "'c btck_api \<Rightarrow> kernel \<Rightarrow> u8 list \<Rightarrow> 'c ffi_state \<Rightarrow> bool" where
  "advances A k raw w \<longleftrightarrow> fst (process_block A k raw w) = Inr () \<and> height_now A k (snd (process_block A k raw w)) > height_now A k w"

lemma active_height_again: "active_height A k w = (r, w') \<Longrightarrow> fst (active_height A k w') = r"
  by (auto simp: active_height_def get_active_chain_def ffi_use_def split: if_splits)

lemma logged_session:
  assumes "process_block_logged A P k raw (w, l) = (r, w', l')"
  shows "session_blocks_added l' = session_blocks_added l + of_bool (advances A k raw w)"
  using assms
  by (auto simp: process_block_logged_def process_block_def advances_def height_now_def Let_def report_session active_height_again
    split: prod.splits option.splits if_splits)

text \<open>Any number of blocks, one after the other.\<close>

fun process_all :: "'c btck_api \<Rightarrow> kernel \<Rightarrow> (file_probe \<times> u8 list) list \<Rightarrow> 'c ffi_state \<times> block_log \<Rightarrow> 'c ffi_state \<times> block_log" where
  "process_all A k [] wl = wl"
| "process_all A k ((P, raw) # bs) wl = process_all A k bs (snd (process_block_logged A P k raw wl))"

text \<open>The blocks of a sequence that raise the active chain when their turn comes.\<close>

fun advance_count :: "'c btck_api \<Rightarrow> kernel \<Rightarrow> u8 list list \<Rightarrow> 'c ffi_state \<Rightarrow> nat" where
  "advance_count A k [] w = 0"
| "advance_count A k (raw # bs) w = of_bool (advances A k raw w) + advance_count A k bs (snd (process_block A k raw w))"

lemma process_all_eq:
  "fst (process_all A k bs (w, l)) = fold (\<lambda>raw w. snd (process_block A k raw w)) (map snd bs) w \<and>
   session_blocks_added (snd (process_all A k bs (w, l))) = session_blocks_added l + of_nat (advance_count A k (map snd bs) w)"
proof (induction bs arbitrary: w l)
  case (Cons b bs)
  obtain P raw where b: "b = (P, raw)" by (cases b)
  obtain r w' l' where step: "process_block_logged A P k raw (w, l) = (r, w', l')" by (metis prod.exhaust)
  have "w' = snd (process_block A k raw w)" using logged_world [of A P k raw w l] step by simp
  with Cons.IH [of w' l'] logged_session [OF step] show ?case by (simp add: b step)
qed simp

text \<open>C39. Diagnostics are transparent: a sequence of blocks processed with logging, whatever the file
  system shows, leaves the library as without it, and the session counter counts exactly the
  blocks that raised the active chain, modulo its width.\<close>

theorem block_log_transparent:
  "fst (process_all A k bs (w, log_start)) = fold (\<lambda>raw w. snd (process_block A k raw w)) (map snd bs) w \<and>
   fst (process_block_logged A P k raw (w, l)) = fst (process_block A k raw w) \<and>
   session_blocks_added (snd (process_all A k bs (w, log_start))) = of_nat (advance_count A k (map snd bs) w)"
  using process_all_eq [of A k bs w log_start] logged_result [of A P k raw w l] by (simp add: log_start_def)

section \<open>The block file\<close>

lemma xor_decode_nth:
  assumes "i < length bs"
  shows "xor_decode (Some key) bs ! i = bs ! i XOR key ! (i mod length key)"
  using assms by (simp add: xor_decode_def nth_enumerate_eq)

lemma length_xor_decode [simp]: "length (xor_decode key bs) = length bs"
  by (simp add: xor_decode_def split: option.splits)

lemma xor_decode_twice: "xor_decode key (xor_decode key bs) = bs"
proof (cases key)
  case (Some ks)
  show ?thesis unfolding Some by (rule nth_equalityI) (simp_all add: xor_decode_nth xor.assoc)
qed (simp add: xor_decode_def)

lemma xor_decode_take: "xor_decode key (take n bs) = take n (xor_decode key bs)"
proof (cases key)
  case (Some ks)
  show ?thesis unfolding Some by (rule nth_equalityI) (simp_all add: xor_decode_nth)
qed (simp add: xor_decode_def)

text \<open>The look at the block file finds the signet magic exactly when the first kilobyte holds it:
  a file written with a key is read back through it.\<close>

theorem block_file_probe:
  assumes "key \<noteq> []" and "probe_xor P = Some key" and "probe_data P = Some (Some (xor_decode (Some key) plain))"
  shows "file_contents_lines P =
    [XorFile (length key), ReadBytes (min 1024 (length plain)),
     if magic_count (take 1024 plain) > 0 then MagicFound (magic_count (take 1024 plain)) else MagicMissing]"
  using assms by (simp add: file_contents_lines_def Let_def xor_decode_take [symmetric] xor_decode_twice min.commute)

text \<open>A block file that shrank is reported as growing, by the difference modulo \<open>2 ^ 64\<close>.\<close>

lemma shrunk_file_grows:
  assumes "probe_size P = Some 100" and "last_size l = 200"
  shows "FileGrowing 200 100 0xFFFFFFFFFFFFFF9C \<in> set (log_lines (verify_block_files_written P h l))"
  using assms by (simp add: verify_block_files_written_def Let_def say_def split: option.splits)

text \<open>The count printed for a block leaves that block out: the first one is \<open>+0\<close>.\<close>

lemma session_count_one_behind:
  assumes "sint ha > sint hb" and "sint ha < 20"
  shows "Added hb ha 0 \<in> set (log_lines (report_block P 0 1 hb ha log_start))"
  using assms by (auto simp: report_block_def Let_def log_start_def should_log_def say_def verify_block_files_written_def
    split: option.splits)

end
