(* ===== verification/Download_Progress.thy ===== *)
theory Download_Progress
  imports Downloader
begin

text \<open>
  The queue of \<open>Downloader\<close> under peers that answer: in a round some peer is polled and the
  blocks it was asked for arrive, in any order, before their deadlines.
\<close>

type_synonym dl_round = "(nat \<Rightarrow> instant) \<times> socket_addr \<times> (block_hash list \<Rightarrow> block_hash list)"

fun dl_rounds :: "dl_round list \<Rightarrow> downloader \<Rightarrow> block_hash list \<times> downloader" where
  "dl_rounds [] d = ([], d)"
| "dl_rounds ((clk, addr, arrival) # rs) d =
     (let (asked, d') = poll_assign clk addr d;
          (later, d'') = dl_rounds rs (fold complete (arrival asked) d')
      in (asked @ later, d''))"

lemma complete_fields [simp]:
  "queue (complete h d) = queue d" "global_window (complete h d) = global_window d"
  "per_peer_window (complete h d) = per_peer_window d" "total_blocks (complete h d) = total_blocks d"
  by (auto simp: complete_def split: option.splits)

lemma complete_inflight: "inflight (complete h d) = hm_remove h (inflight d)"
  by (auto simp: complete_def hm_remove_absent split: option.splits)

lemma complete_downloaded: "h \<in> dom (hm_get (inflight d)) \<Longrightarrow> downloaded_blocks (complete h d) = Suc (downloaded_blocks d)"
  by (auto simp: complete_def split: option.splits)

lemma fold_complete:
  assumes "dl_invar d" and "dl_distinct d" and "distinct hs" and "set hs \<subseteq> dom (hm_get (inflight d))"
  shows "dl_invar (fold complete hs d) \<and> dl_distinct (fold complete hs d) \<and> queue (fold complete hs d) = queue d \<and>
    global_window (fold complete hs d) = global_window d \<and> per_peer_window (fold complete hs d) = per_peer_window d \<and>
    dom (hm_get (inflight (fold complete hs d))) = dom (hm_get (inflight d)) - set hs \<and>
    downloaded_blocks (fold complete hs d) = downloaded_blocks d + length hs"
  using assms
proof (induction hs arbitrary: d)
  case (Cons h hs)
  have wf: "hm_wf (inflight d)" using Cons.prems(1) by (simp add: dl_invar_def)
  have dom1: "dom (hm_get (inflight (complete h d))) = dom (hm_get (inflight d)) - {h}"
    by (auto simp: complete_inflight hm_simps)
  have inv1: "dl_invar (complete h d)" "dl_distinct (complete h d)"
    using Cons.prems(1,2) wf by (simp_all add: dl_invar_complete dl_distinct_complete)
  have "set hs \<subseteq> dom (hm_get (inflight (complete h d)))" using Cons.prems(3,4) unfolding dom1 by auto
  note IH = Cons.IH [OF inv1 _ this]
  have "dom (hm_get (inflight d)) - set (h # hs) = dom (hm_get (inflight d)) - {h} - set hs" by auto
  moreover have "h \<in> dom (hm_get (inflight d))" using Cons.prems(4) by simp
  ultimately show ?case using IH Cons.prems(3) by (simp only: fold_simps dom1 complete_fields complete_downloaded) simp
qed simp

lemma inflight_empty: "dom (hm_get (inflight d)) = {} \<longleftrightarrow> inflight d = []"
  by (cases "inflight d") auto

text \<open>A round on a queue with nothing in flight takes a full window off it.\<close>

lemma dl_round_progress:
  assumes "dl_invar d" and "dl_distinct d" and "inflight d = []" and "iteration_order arrival"
    and n: "n = min (length (queue d)) (min (global_window d) (per_peer_window d))"
    and poll: "poll_assign clk addr d = (asked, d1)"
  shows "asked = take n (queue d)" and "let d2 = fold complete (arrival asked) d1 in
    dl_invar d2 \<and> dl_distinct d2 \<and> inflight d2 = [] \<and> queue d2 = drop n (queue d) \<and>
    global_window d2 = global_window d \<and> per_peer_window d2 = per_peer_window d \<and>
    downloaded_blocks d2 = downloaded_blocks d + n"
proof -
  have wf: "hm_wf (inflight d)" and slots: "hm_count (per_peer d) addr = 0"
    using assms(1-3) by (simp_all add: dl_invar_def dl_distinct_def slots_def)
  have "n = min (length (queue d)) (min (global_window d - length (inflight d)) (per_peer_window d - hm_count (per_peer d) addr))"
    using n assms(3) slots by simp
  note prefix = poll_loop_prefix [OF wf assms(2) this, of clk 0 "[]", folded poll_assign_def, unfolded poll]
  then show asked: "asked = take n (queue d)" by simp
  have d1: "queue d1 = drop n (queue d)" "dl_distinct d1" using prefix by simp_all
  have inv1: "dl_invar d1" using dl_invar_poll_assign [OF assms(1), of clk addr] by (simp add: poll)
  have "pending d1 = set (queue d)" using pending_poll_assign [of clk addr d] assms(3) by (simp add: poll pending_def)
  moreover have "set (queue d1) \<inter> dom (hm_get (inflight d1)) = {}" using d1(2) by (simp add: dl_distinct_def)
  moreover have "set (take n (queue d)) = set (queue d) - set (drop n (queue d))"
  proof -
    have "set (queue d) = set (take n (queue d)) \<union> set (drop n (queue d))" by (metis append_take_drop_id set_append)
    moreover have "distinct (queue d)" using assms(2) by (simp add: dl_distinct_def)
    then have "set (take n (queue d)) \<inter> set (drop n (queue d)) = {}" by (simp add: set_take_disj_set_drop_if_distinct)
    ultimately show ?thesis by blast
  qed
  ultimately have keys: "dom (hm_get (inflight d1)) = set (take n (queue d))"
    unfolding pending_def d1(1) by blast
  have arr: "set (arrival asked) = set (take n (queue d))" "length (arrival asked) = n" "distinct (arrival asked)"
    using assms(2) by (simp_all add: asked iteration_orderD [OF assms(4)] n dl_distinct_def)
  have "dl_windows d1 = dl_windows d" using poll_loop_windows [of clk 0 addr "[]" d] poll by (simp add: poll_assign_def)
  moreover have "downloaded_blocks d1 = downloaded_blocks d"
    using poll_loop_totals [of clk 0 addr "[]" d] poll by (simp add: poll_assign_def)
  moreover note fold_complete [OF inv1 d1(2) arr(3)]
  ultimately show "let d2 = fold complete (arrival asked) d1 in
    dl_invar d2 \<and> dl_distinct d2 \<and> inflight d2 = [] \<and> queue d2 = drop n (queue d) \<and>
    global_window d2 = global_window d \<and> per_peer_window d2 = per_peer_window d \<and>
    downloaded_blocks d2 = downloaded_blocks d + n"
    using inflight_empty [of "fold complete (arrival asked) d1"] by (simp add: keys arr d1(1) dl_windows_def Let_def)
qed

text \<open>The download completes: from a queue with nothing in flight, as many rounds as windows fit
  into the queue, with any peers and any order of arrival, ask for every queued block exactly
  once, in the order of the queue, and leave nothing queued or in flight.\<close>

theorem download_completes:
  assumes "dl_invar d" and "dl_distinct d" and "inflight d = []"
    and "list_all (\<lambda>(clk, addr, arrival). iteration_order arrival) rs"
    and "length (queue d) \<le> length rs * min (global_window d) (per_peer_window d)"
  shows "fst (dl_rounds rs d) = queue d \<and> pending (snd (dl_rounds rs d)) = {} \<and>
    downloaded_blocks (snd (dl_rounds rs d)) = downloaded_blocks d + length (queue d)"
  using assms
proof (induction rs arbitrary: d)
  case Nil
  then show ?case by (simp add: pending_def)
next
  case (Cons r rs)
  obtain clk addr arrival where r: "r = (clk, addr, arrival)" by (cases r) auto
  let ?n = "min (length (queue d)) (min (global_window d) (per_peer_window d))"
  obtain asked d1 where poll: "poll_assign clk addr d = (asked, d1)" by fastforce
  let ?d = "fold complete (arrival asked) d1"
  have arr: "iteration_order arrival" using Cons.prems(4) r by simp
  note step = dl_round_progress [OF Cons.prems(1-3) arr refl poll]
  have "length (queue ?d) \<le> length rs * min (global_window ?d) (per_peer_window ?d)"
    using step(2) Cons.prems(5) by (auto simp: Let_def min_def split: if_splits)
  with Cons.IH [of ?d] step(2) Cons.prems(4)
  have "fst (dl_rounds rs ?d) = drop ?n (queue d) \<and> pending (snd (dl_rounds rs ?d)) = {} \<and>
    downloaded_blocks (snd (dl_rounds rs ?d)) = downloaded_blocks d + ?n + length (drop ?n (queue d))"
    by (simp add: Let_def)
  with step(1) show ?case by (simp add: r poll case_prod_beta)
qed

theorem download_completes_witness:
  "fst (dl_rounds [(\<lambda>_. 0, peer_a, rev), (\<lambda>_. 9, peer_a, \<lambda>hs. hs)] (push_many [1, 2, 3, 4, 5, 6] (downloader_new 16 4))) = [1, 2, 3, 4, 5, 6]"
proof -
  let ?d = "push_many [1, 2, 3, 4, 5, 6] (downloader_new 16 4)"
  have "dl_invar ?d" by (simp add: invar_intros)
  moreover have "dl_distinct ?d" by (simp add: push_many_eq downloader_new_def dl_distinct_def slots_def)
  ultimately show ?thesis
    using download_completes [of ?d "[(\<lambda>_. 0, peer_a, rev), (\<lambda>_. 9, peer_a, \<lambda>hs. hs)]"]
    by (simp add: push_many_eq downloader_new_def iteration_order_rev iteration_order_id)
qed

end
