(* ===== verification/Block_Delivery.thy ===== *)
theory Block_Delivery
  imports Node_Main Download_Progress
begin

text \<open>
  The block download of the peer manager against a peer that answers what it is asked, and
  against peers that fall silent.
\<close>

section \<open>A peer that answers\<close>

text \<open>The blocks of a peer, one message each; every one answers a request that is still open.\<close>

fun deliver :: "(block_hash \<Rightarrow> u8 list) \<Rightarrow> socket_addr \<Rightarrow> (world \<times> block_hash) list \<Rightarrow> peer_manager \<Rightarrow> peer_manager" where
  "deliver raw addr [] m = m"
| "deliver raw addr ((W, h) # ds) m = deliver raw addr ds (on_block W addr h (raw h) m)"

fun all_asked :: "(block_hash \<Rightarrow> u8 list) \<Rightarrow> socket_addr \<Rightarrow> (world \<times> block_hash) list \<Rightarrow> peer_manager \<Rightarrow> bool" where
  "all_asked raw addr [] m = True"
| "all_asked raw addr ((W, h) # ds) m \<longleftrightarrow>
     hm_contains (inflight (pm_downloader m)) h \<and> all_asked raw addr ds (on_block W addr h (raw h) m)"

abbreviation open_blocks :: "downloader \<Rightarrow> nat" where
  "open_blocks d \<equiv> length (queue d) + length (inflight d)"

text \<open>The download is under way: nothing is asked for twice, and something is in flight unless
  nothing is left.\<close>

definition downloading :: "peer_manager \<Rightarrow> bool" where
  "downloading m \<longleftrightarrow> headers_synced m \<and> dl_invar (pm_downloader m) \<and> dl_distinct (pm_downloader m) \<and>
     0 < global_window (pm_downloader m) \<and> 0 < per_peer_window (pm_downloader m)"

definition not_stuck :: "downloader \<Rightarrow> bool" where
  "not_stuck d \<longleftrightarrow> queue d = [] \<or> inflight d \<noteq> []"

lemma poll_assign_effect:
  assumes "dl_invar d" and "dl_distinct d" and "poll_assign ck addr d = (asked, d')"
  shows "dl_invar d'" and "dl_distinct d'" and "pending d' = pending d" and "open_blocks d' = open_blocks d"
    and "global_window d' = global_window d" and "per_peer_window d' = per_peer_window d"
    and "0 < global_window d \<Longrightarrow> 0 < per_peer_window d \<Longrightarrow> not_stuck d'"
proof -
  have wf: "hm_wf (inflight d)" using assms(1) by (simp add: dl_invar_def)
  let ?n = "min (length (queue d)) (min (global_window d - length (inflight d)) (per_peer_window d - hm_count (per_peer d) addr))"
  note prefix = poll_loop_prefix [OF wf assms(2) refl, of ck 0 addr "[]", folded poll_assign_def, unfolded assms(3)]
  have windows: "dl_windows d' = dl_windows d" using poll_loop_windows [of ck 0 addr "[]" d] assms(3) by (simp add: poll_assign_def)
  show "dl_invar d'" using dl_invar_poll_assign [OF assms(1), of ck addr] assms(3) by simp
  show "dl_distinct d'" using prefix by simp
  show "pending d' = pending d" using pending_poll_assign [of ck addr d] assms(3) by simp
  show "open_blocks d' = open_blocks d" using prefix by (auto simp: min_def)
  show w: "global_window d' = global_window d" "per_peer_window d' = per_peer_window d" using windows by (simp_all add: dl_windows_def)
  assume pos: "0 < global_window d" "0 < per_peer_window d"
  show "not_stuck d'"
  proof (cases "inflight d = []")
    case True
    then have "hm_count (per_peer d) addr = 0" using assms(2) by (simp add: dl_distinct_def slots_def)
    with True prefix pos show ?thesis by (cases "queue d") (auto simp: not_stuck_def min_def split: if_splits)
  next
    case False
    with prefix show ?thesis by (auto simp: not_stuck_def)
  qed
qed

lemma pending_complete_exact:
  assumes "dl_distinct d" and "h \<in> dom (hm_get (inflight d))"
  shows "pending (complete h d) = pending d - {h}"
  using assms by (auto simp: pending_def complete_inflight hm_simps dl_distinct_def)

lemma open_blocks_complete:
  assumes "dl_invar d" and "h \<in> dom (hm_get (inflight d))"
  shows "Suc (open_blocks (complete h d)) = open_blocks d"
proof -
  have "hm_wf (inflight d)" using assms(1) by (simp add: dl_invar_def)
  with hm_length_remove assms(2) show ?thesis by (fastforce simp: complete_inflight)
qed

lemma assign_blocks_effect:
  assumes "downloading m"
  shows "downloading (assign_blocks W addr m)" and "not_stuck (pm_downloader (assign_blocks W addr m))"
    and "pending (pm_downloader (assign_blocks W addr m)) = pending (pm_downloader m)"
    and "open_blocks (pm_downloader (assign_blocks W addr m)) = open_blocks (pm_downloader m)"
    and "block_tx (assign_blocks W addr m) = block_tx m"
proof -
  obtain asked d where poll: "poll_assign (clk W) addr (pm_downloader m) = (asked, d)" by fastforce
  have "dl_invar (pm_downloader m)" "dl_distinct (pm_downloader m)" using assms by (simp_all add: downloading_def)
  note eff = poll_assign_effect [OF this poll]
  have d: "pm_downloader (assign_blocks W addr m) = d" by (simp add: assign_blocks_def poll Let_def)
  show "downloading (assign_blocks W addr m)"
    using assms eff by (simp add: downloading_def d)
  show "not_stuck (pm_downloader (assign_blocks W addr m))" using assms eff by (simp add: d downloading_def)
  show "pending (pm_downloader (assign_blocks W addr m)) = pending (pm_downloader m)"
    "open_blocks (pm_downloader (assign_blocks W addr m)) = open_blocks (pm_downloader m)" using eff by (simp_all add: d)
  show "block_tx (assign_blocks W addr m) = block_tx m" by (simp add: assign_blocks_def poll Let_def)
qed

lemma on_block_effect:
  assumes "downloading m" and "hm_contains (inflight (pm_downloader m)) h"
    and m'_def: "m' = on_block W addr h raw m"
  shows "downloading m'" and "not_stuck (pm_downloader m')"
    and "pending (pm_downloader m') = pending (pm_downloader m) - {h}" and "h \<in> pending (pm_downloader m)"
    and "Suc (open_blocks (pm_downloader m')) = open_blocks (pm_downloader m)"
    and "block_tx m' = map_option (\<lambda>sent. sent @ [(h, raw)]) (block_tx m)"
proof -
  let ?m = "m\<lparr>pm_downloader := complete h (pm_downloader m)\<rparr>"
  have h: "h \<in> dom (hm_get (inflight (pm_downloader m)))"
    using assms(2) by (simp add: hm_contains_iff hm_keys_def dom_map_of_conv_image_fst)
  have m': "m' = (assign_blocks W addr ?m)\<lparr>block_tx := map_option (\<lambda>sent. sent @ [(h, raw)]) (block_tx (assign_blocks W addr ?m))\<rparr>"
    using assms(1) by (simp add: m'_def on_block_def downloading_def Let_def)
  have "hm_wf (inflight (pm_downloader m))" using assms(1) by (simp add: downloading_def dl_invar_def)
  with assms(1) have dl: "downloading ?m" by (simp add: downloading_def dl_invar_complete dl_distinct_complete)
  note eff = assign_blocks_effect [OF dl, of W addr]
  show "downloading m'" using eff(1) by (simp add: m' downloading_def)
  show "not_stuck (pm_downloader m')" using eff(2) by (simp add: m')
  show "pending (pm_downloader m') = pending (pm_downloader m) - {h}"
    using eff(3) assms(1) h by (simp add: m' downloading_def pending_complete_exact)
  show "h \<in> pending (pm_downloader m)" using h by (simp add: pending_def)
  show "Suc (open_blocks (pm_downloader m')) = open_blocks (pm_downloader m)"
    using eff(4) assms(1) open_blocks_complete [OF _ h] by (simp add: m' downloading_def)
  show "block_tx m' = map_option (\<lambda>sent. sent @ [(h, raw)]) (block_tx m)" using eff(5) by (simp add: m')
qed

lemma deliver_effect:
  assumes "downloading m" and "not_stuck (pm_downloader m)" and "all_asked raw addr ds m" and "block_tx m = Some sent"
  defines "m' \<equiv> deliver raw addr ds m"
  shows "downloading m' \<and> not_stuck (pm_downloader m') \<and> distinct (map snd ds) \<and> set (map snd ds) \<subseteq> pending (pm_downloader m) \<and>
    pending (pm_downloader m') = pending (pm_downloader m) - set (map snd ds) \<and>
    open_blocks (pm_downloader m') + length ds = open_blocks (pm_downloader m) \<and>
    block_tx m' = Some (sent @ map (\<lambda>(W, h). (h, raw h)) ds)"
  using assms(1-4) unfolding m'_def
proof (induction ds arbitrary: m sent)
  case (Cons x ds)
  obtain W h where x: "x = (W, h)" by (cases x)
  let ?m = "on_block W addr h (raw h) m"
  have h: "hm_contains (inflight (pm_downloader m)) h" "all_asked raw addr ds ?m" using Cons.prems(3) by (simp_all add: x)
  have m: "downloading ?m" "not_stuck (pm_downloader ?m)" "pending (pm_downloader ?m) = pending (pm_downloader m) - {h}"
    "Suc (open_blocks (pm_downloader ?m)) = open_blocks (pm_downloader m)" "block_tx ?m = Some (sent @ [(h, raw h)])"
    and mem: "h \<in> pending (pm_downloader m)"
    using on_block_effect [OF Cons.prems(1) h(1) refl] Cons.prems(4) by simp_all
  note IH = Cons.IH [OF m(1,2) h(2) m(5)]
  have sub: "set (map snd ds) \<subseteq> pending (pm_downloader m) - {h}" using IH by (simp add: m(3))
  then have "h \<notin> set (map snd ds)" by blast
  moreover have "pending (pm_downloader m) - {h} - set (map snd ds) = pending (pm_downloader m) - insert h (set (map snd ds))" by blast
  moreover have "open_blocks (pm_downloader (deliver raw addr ds ?m)) + Suc (length ds) = open_blocks (pm_downloader m)"
    using IH m(4) by linarith
  ultimately show ?case using IH m(3) mem sub by (simp add: x) blast
qed simp

text \<open>The end of header sync puts the missing blocks into an idle downloader.\<close>

lemma downloading_after_sync:
  assumes "pm_invar H True m" and "\<not> headers_synced m" and "headers_synced (check_headers_sync_complete m)"
  defines "missing \<equiv> drop (skip_count (pm_start_height m)) (recent_chain m)"
  shows "downloading (check_headers_sync_complete m)"
    and "pending (pm_downloader (check_headers_sync_complete m)) = set missing"
    and "open_blocks (pm_downloader (check_headers_sync_complete m)) = length missing"
    and "block_tx (check_headers_sync_complete m) = block_tx m"
proof -
  let ?d = "pm_downloader m" and ?m = "check_headers_sync_complete m"
  have idle: "pending ?d = {}" "\<And>a. hm_count (per_peer ?d) a = 0" and dl: "dl_invar ?d" "dl_windows ?d = (16, 4)"
    and chain: "distinct (recent_chain m)"
    using assms(1,2)
    by (simp_all add: pm_invar_def headers_first_def download_ok_def chain_checked_def global_inflight_def per_peer_inflight_def)
  have fl: "inflight ?d = []" "queue ?d = []"
    using idle(1) inflight_empty [of ?d] by (simp_all add: pending_def)
  have d: "pm_downloader ?m = push_many missing ?d \<and> block_tx ?m = block_tx m"
    using assms(2,3) by (auto simp: check_headers_sync_complete_def queue_blocks_from_headers_def Let_def missing_def push_many_eq split: if_splits)
  have "dl_distinct ?d" by (simp add: dl_distinct_def fl idle(2) slots_def)
  moreover have "distinct missing" using chain by (simp add: missing_def)
  ultimately have "dl_distinct (push_many missing ?d)" using idle(1) by (simp add: dl_distinct_push_many)
  then show "downloading ?m"
    using dl assms(3) by (simp add: downloading_def d dl_invar_push_many) (simp add: push_many_eq dl_windows_def)
  show "pending (pm_downloader ?m) = set missing" "open_blocks (pm_downloader ?m) = length missing" "block_tx ?m = block_tx m"
    using d fl by (simp_all add: push_many_eq pending_def)
qed



section \<open>Peers that fall silent\<close>

text \<open>A tick in which every receive times out.\<close>

definition silent :: "tick \<Rightarrow> bool" where
  "silent T \<longleftrightarrow> t_recv T = (\<lambda>_. TimedOut)"

lemma poll_peers_silent: "poll_peers H (\<lambda>_. TimedOut) W addrs st = Some st"
  by (induction addrs) (auto simp: poll_peer_def split: prod.splits)

text \<open>After header sync a timed-out block goes back to the queue, but it is assigned only when
  a message of some peer arrives or a peer connects: while the connected peers are silent no
  request is sent, however many deadlines pass.\<close>

lemma silent_peers_asked_nothing:
  assumes "headers_synced m" and "peers m \<noteq> []" and "list_all silent Ts"
  shows "\<exists>d. event_loop H Ts (m, ts) = Some (m\<lparr>pm_downloader := d\<rparr>, ts)"
  using assms
proof (induction Ts arbitrary: m)
  case Nil
  show ?case by (rule exI [of _ "pm_downloader m"]) simp
next
  case (Cons T Ts)
  let ?m = "m\<lparr>pm_downloader := requeue_timeouts (t_timeout_order T) (t_timeout_now T) (pm_downloader m)\<rparr>"
  have "event_iteration H T (m, ts) = Some (?m, ts)"
    using Cons.prems by (simp add: event_iteration_def boot_if_empty_def silent_def poll_peers_silent periodic_request_def stall_check_def)
  with Cons.IH [of ?m] Cons.prems show ?case by simp
qed

end
