(* ===== verification/P2P_Modules.thy ===== *)
theory P2P_Modules
  imports Inventory Peer_Handshake
begin

unbundle bit_operations_syntax

text \<open>
  The newer peer-to-peer modules: message types (\<^verbatim>\<open>src/p2p/messages.rs\<close>), the framing
  of messages on a stream (\<open>send\<close> and \<open>recv\<close> of \<^verbatim>\<open>src/p2p/peer.rs\<close>, the same code as in
  \<^verbatim>\<open>src/p2p/legacy.rs\<close>) and the manager of \<^verbatim>\<open>src/p2p/manager.rs\<close>.  The bitcoin
  crate's serialization is an argument; \<open>add_peer\<close> waits for a connection between its
  check and its insertion, so it is two steps with others in between.
\<close>

section \<open>Message types\<close>

datatype inventory_type =
  IT_Error | IT_Tx | IT_Block | IT_FilteredBlock | IT_CompactBlock | IT_WitnessTx | IT_WitnessBlock

fun inventory_type_to_u32 :: "inventory_type \<Rightarrow> u32" where
  "inventory_type_to_u32 IT_Error = 0"
| "inventory_type_to_u32 IT_Tx = 1"
| "inventory_type_to_u32 IT_Block = 2"
| "inventory_type_to_u32 IT_FilteredBlock = 3"
| "inventory_type_to_u32 IT_CompactBlock = 4"
| "inventory_type_to_u32 IT_WitnessTx = 0x40000001"
| "inventory_type_to_u32 IT_WitnessBlock = 0x40000002"

text \<open>\<open>Inventory\<close> of the bitcoin crate.\<close>

datatype wire_inventory =
  WI_Error | WI_Transaction "256 word" | WI_Block block_hash | WI_CompactBlock block_hash
| WI_WTx "256 word" | WI_WitnessTransaction "256 word" | WI_WitnessBlock block_hash | WI_Unknown u32 "u8 list"

fun from_inventory :: "wire_inventory \<Rightarrow> inventory_type" where
  "from_inventory WI_Error = IT_Error"
| "from_inventory (WI_Transaction _) = IT_Tx"
| "from_inventory (WI_Block _) = IT_Block"
| "from_inventory (WI_CompactBlock _) = IT_CompactBlock"
| "from_inventory (WI_WitnessTransaction _) = IT_WitnessTx"
| "from_inventory (WI_WitnessBlock _) = IT_WitnessBlock"
| "from_inventory _ = IT_Error"

datatype p2p_message =
  P_Version i32 u64 i64 string i32
| P_Verack
| P_Ping u64
| P_Pong u64
| P_Inv "wire_inventory list"
| P_GetData "wire_inventory list"
| P_NotFound "wire_inventory list"
| P_Tx transaction
| P_Block "u8 list"
| P_GetHeaders u32 "block_hash list" block_hash
| P_Headers "block_header list"
| P_GetBlocks u32 "block_hash list" block_hash
| P_GetAddr
| P_Addr "(u32 \<times> net_address) list"
| P_SendHeaders
| P_FeeFilter u64
| P_SendCmpct bool u64
| P_MemPool
| P_Reject string u8 string "u8 list"

fun command_name :: "p2p_message \<Rightarrow> string" where
  "command_name (P_Version _ _ _ _ _) = ''version''"
| "command_name P_Verack = ''verack''"
| "command_name (P_Ping _) = ''ping''"
| "command_name (P_Pong _) = ''pong''"
| "command_name (P_Inv _) = ''inv''"
| "command_name (P_GetData _) = ''getdata''"
| "command_name (P_NotFound _) = ''notfound''"
| "command_name (P_Tx _) = ''tx''"
| "command_name (P_Block _) = ''block''"
| "command_name (P_GetHeaders _ _ _) = ''getheaders''"
| "command_name (P_Headers _) = ''headers''"
| "command_name (P_GetBlocks _ _ _) = ''getblocks''"
| "command_name P_GetAddr = ''getaddr''"
| "command_name (P_Addr _) = ''addr''"
| "command_name P_SendHeaders = ''sendheaders''"
| "command_name (P_FeeFilter _) = ''feefilter''"
| "command_name (P_SendCmpct _ _) = ''sendcmpct''"
| "command_name P_MemPool = ''mempool''"
| "command_name (P_Reject _ _ _ _) = ''reject''"

text \<open>A command name fits the twelve bytes of the wire format.\<close>

lemma command_name_fits: "command_name m \<noteq> [] \<and> length (command_name m) \<le> 12"
  by (cases m) simp_all

text \<open>The two tables of inventory codes agree.\<close>

lemma inventory_codes_agree:
  "from_u32 (inventory_type_to_u32 t) = None \<longleftrightarrow> t = IT_Error"
  "from_u32 (inventory_type_to_u32 t) = Some t' \<Longrightarrow> to_u32 t' = inventory_type_to_u32 t"
  by (cases t; simp add: from_u32_def) (cases t; auto simp: from_u32_def)

section \<open>Framing\<close>

record 'm wire_api =
  serialize_raw :: "u32 \<Rightarrow> 'm \<Rightarrow> u8 list"
  deserialize_raw :: "u8 list \<Rightarrow> (u32 \<times> 'm) option"

datatype recv_error = UnexpectedEof | DecodeError

definition le_u32 :: "u8 list \<Rightarrow> u32" where
  "le_u32 bs = foldr (\<lambda>b v. push_bit 8 v OR ucast b) bs 0"

definition stream_send :: "'m wire_api \<Rightarrow> u32 \<Rightarrow> 'm \<Rightarrow> u8 list \<Rightarrow> u8 list" where
  "stream_send W magic msg stream = stream @ serialize_raw W magic msg"

text \<open>What is left of the stream is returned with what was read.\<close>

definition read_exact :: "nat \<Rightarrow> u8 list \<Rightarrow> recv_error + u8 list \<times> u8 list" where
  "read_exact n stream = (if length stream < n then Inl UnexpectedEof else Inr (take n stream, drop n stream))"

definition stream_recv :: "'m wire_api \<Rightarrow> u8 list \<Rightarrow> recv_error + 'm \<times> u8 list" where
  "stream_recv W stream =
     (case read_exact 24 stream of
        Inl e \<Rightarrow> Inl e
      | Inr (header, rest) \<Rightarrow>
          let len = unat (le_u32 (take 4 (drop 16 header)))
          in case (if len > 0 then read_exact len rest else Inr ([], rest)) of
               Inl e \<Rightarrow> Inl e
             | Inr (payload, rest') \<Rightarrow>
                 (case deserialize_raw W (header @ payload) of
                    None \<Rightarrow> Inl DecodeError
                  | Some (_, msg) \<Rightarrow> Inr (msg, rest')))"

text \<open>The older peer reads an empty payload like any other.\<close>

definition legacy_recv :: "'m wire_api \<Rightarrow> u8 list \<Rightarrow> recv_error + 'm \<times> u8 list" where
  "legacy_recv W stream =
     (case read_exact 24 stream of
        Inl e \<Rightarrow> Inl e
      | Inr (header, rest) \<Rightarrow>
          let len = unat (le_u32 (take 4 (drop 16 header)))
          in case read_exact len rest of
               Inl e \<Rightarrow> Inl e
             | Inr (payload, rest') \<Rightarrow>
                 (case deserialize_raw W (header @ payload) of
                    None \<Rightarrow> Inl DecodeError
                  | Some (_, msg) \<Rightarrow> Inr (msg, rest')))"

lemma legacy_recv_same: "legacy_recv W = stream_recv W"
  by (rule ext) (simp add: legacy_recv_def stream_recv_def read_exact_def Let_def)

fun recv_many :: "'m wire_api \<Rightarrow> nat \<Rightarrow> u8 list \<Rightarrow> recv_error + 'm list \<times> u8 list" where
  "recv_many W 0 stream = Inr ([], stream)"
| "recv_many W (Suc n) stream =
     (case stream_recv W stream of
        Inl e \<Rightarrow> Inl e
      | Inr (msg, rest) \<Rightarrow>
          (case recv_many W n rest of Inl e \<Rightarrow> Inl e | Inr (msgs, rest') \<Rightarrow> Inr (msg # msgs, rest')))"

text \<open>The wire format the bitcoin crate documents: a header of 24 bytes whose bytes 16 to 19 are
  the length of the payload, and decoding inverts encoding.\<close>

definition wire_codec :: "'m wire_api \<Rightarrow> bool" where
  "wire_codec W \<longleftrightarrow>
     (\<forall>magic msg. 24 \<le> length (serialize_raw W magic msg) \<and>
        unat (le_u32 (take 4 (drop 16 (serialize_raw W magic msg)))) = length (serialize_raw W magic msg) - 24 \<and>
        deserialize_raw W (serialize_raw W magic msg) = Some (magic, msg))"

lemma stream_recv_sent:
  assumes "wire_codec W"
  shows "stream_recv W (serialize_raw W magic msg @ rest) = Inr (msg, rest)"
proof -
  let ?s = "serialize_raw W magic msg"
  have s: "24 \<le> length ?s" "unat (le_u32 (take 4 (drop 16 ?s))) = length ?s - 24" "deserialize_raw W ?s = Some (magic, msg)"
    using assms by (auto simp: wire_codec_def)
  have "take 4 (drop 16 (take 24 (?s @ rest))) = take 4 (drop 16 ?s)" using s(1) by (simp add: drop_take)
  with s show ?thesis by (simp add: stream_recv_def read_exact_def Let_def) linarith
qed

text \<open>C28. What a peer sends another receives: messages written to a stream one after the other are
  read back in order, each exactly once, and reading stops at the bytes that follow.\<close>

theorem stream_roundtrip:
  assumes "wire_codec W"
  shows "recv_many W (length msgs) (fold (stream_send W magic) msgs [] @ rest) = Inr (msgs, rest)"
proof -
  have "fold (stream_send W magic) msgs s = s @ concat (map (serialize_raw W magic) msgs)" for s
    by (induction msgs arbitrary: s) (auto simp: stream_send_def)
  moreover have "recv_many W (length msgs) (concat (map (serialize_raw W magic) msgs) @ rest) = Inr (msgs, rest)"
    by (induction msgs) (auto simp: stream_recv_sent [OF assms])
  ultimately show ?thesis by simp
qed

text \<open>A concrete codec: messages of one byte.\<close>

definition le_bytes :: "u32 \<Rightarrow> u8 list" where
  "le_bytes v = [ucast v, ucast (drop_bit 8 v), ucast (drop_bit 16 v), ucast (drop_bit 24 v)]"

lemma le_u32_le_bytes: "le_u32 (le_bytes v) = v"
proof (rule bit_word_eqI)
  fix n
  assume "n < LENGTH(32)"
  then consider "n < 8" | "8 \<le> n" "n < 16" | "16 \<le> n" "n < 24" | "24 \<le> n" "n < 32" by fastforce
  then show "bit (le_u32 (le_bytes v)) n = bit v n"
    by cases (auto simp: le_u32_def le_bytes_def bit_simps)
qed

definition byte_wire :: "u8 wire_api" where
  "byte_wire = \<lparr>serialize_raw = (\<lambda>magic b. le_bytes magic @ replicate 12 0 @ le_bytes 1 @ replicate 4 0 @ [b]),
     deserialize_raw = (\<lambda>bs. if length bs = 25 then Some (le_u32 (take 4 bs), bs ! 24) else None)\<rparr>"

lemma byte_wire_codec: "wire_codec byte_wire"
proof -
  have "length (le_bytes v) = 4" for v by (simp add: le_bytes_def)
  then show ?thesis by (simp add: wire_codec_def byte_wire_def le_u32_le_bytes nth_append)
qed

theorem stream_roundtrip_witness:
  "recv_many byte_wire 2 (fold (stream_send byte_wire 0xD9B4BEF9) [5, 6] [] @ [1]) = Inr ([5, 6], [1])"
  using stream_roundtrip [OF byte_wire_codec, of "[5, 6]" "0xD9B4BEF9" "[1]"] by (simp add: numeral_2_eq_2)

text \<open>A message of another network is accepted: the magic is never compared.\<close>

lemma foreign_magic_accepted:
  assumes "wire_codec W" and "other \<noteq> magic"
  shows "recv_many W 2 (stream_send W other a (stream_send W magic b [])) = Inr ([b, a], [])"
  using stream_recv_sent [OF assms(1), of other a "[]"] stream_recv_sent [OF assms(1), of magic b]
  by (simp add: stream_send_def numeral_2_eq_2)

text \<open>The length in the header is trusted up to 4 GiB: with it set to the maximum no message is
  decoded before that many bytes have arrived.\<close>

lemma huge_payload_awaited:
  assumes "length body < 2 ^ 32 - 1"
  shows "stream_recv W (replicate 16 0 @ le_bytes 0xFFFFFFFF @ replicate 4 0 @ body) = Inl UnexpectedEof"
proof -
  have "length (le_bytes 0xFFFFFFFF) = 4" by (simp add: le_bytes_def)
  then show ?thesis using assms by (simp add: stream_recv_def read_exact_def Let_def le_u32_le_bytes)
qed

section \<open>The manager\<close>

datatype peer_state = Connecting | Handshaking | Connected | Disconnected

record p2p_peer =
  pp_network :: network
  pp_magic :: u32
  pp_addr :: socket_addr
  pp_services :: u64
  pp_version :: i32
  pp_user_agent :: string
  pp_start_height :: i32
  pp_state :: peer_state
  pp_last_ping :: "u64 option"
  pp_last_ping_time :: "instant option"
  pp_sendheaders :: bool
  pp_witness :: bool
  pp_fee_filter :: "u64 option"

text \<open>\<open>magic_of\<close> is the bitcoin crate's \<open>Network::magic\<close>.\<close>

definition p2p_peer_connect :: "(network \<Rightarrow> u32) \<Rightarrow> socket_addr \<Rightarrow> network \<Rightarrow> p2p_peer" where
  "p2p_peer_connect magic_of addr net =
     \<lparr>pp_network = net, pp_magic = magic_of net, pp_addr = addr, pp_services = 0, pp_version = 0, pp_user_agent = [], pp_start_height = 0,
      pp_state = Connecting, pp_last_ping = None, pp_last_ping_time = None, pp_sendheaders = False, pp_witness = False,
      pp_fee_filter = None\<rparr>"

definition is_connected :: "p2p_peer \<Rightarrow> bool" where
  "is_connected p \<longleftrightarrow> pp_state p = Connected"

definition supports_witness :: "p2p_peer \<Rightarrow> bool" where
  "supports_witness p \<longleftrightarrow> pp_witness p"

text \<open>\<open>dialling\<close> holds the calls of \<open>add_peer\<close> that wait for their connection.\<close>

record p2p_manager =
  p2p_network :: network
  p2p_peers :: "(socket_addr, p2p_peer) hmap"
  p2p_inventory :: inventory_manager
  p2p_user_agent :: string
  p2p_block_height :: i32
  max_peers :: nat
  dialling :: "socket_addr list"

definition p2p_manager_new :: "network \<Rightarrow> string \<Rightarrow> p2p_manager" where
  "p2p_manager_new net ua =
     \<lparr>p2p_network = net, p2p_peers = [], p2p_inventory = inventory_new, p2p_user_agent = ua, p2p_block_height = 0, max_peers = 125, dialling = []\<rparr>"

definition add_peer_check :: "socket_addr \<Rightarrow> p2p_manager \<Rightarrow> p2p_manager" where
  "add_peer_check addr m =
     (if length (p2p_peers m) \<ge> max_peers m then m else m\<lparr>dialling := dialling m @ [addr]\<rparr>)"

definition add_peer_finish :: "(network \<Rightarrow> u32) \<Rightarrow> socket_addr \<Rightarrow> bool \<Rightarrow> p2p_manager \<Rightarrow> p2p_manager" where
  "add_peer_finish magic_of addr connected m =
     (if addr \<in> set (dialling m)
      then let m = m\<lparr>dialling := remove1 addr (dialling m)\<rparr>
           in if connected then m\<lparr>p2p_peers := hm_insert addr (p2p_peer_connect magic_of addr (p2p_network m)) (p2p_peers m)\<rparr> else m
      else m)"

definition remove_peer :: "socket_addr \<Rightarrow> p2p_manager \<Rightarrow> p2p_manager" where
  "remove_peer addr m = m\<lparr>p2p_peers := hm_remove addr (p2p_peers m)\<rparr>"

definition peer_count :: "p2p_manager \<Rightarrow> nat" where
  "peer_count m = length (p2p_peers m)"

text \<open>The two announcements are stubs in the source.\<close>

definition announce_tx :: "256 word \<Rightarrow> p2p_manager \<Rightarrow> p2p_manager" where
  "announce_tx t m = m"

definition announce_block :: "block_hash \<Rightarrow> p2p_manager \<Rightarrow> p2p_manager" where
  "announce_block h m = m"

definition request_tx :: "256 word \<Rightarrow> p2p_manager \<Rightarrow> p2p_manager" where
  "request_tx t m = m\<lparr>p2p_inventory := want (InvTx t) (p2p_inventory m)\<rparr>"

definition request_block :: "block_hash \<Rightarrow> p2p_manager \<Rightarrow> p2p_manager" where
  "request_block h m = m\<lparr>p2p_inventory := want (InvBlock h) (p2p_inventory m)\<rparr>"

definition mark_tx_received :: "256 word \<Rightarrow> p2p_manager \<Rightarrow> p2p_manager" where
  "mark_tx_received t m = m\<lparr>p2p_inventory := mark_received (InvTx t) (p2p_inventory m)\<rparr>"

definition mark_block_received :: "block_hash \<Rightarrow> p2p_manager \<Rightarrow> p2p_manager" where
  "mark_block_received h m = m\<lparr>p2p_inventory := mark_received (InvBlock h) (p2p_inventory m)\<rparr>"

definition update_block_height :: "i32 \<Rightarrow> p2p_manager \<Rightarrow> p2p_manager" where
  "update_block_height h m = m\<lparr>p2p_block_height := h\<rparr>"

definition get_block_height :: "p2p_manager \<Rightarrow> i32" where
  "get_block_height m = p2p_block_height m"

definition get_inventory_stats :: "p2p_manager \<Rightarrow> nat \<times> nat" where
  "get_inventory_stats m = (wanted_count (p2p_inventory m), in_flight_count (p2p_inventory m))"

inductive p2p_step :: "p2p_manager \<Rightarrow> p2p_manager \<Rightarrow> bool" where
  check: "p2p_step m (add_peer_check addr m)"
| finish: "p2p_step m (add_peer_finish magic_of addr connected m)"
| remove: "p2p_step m (remove_peer addr m)"
| announced_tx: "p2p_step m (announce_tx t m)"
| announced_block: "p2p_step m (announce_block h m)"
| tx: "p2p_step m (request_tx t m)"
| block: "p2p_step m (request_block h m)"
| tx_received: "p2p_step m (mark_tx_received t m)"
| block_received: "p2p_step m (mark_block_received h m)"
| new_height: "p2p_step m (update_block_height n m)"

text \<open>The runs in which at most \<open>c\<close> calls of \<open>add_peer\<close> are under way at any moment.\<close>

inductive p2p_reachable :: "nat \<Rightarrow> network \<Rightarrow> p2p_manager \<Rightarrow> bool" for c net where
  start: "p2p_reachable c net (p2p_manager_new net ua)"
| step: "p2p_reachable c net m \<Longrightarrow> p2p_step m m' \<Longrightarrow> length (dialling m') \<le> c \<Longrightarrow> p2p_reachable c net m'"

inductive_cases p2p_stepE: "p2p_step m m'"

lemma p2p_step_invar:
  assumes "p2p_step m m'" and "length (dialling m') \<le> c"
    and "hm_wf (p2p_peers m)" "max_peers m = 125" "length (p2p_peers m) + length (dialling m) \<le> 124 + c" "inv_invar (p2p_inventory m)"
  shows "hm_wf (p2p_peers m') \<and> max_peers m' = 125 \<and> length (p2p_peers m') + length (dialling m') \<le> 124 + c \<and>
    inv_invar (p2p_inventory m')"
  using assms(1)
proof cases
  case (check addr)
  with assms(2-) show ?thesis by (simp add: add_peer_check_def split: if_splits)
next
  case (finish magic_of addr connected)
  have "length (hm_insert addr p ps) \<le> Suc (length ps)" for p and ps :: "(socket_addr, p2p_peer) hmap"
    by (induction ps) auto
  from this [of "p2p_peer_connect magic_of addr (p2p_network m)" "p2p_peers m"]
  have "addr \<in> set (dialling m) \<Longrightarrow> length (hm_insert addr (p2p_peer_connect magic_of addr (p2p_network m)) (p2p_peers m)) +
      (length (dialling m) - Suc 0) \<le> length (p2p_peers m) + length (dialling m)"
    by (cases "dialling m") auto
  with finish assms(2-) show ?thesis
    by (auto simp: add_peer_finish_def Let_def hm_wf_insert length_remove1)
next
  case (remove addr)
  have "length (hm_remove addr (p2p_peers m)) \<le> length (p2p_peers m)" by (simp add: hm_remove_def)
  with remove assms(2-) show ?thesis by (simp add: remove_peer_def hm_wf_remove)
qed (use assms(2-) in \<open>simp_all add: announce_tx_def announce_block_def request_tx_def request_block_def mark_tx_received_def mark_block_received_def
  update_block_height_def invar_intros\<close>)

lemma p2p_reachable_invar:
  assumes "p2p_reachable c net m" and "1 \<le> c"
  shows "hm_wf (p2p_peers m) \<and> max_peers m = 125 \<and> length (p2p_peers m) + length (dialling m) \<le> 124 + c \<and> inv_invar (p2p_inventory m)"
  using assms(1)
proof induction
  case start
  with assms(2) show ?case by (simp add: p2p_manager_new_def inv_invar_new)
next
  case (step m m')
  with p2p_step_invar [OF step.hyps(2,3)] show ?case by simp
qed

text \<open>C31. The limit of 125 peers under concurrency: if at most \<open>c\<close> calls of \<open>add_peer\<close> are under way
  at any moment there are never more than \<open>124 + c\<close> peers, so 125 when the calls do not overlap; and
  the inventory never counts an item as both held and wanted.\<close>

theorem peer_limit_concurrent:
  assumes "p2p_reachable c net m" and "1 \<le> c"
  shows "peer_count m \<le> 124 + c \<and> set (wanted (p2p_inventory m)) \<inter> set (have_items (p2p_inventory m)) = {}"
  using p2p_reachable_invar [OF assms] by (simp add: peer_count_def inv_invar_def)

theorem peer_limit_concurrent_witness:
  "peer_count (add_peer_finish (\<lambda>_. 0xDAB5BFFA) (SocketAddrV4 1 8333) True (add_peer_check (SocketAddrV4 1 8333) (p2p_manager_new Regtest []))) \<le> 125"
proof -
  let ?m = "add_peer_check (SocketAddrV4 1 8333) (p2p_manager_new Regtest [])"
  have "p2p_reachable 1 Regtest ?m"
    by (rule step [OF start check]) (simp add: add_peer_check_def p2p_manager_new_def)
  then have "p2p_reachable 1 Regtest (add_peer_finish (\<lambda>_. 0xDAB5BFFA) (SocketAddrV4 1 8333) True ?m)"
    by (rule step [OF _ finish]) (simp add: add_peer_finish_def add_peer_check_def p2p_manager_new_def)
  from peer_limit_concurrent [OF this] show ?thesis by simp
qed

text \<open>Two overlapping calls one short of the limit both pass the check and exceed it.\<close>

lemma overlapping_calls_exceed_limit:
  assumes "length (p2p_peers m) = 124" and "max_peers m = 125" and "dialling m = []"
    and "hm_get (p2p_peers m) a = None" and "hm_get (p2p_peers m) b = None" and "a \<noteq> b"
  shows "peer_count (add_peer_finish magic_of b True (add_peer_finish magic_of a True (add_peer_check b (add_peer_check a m)))) = 126"
  using assms by (simp add: peer_count_def add_peer_check_def add_peer_finish_def hm_insert_fresh)

end
