(* ===== verification/Conn_Man.thy ===== *)
theory Conn_Man
  imports Net_Types
begin

text \<open>
  The connection manager of \<^verbatim>\<open>src/network/connman.rs\<close>.  The node type it imports is not
  part of the source (its module is disabled), so the protocol state of a node is a
  type parameter \<open>'n\<close> and its operations are the record \<open>node_api\<close>; the manager itself
  uses a node's id, address and direction.

  \<open>busy\<close> says which node locks are held when an operation tries them with \<open>try_read\<close>
  or \<open>try_write\<close>; \<open>now\<close> is \<open>Utc::now().timestamp()\<close>; \<open>dial_ok\<close> the outcome of a TCP
  connection.  \<open>node_finished\<close> is the end of the task that serves a node.
\<close>

type_synonym node_id = u64

record connection_config =
  cc_network :: network
  max_outbound :: nat
  max_inbound :: nat
  cc_user_agent :: string
  protocol_version :: i32
  cc_services :: u64

definition connection_config_default :: connection_config where
  "connection_config_default =
     \<lparr>cc_network = Bitcoin, max_outbound = 8, max_inbound = 125, cc_user_agent = ''/btck-rust-node:0.1.0/'',
      protocol_version = 70016, cc_services = 0x0409\<rparr>"

record ban_entry =
  banned_until :: i64
  ban_created :: i64
  ban_reason :: string

record network_stats =
  total_bytes_recv :: u64
  total_bytes_sent :: u64
  start_time :: "instant option"

record 'n conn_node =
  node_id :: node_id
  node_addr :: socket_addr
  inbound :: bool
  node_state :: 'n

record 'n connman =
  cm_config :: connection_config
  nodes :: "(node_id, 'n conn_node) hmap"
  next_id :: node_id
  added_nodes :: "socket_addr list"
  banned :: "(string, ban_entry) hmap"
  network_active :: bool
  net_stats :: network_stats

datatype conn_error = NodeBanned socket_addr | DialFailed | InboundLimit

definition connman_new :: "instant \<Rightarrow> connection_config \<Rightarrow> 'n connman" where
  "connman_new started config =
     \<lparr>cm_config = config, nodes = [], next_id = 0, added_nodes = [], banned = [], network_active = True,
      net_stats = \<lparr>total_bytes_recv = 0, total_bytes_sent = 0, start_time = Some started\<rparr>\<rparr>"

definition next_node_id :: "'n connman \<Rightarrow> node_id \<times> 'n connman" where
  "next_node_id m = (next_id m, m\<lparr>next_id := next_id m + 1\<rparr>)"

section \<open>Bans\<close>

definition ban_node :: "i64 \<Rightarrow> string \<Rightarrow> i64 \<Rightarrow> bool \<Rightarrow> 'n connman \<Rightarrow> 'n connman" where
  "ban_node now subnet bantime absolute m =
     m\<lparr>banned := hm_insert subnet
         \<lparr>banned_until = (if absolute then bantime else now + bantime), ban_created = now, ban_reason = ''manually added''\<rparr>
         (banned m)\<rparr>"

definition unban_node :: "string \<Rightarrow> 'n connman \<Rightarrow> 'n connman" where
  "unban_node subnet m = m\<lparr>banned := hm_remove subnet (banned m)\<rparr>"

definition clear_banned :: "'n connman \<Rightarrow> 'n connman" where
  "clear_banned m = m\<lparr>banned := []\<rparr>"

definition is_banned :: "i64 \<Rightarrow> socket_addr \<Rightarrow> 'n connman \<Rightarrow> bool" where
  "is_banned now addr m \<longleftrightarrow> list_ex (\<lambda>entry. sint (banned_until entry) > sint now) (hm_values (banned m))"

record banned_node =
  bn_address :: string
  bn_banned_until :: i64
  bn_ban_created :: i64
  bn_ban_reason :: string

definition get_banned_list :: "((string \<times> ban_entry) list \<Rightarrow> (string \<times> ban_entry) list) \<Rightarrow> 'n connman \<Rightarrow> banned_node list" where
  "get_banned_list ord m =
     map (\<lambda>(addr, entry). \<lparr>bn_address = addr, bn_banned_until = banned_until entry, bn_ban_created = ban_created entry,
       bn_ban_reason = ban_reason entry\<rparr>) (ord (banned m))"

section \<open>Connections\<close>

definition register_node :: "'n \<Rightarrow> socket_addr \<Rightarrow> bool \<Rightarrow> 'n connman \<Rightarrow> node_id \<times> 'n connman" where
  "register_node fresh addr inb m =
     (let (i, m) = next_node_id m
      in (i, m\<lparr>nodes := hm_insert i \<lparr>node_id = i, node_addr = addr, inbound = inb, node_state = fresh\<rparr> (nodes m)\<rparr>))"

definition conn_connect ::
  "('n conn_node list \<Rightarrow> 'n conn_node list) \<Rightarrow> 'n \<Rightarrow> i64 \<Rightarrow> bool \<Rightarrow> socket_addr \<Rightarrow> 'n connman \<Rightarrow>
   (conn_error + node_id) \<times> 'n connman" where
  "conn_connect ord fresh now dial_ok addr m =
     (case List.find (\<lambda>n. node_addr n = addr) (ord (hm_values (nodes m))) of
        Some n \<Rightarrow> (Inr (node_id n), m)
      | None \<Rightarrow>
          if is_banned now addr m then (Inl (NodeBanned addr), m)
          else if \<not> dial_ok then (Inl DialFailed, m)
          else let (i, m) = register_node fresh addr False m in (Inr i, m))"

definition inbound_count :: "(node_id \<Rightarrow> bool) \<Rightarrow> 'n connman \<Rightarrow> nat" where
  "inbound_count busy m = length (filter (\<lambda>n. \<not> busy (node_id n) \<and> inbound n) (hm_values (nodes m)))"

definition conn_accept ::
  "'n \<Rightarrow> i64 \<Rightarrow> (node_id \<Rightarrow> bool) \<Rightarrow> socket_addr \<Rightarrow> 'n connman \<Rightarrow> (conn_error + node_id) \<times> 'n connman" where
  "conn_accept fresh now busy addr m =
     (if is_banned now addr m then (Inl (NodeBanned addr), m)
      else if inbound_count busy m \<ge> max_inbound (cm_config m) then (Inl InboundLimit, m)
      else let (i, m) = register_node fresh addr True m in (Inr i, m))"

definition disconnect_node :: "node_id \<Rightarrow> 'n connman \<Rightarrow> 'n connman" where
  "disconnect_node i m = m\<lparr>nodes := hm_remove i (nodes m)\<rparr>"

definition node_finished :: "node_id \<Rightarrow> 'n connman \<Rightarrow> 'n connman" where
  "node_finished i m = m\<lparr>nodes := hm_remove i (nodes m)\<rparr>"

definition disconnect_by_address :: "(node_id \<Rightarrow> bool) \<Rightarrow> socket_addr \<Rightarrow> 'n connman \<Rightarrow> 'n connman" where
  "disconnect_by_address busy addr m =
     fold disconnect_node
       (List.map_filter (\<lambda>(i, n). if \<not> busy i then (if node_addr n = addr then Some i else None) else None) (nodes m)) m"

text \<open>\<open>try_read\<close> on the table of nodes itself.\<close>

definition num_connections :: "bool \<Rightarrow> 'n connman \<Rightarrow> nat" where
  "num_connections table_busy m = (if \<not> table_busy then length (nodes m) else 0)"

definition get_peer_info :: "('n conn_node \<Rightarrow> 'i) \<Rightarrow> (node_id \<Rightarrow> bool) \<Rightarrow> 'n connman \<Rightarrow> 'i list" where
  "get_peer_info info busy m = map info (filter (\<lambda>n. \<not> busy (node_id n)) (hm_values (nodes m)))"

section \<open>Added nodes\<close>

definition add_node ::
  "('n conn_node list \<Rightarrow> 'n conn_node list) \<Rightarrow> 'n \<Rightarrow> i64 \<Rightarrow> bool \<Rightarrow> socket_addr \<Rightarrow> 'n connman \<Rightarrow>
   (conn_error + unit) \<times> 'n connman" where
  "add_node ord fresh now dial_ok addr m =
     (case conn_connect ord fresh now dial_ok addr (m\<lparr>added_nodes := added_nodes m @ [addr]\<rparr>) of
        (Inl e, m) \<Rightarrow> (Inl e, m)
      | (Inr _, m) \<Rightarrow> (Inr (), m))"

definition remove_node :: "(node_id \<Rightarrow> bool) \<Rightarrow> socket_addr \<Rightarrow> 'n connman \<Rightarrow> 'n connman" where
  "remove_node busy addr m =
     disconnect_by_address busy addr (m\<lparr>added_nodes := filter (\<lambda>a. a \<noteq> addr) (added_nodes m)\<rparr>)"

definition connect_onetry ::
  "('n conn_node list \<Rightarrow> 'n conn_node list) \<Rightarrow> 'n \<Rightarrow> i64 \<Rightarrow> bool \<Rightarrow> socket_addr \<Rightarrow> 'n connman \<Rightarrow>
   (conn_error + unit) \<times> 'n connman" where
  "connect_onetry ord fresh now dial_ok addr m =
     (case conn_connect ord fresh now dial_ok addr m of (Inl e, m) \<Rightarrow> (Inl e, m) | (Inr _, m) \<Rightarrow> (Inr (), m))"

record added_node_info =
  addednode :: string
  an_connected :: bool
  an_addresses :: "(string \<times> string) list"

definition get_added_nodes :: "(socket_addr \<Rightarrow> string) \<Rightarrow> (node_id \<Rightarrow> bool) \<Rightarrow> 'n connman \<Rightarrow> added_node_info list" where
  "get_added_nodes show_addr busy m =
     map (\<lambda>addr. \<lparr>addednode = show_addr addr,
        an_connected = list_ex (\<lambda>n. \<not> busy (node_id n) \<and> node_addr n = addr) (hm_values (nodes m)),
        an_addresses = []\<rparr>) (added_nodes m)"

section \<open>The rest\<close>

definition get_net_totals :: "'n connman \<Rightarrow> u64 \<times> u64" where
  "get_net_totals m = (total_bytes_recv (net_stats m), total_bytes_sent (net_stats m))"

definition is_network_active :: "'n connman \<Rightarrow> bool" where
  "is_network_active m = network_active m"

definition set_network_active :: "bool \<Rightarrow> 'n connman \<Rightarrow> 'n connman" where
  "set_network_active active m = m\<lparr>network_active := active\<rparr>"

text \<open>
  The node's own operations.  Each returns the node after the call, also when the call fails,
  and whether it succeeded; \<open>nd_receive\<close> returns the message, or \<open>None\<close> for an error.
\<close>

datatype node_message =
  NVersion "u8 list" | NVerack | NPing u64 | NPong u64 | NAddr | NInv | NGetData | NBlock | NTx | NOther

record 'n node_api =
  nd_send_version :: "'n \<Rightarrow> 'n \<times> bool"
  nd_receive :: "'n \<Rightarrow> 'n \<times> node_message option"
  nd_len :: "node_message \<Rightarrow> u64"
  nd_handle_version :: "u8 list \<Rightarrow> 'n \<Rightarrow> 'n \<times> bool"
  nd_handle_verack :: "'n \<Rightarrow> 'n \<times> bool"
  nd_send_pong :: "u64 \<Rightarrow> 'n \<Rightarrow> 'n \<times> bool"
  nd_handle_pong :: "u64 \<Rightarrow> 'n \<Rightarrow> 'n \<times> bool"
  nd_send_ping :: "'n \<Rightarrow> 'n \<times> bool"

fun node_dispatch :: "'n node_api \<Rightarrow> node_message \<Rightarrow> 'n \<Rightarrow> 'n \<times> bool" where
  "node_dispatch N (NVersion v) n = nd_handle_version N v n"
| "node_dispatch N NVerack n = nd_handle_verack N n"
| "node_dispatch N (NPing nonce) n = nd_send_pong N nonce n"
| "node_dispatch N (NPong nonce) n = nd_handle_pong N nonce n"
| "node_dispatch N _ n = (n, True)"

text \<open>One turn of the message loop; the last component says whether the loop goes on.\<close>

definition node_turn :: "'n node_api \<Rightarrow> 'n \<times> network_stats \<Rightarrow> ('n \<times> network_stats) \<times> bool" where
  "node_turn N = (\<lambda>(n, s).
     case nd_receive N n of
       (n, None) \<Rightarrow> ((n, s), False)
     | (n, Some msg) \<Rightarrow>
         let s = s\<lparr>total_bytes_recv := total_bytes_recv s + nd_len N msg\<rparr>;
             (n, ok) = node_dispatch N msg n
         in ((n, s), ok))"

text \<open>
  The loop has no exit but an error, so the model runs it for at most the given number of
  turns; \<open>False\<close> is that it returned the error, \<open>True\<close> that it still runs.
\<close>

fun node_loop :: "nat \<Rightarrow> 'n node_api \<Rightarrow> 'n \<times> network_stats \<Rightarrow> ('n \<times> network_stats) \<times> bool" where
  "node_loop 0 N ns = (ns, True)"
| "node_loop (Suc k) N ns = (case node_turn N ns of (ns, True) \<Rightarrow> node_loop k N ns | (ns, False) \<Rightarrow> (ns, False))"

definition handle_node :: "nat \<Rightarrow> 'n node_api \<Rightarrow> 'n \<times> network_stats \<Rightarrow> ('n \<times> network_stats) \<times> bool" where
  "handle_node turns N = (\<lambda>(n, s).
     case nd_send_version N n of (n, False) \<Rightarrow> ((n, s), False) | (n, True) \<Rightarrow> node_loop turns N (n, s))"

definition ping_all :: "'n node_api \<Rightarrow> (node_id \<Rightarrow> bool) \<Rightarrow> 'n connman \<Rightarrow> 'n connman" where
  "ping_all N busy m =
     m\<lparr>nodes := map (\<lambda>(i, n). (i, if busy i then n
        else n\<lparr>node_state := fst (nd_send_ping N (node_state n))\<rparr>)) (nodes m)\<rparr>"

section \<open>Runs\<close>

datatype 'n conn_event =
  Ev_connect "'n conn_node list \<Rightarrow> 'n conn_node list" 'n i64 bool socket_addr
| Ev_add_node "'n conn_node list \<Rightarrow> 'n conn_node list" 'n i64 bool socket_addr
| Ev_accept 'n i64 "node_id \<Rightarrow> bool" socket_addr
| Ev_disconnect node_id
| Ev_finished node_id
| Ev_disconnect_by "node_id \<Rightarrow> bool" socket_addr
| Ev_remove_node "node_id \<Rightarrow> bool" socket_addr
| Ev_ban i64 string i64 bool
| Ev_unban string
| Ev_clear_bans
| Ev_set_active bool
| Ev_ping_all "'n node_api" "node_id \<Rightarrow> bool"

fun conn_step :: "'n conn_event \<Rightarrow> 'n connman \<Rightarrow> 'n connman" where
  "conn_step (Ev_connect ord fresh now ok addr) m = snd (conn_connect ord fresh now ok addr m)"
| "conn_step (Ev_add_node ord fresh now ok addr) m = snd (add_node ord fresh now ok addr m)"
| "conn_step (Ev_accept fresh now busy addr) m = snd (conn_accept fresh now busy addr m)"
| "conn_step (Ev_disconnect i) m = disconnect_node i m"
| "conn_step (Ev_finished i) m = node_finished i m"
| "conn_step (Ev_disconnect_by busy addr) m = disconnect_by_address busy addr m"
| "conn_step (Ev_remove_node busy addr) m = remove_node busy addr m"
| "conn_step (Ev_ban now subnet t absolute) m = ban_node now subnet t absolute m"
| "conn_step (Ev_unban subnet) m = unban_node subnet m"
| "conn_step Ev_clear_bans m = clear_banned m"
| "conn_step (Ev_set_active b) m = set_network_active b m"
| "conn_step (Ev_ping_all N busy) m = ping_all N busy m"

text \<open>\<open>idle\<close> asks that no node lock is held when an inbound connection is counted.\<close>

fun conn_event_ok :: "bool \<Rightarrow> 'n conn_event \<Rightarrow> bool" where
  "conn_event_ok idle (Ev_connect ord fresh now ok addr) = iteration_order ord"
| "conn_event_ok idle (Ev_add_node ord fresh now ok addr) = iteration_order ord"
| "conn_event_ok idle (Ev_accept fresh now busy addr) = (idle \<longrightarrow> (\<forall>i. \<not> busy i))"
| "conn_event_ok idle _ = True"

text \<open>\<open>n\<close> bounds the connections made so far.\<close>

definition conn_invar :: "bool \<Rightarrow> nat \<Rightarrow> 'n connman \<Rightarrow> bool" where
  "conn_invar idle n m \<longleftrightarrow> hm_wf (nodes m) \<and> hm_wf (banned m) \<and> unat (next_id m) \<le> n \<and>
     (\<forall>i nd. hm_get (nodes m) i = Some nd \<longrightarrow> node_id nd = i \<and> unat i < unat (next_id m)) \<and>
     (\<forall>i j a b. hm_get (nodes m) i = Some a \<and> hm_get (nodes m) j = Some b \<and> \<not> inbound a \<and> \<not> inbound b \<and>
        node_addr a = node_addr b \<longrightarrow> i = j) \<and>
     (idle \<longrightarrow> inbound_count (\<lambda>_. False) m \<le> max_inbound (cm_config m))"

lemma inbound_count_sum: "inbound_count (\<lambda>_. False) m = hm_sum (\<lambda>nd. of_bool (inbound nd) :: nat) (nodes m)"
proof -
  have "length (filter inbound (hm_values ns)) = hm_sum (\<lambda>nd. of_bool (inbound nd) :: nat) ns" for ns :: "(node_id, 'a conn_node) hmap"
    by (induction ns) (auto simp: hm_values_def)
  then show ?thesis by (simp add: inbound_count_def)
qed

text \<open>A step that only removes nodes, or changes what the invariant does not look at.\<close>

lemma conn_invar_shrink:
  assumes "conn_invar idle n m" and "hm_wf (nodes m') \<and> hm_wf (banned m')" and "next_id m' = next_id m" and "cm_config m' = cm_config m"
    and "\<And>i nd. hm_get (nodes m') i = Some nd \<Longrightarrow> \<exists>nd'. hm_get (nodes m) i = Some nd' \<and>
      node_id nd = node_id nd' \<and> node_addr nd = node_addr nd' \<and> inbound nd = inbound nd'"
    and "inbound_count (\<lambda>_. False) m' \<le> inbound_count (\<lambda>_. False) m"
  shows "conn_invar idle n m'"
  unfolding conn_invar_def
proof (intro conjI allI impI)
  show "hm_wf (nodes m')" and "hm_wf (banned m')" using assms(2) by simp_all
  show "unat (next_id m') \<le> n" using assms(1,3) by (simp add: conn_invar_def)
  fix i nd
  assume "hm_get (nodes m') i = Some nd"
  with assms(5) obtain nd' where "hm_get (nodes m) i = Some nd'" "node_id nd = node_id nd'" by blast
  then show "node_id nd = i" and "unat i < unat (next_id m')" using assms(1,3) by (auto simp: conn_invar_def)
next
  fix i j a b
  assume "hm_get (nodes m') i = Some a \<and> hm_get (nodes m') j = Some b \<and> \<not> inbound a \<and> \<not> inbound b \<and> node_addr a = node_addr b"
  then show "i = j" using assms(1) assms(5) [of i a] assms(5) [of j b] unfolding conn_invar_def by metis
next
  assume idle
  then show "inbound_count (\<lambda>_. False) m' \<le> max_inbound (cm_config m')" using assms(1,4,6) by (simp add: conn_invar_def)
qed

lemma conn_invar_same:
  assumes "conn_invar idle n m" and "nodes m' = nodes m" "next_id m' = next_id m" "cm_config m' = cm_config m"
    and "hm_wf (banned m) \<Longrightarrow> hm_wf (banned m')"
  shows "conn_invar idle n m'"
  by (rule conn_invar_shrink [OF assms(1)]) (use assms in \<open>auto simp: conn_invar_def inbound_count_def\<close>)

lemma conn_invar_remove:
  assumes "conn_invar idle n m"
  shows "conn_invar idle n (m\<lparr>nodes := hm_remove i (nodes m)\<rparr>)"
proof -
  have wf: "hm_wf (nodes m)" "hm_wf (banned m)" using assms by (simp_all add: conn_invar_def)
  show ?thesis
    by (rule conn_invar_shrink [OF assms])
      (use wf in \<open>auto simp: hm_wf_remove hm_simps inbound_count_sum hm_sum_remove_le split: if_splits\<close>)
qed

lemma conn_invar_mono: "conn_invar idle n m \<Longrightarrow> n \<le> n' \<Longrightarrow> conn_invar idle n' m"
  by (auto simp: conn_invar_def)

text \<open>A new entry keeps the outbound addresses apart if it is inbound or its address is new.\<close>

lemma outbound_unique_upd:
  assumes old: "\<forall>i j a b. M i = Some a \<and> M j = Some b \<and> \<not> inbound a \<and> \<not> inbound b \<and> node_addr a = node_addr b \<longrightarrow> i = j"
    and new: "inbound nd \<or> (\<forall>i x. M i = Some x \<longrightarrow> node_addr x \<noteq> node_addr nd)"
    and ab: "(M(k \<mapsto> nd)) i = Some a" "(M(k \<mapsto> nd)) j = Some b" "\<not> inbound a" "\<not> inbound b" "node_addr a = node_addr b"
  shows "i = j"
proof (cases "i = k"; cases "j = k")
  assume "i \<noteq> k" "j \<noteq> k"
  then show ?thesis using ab old by (metis fun_upd_other)
next
  assume "i = k" "j \<noteq> k"
  with ab new show ?thesis by auto
next
  assume "i \<noteq> k" "j = k"
  with ab new show ?thesis by auto
qed simp

lemma conn_invar_register:
  assumes inv: "conn_invar idle n m" and n: "Suc n < 2 ^ 64"
    and new: "inb \<or> (\<forall>i nd. hm_get (nodes m) i = Some nd \<longrightarrow> node_addr nd \<noteq> addr)"
    and room: "idle \<and> inb \<Longrightarrow> inbound_count (\<lambda>_. False) m < max_inbound (cm_config m)"
  shows "conn_invar idle (Suc n) (snd (register_node fresh addr inb m))"
proof -
  let ?i = "next_id m"
  let ?nd = "\<lparr>node_id = ?i, node_addr = addr, inbound = inb, node_state = fresh\<rparr>"
  let ?m = "m\<lparr>next_id := ?i + 1, nodes := nodes m @ [(?i, ?nd)]\<rparr>"
  have ids: "unat ?i \<le> n" and wf: "hm_wf (nodes m)" using inv by (simp_all add: conn_invar_def)
  then have suc: "unat (?i + 1) = Suc (unat ?i)" using n by (simp add: unat_add_no_overflow)
  have below: "\<forall>i nd. hm_get (nodes m) i = Some nd \<longrightarrow> node_id nd = i \<and> unat i < unat (next_id m)"
    using inv unfolding conn_invar_def by (elim conjE)
  then have fresh: "hm_get (nodes m) ?i = None" by (metis less_irrefl not_Some_eq)
  have get: "hm_get (nodes ?m) = (hm_get (nodes m))(?i \<mapsto> ?nd)"
    using fresh by (simp flip: hm_insert_fresh add: hm_simps)
  have eq: "snd (register_node fresh addr inb m) = ?m" using fresh by (simp add: register_node_def next_node_id_def hm_insert_fresh)
  have wf': "hm_wf (nodes ?m)" using hm_wf_insert [OF wf, of ?i ?nd] fresh by (simp add: hm_insert_fresh)
  have cnt: "inbound_count (\<lambda>_. False) ?m = inbound_count (\<lambda>_. False) m + of_bool inb"
    by (simp add: inbound_count_def hm_values_def)
  show ?thesis unfolding eq conn_invar_def
  proof (intro conjI allI impI)
    show "hm_wf (nodes ?m)" by (rule wf')
    show "hm_wf (banned ?m)" using inv by (simp add: conn_invar_def)
    show "unat (next_id ?m) \<le> Suc n" using ids suc by simp
    fix i nd
    assume "hm_get (nodes ?m) i = Some nd"
    then show "node_id nd = i" and "unat i < unat (next_id ?m)"
      using inv suc unfolding get by (auto simp: conn_invar_def less_Suc_eq split: if_splits)
  next
    fix i j a b
    assume ab: "hm_get (nodes ?m) i = Some a \<and> hm_get (nodes ?m) j = Some b \<and> \<not> inbound a \<and> \<not> inbound b \<and> node_addr a = node_addr b"
    have old: "\<forall>i j a b. hm_get (nodes m) i = Some a \<and> hm_get (nodes m) j = Some b \<and> \<not> inbound a \<and> \<not> inbound b \<and>
        node_addr a = node_addr b \<longrightarrow> i = j"
      using inv unfolding conn_invar_def by (elim conjE)
    have "inbound ?nd \<or> (\<forall>i x. hm_get (nodes m) i = Some x \<longrightarrow> node_addr x \<noteq> node_addr ?nd)" using new by simp
    note unique = outbound_unique_upd [OF old this]
    from ab show "i = j" unfolding get by (elim conjE) (rule unique)
  next
    assume idle
    with inv room cnt show "inbound_count (\<lambda>_. False) ?m \<le> max_inbound (cm_config ?m)"
      by (cases inb) (auto simp: conn_invar_def)
  qed
qed

lemma conn_invar_connect:
  assumes inv: "conn_invar idle n m" and n: "Suc n < 2 ^ 64" and ord: "iteration_order ord"
  shows "conn_invar idle (Suc n) (snd (conn_connect ord fresh now ok addr m))"
proof (cases "List.find (\<lambda>nd. node_addr nd = addr) (ord (hm_values (nodes m)))")
  case None
  have wf: "hm_wf (nodes m)" using inv by (simp add: conn_invar_def)
  have "\<forall>i nd. hm_get (nodes m) i = Some nd \<longrightarrow> node_addr nd \<noteq> addr"
    using None hm_values_iff [OF wf] by (auto simp: find_None_iff iteration_orderD(1) [OF ord])
  with conn_invar_register [OF inv n, of False addr fresh] conn_invar_mono [OF inv, of "Suc n"] None show ?thesis
    by (simp add: conn_connect_def case_prod_beta)
next
  case (Some nd)
  with conn_invar_mono [OF inv, of "Suc n"] show ?thesis by (simp add: conn_connect_def)
qed

lemma add_node_state:
  "snd (add_node ord fresh now ok addr m) = snd (conn_connect ord fresh now ok addr (m\<lparr>added_nodes := added_nodes m @ [addr]\<rparr>))"
  by (simp add: add_node_def split: prod.splits sum.splits)

lemma fold_disconnect: "fold disconnect_node is m = m\<lparr>nodes := fold hm_remove is (nodes m)\<rparr>"
  by (induction "is" arbitrary: m) (simp_all add: disconnect_node_def)

lemma conn_invar_fold_remove: "conn_invar idle n m \<Longrightarrow> conn_invar idle n (fold disconnect_node is m)"
  by (induction "is" arbitrary: m) (simp_all add: conn_invar_remove disconnect_node_def)

lemma conn_invar_ping:
  fixes m :: "'a connman"
  assumes "conn_invar idle n m"
  shows "conn_invar idle n (ping_all N busy m)"
proof -
  define f :: "node_id \<Rightarrow> 'a conn_node \<Rightarrow> 'a conn_node" where
    "f = (\<lambda>i nd. if busy i then nd else nd\<lparr>node_state := fst (nd_send_ping N (node_state nd))\<rparr>)"
  have f: "node_id (f i nd) = node_id nd" "node_addr (f i nd) = node_addr nd" "inbound (f i nd) = inbound nd" for i nd
    by (simp_all add: f_def)
  have get: "hm_get (map (\<lambda>(i, nd). (i, f i nd)) ns) i = map_option (f i) (hm_get ns i)" for ns i
    by (induction ns) auto
  have ns: "nodes (ping_all N busy m) = map (\<lambda>(i, nd). (i, f i nd)) (nodes m)" by (simp add: ping_all_def f_def)
  have "hm_sum (\<lambda>nd. of_bool (inbound nd) :: nat) (map (\<lambda>(i, nd). (i, f i nd)) xs) = hm_sum (\<lambda>nd. of_bool (inbound nd)) xs" for xs
    by (induction xs) (auto simp: f)
  then have "inbound_count (\<lambda>_. False) (ping_all N busy m) = inbound_count (\<lambda>_. False) m"
    unfolding inbound_count_sum ns by simp
  moreover have "hm_wf (nodes (ping_all N busy m)) \<and> hm_wf (banned (ping_all N busy m))"
    using assms by (simp add: conn_invar_def ping_all_def hm_wf_def comp_def case_prod_beta)
  moreover have "next_id (ping_all N busy m) = next_id m" "cm_config (ping_all N busy m) = cm_config m" by (simp_all add: ping_all_def)
  ultimately show ?thesis
    by (intro conn_invar_shrink [OF assms]) (auto simp: ns get f)
qed

lemma conn_invar_step:
  assumes inv: "conn_invar idle n m" and n: "Suc n < 2 ^ 64" and ok: "conn_event_ok idle e"
  shows "conn_invar idle (Suc n) (conn_step e m)"
proof -
  have same: "conn_invar idle (Suc n) m'"
    if "nodes m' = nodes m" "next_id m' = next_id m" "cm_config m' = cm_config m" "hm_wf (banned m) \<Longrightarrow> hm_wf (banned m')" for m'
    using conn_invar_mono [OF conn_invar_same [OF inv that]] by simp
  have removed: "conn_invar idle (Suc n) (fold disconnect_node is m')"
    if "nodes m' = nodes m" "next_id m' = next_id m" "cm_config m' = cm_config m" "banned m' = banned m" for "is" m'
    using conn_invar_fold_remove [OF same] that by simp
  show ?thesis
  proof (cases e)
    case (Ev_connect ord fresh now dial addr)
    with ok conn_invar_connect [OF inv n] show ?thesis by simp
  next
    case (Ev_add_node ord fresh now dial addr)
    have "conn_invar idle n (m\<lparr>added_nodes := added_nodes m @ [addr]\<rparr>)" by (rule conn_invar_same [OF inv]) simp_all
    from conn_invar_connect [OF this n] ok Ev_add_node show ?thesis by (simp add: add_node_state)
  next
    case (Ev_accept fresh now busy addr)
    have idle: "idle \<Longrightarrow> inbound_count busy m = inbound_count (\<lambda>_. False) m" using ok Ev_accept by (simp add: inbound_count_def)
    have "conn_invar idle (Suc n) m" using conn_invar_mono [OF inv, of "Suc n"] by simp
    moreover have "conn_invar idle (Suc n) (snd (register_node fresh addr True m))"
      if "inbound_count busy m < max_inbound (cm_config m)"
      by (rule conn_invar_register [OF inv n]) (use idle that in simp_all)
    ultimately show ?thesis by (simp add: Ev_accept conn_accept_def case_prod_beta)
  next
    case (Ev_disconnect i)
    with removed [OF refl refl refl refl, of "[i]"] show ?thesis by simp
  next
    case (Ev_finished i)
    with removed [OF refl refl refl refl, of "[i]"] show ?thesis by (simp add: disconnect_node_def node_finished_def)
  next
    case (Ev_ping_all N busy)
    with conn_invar_mono [OF conn_invar_ping [OF inv]] show ?thesis by simp
  qed (simp_all add: disconnect_by_address_def remove_node_def removed same ban_node_def unban_node_def clear_banned_def
      set_network_active_def hm_wf_insert hm_wf_remove)
qed

lemma conn_run_invar:
  "conn_invar idle n m \<Longrightarrow> n + length es < 2 ^ 64 \<Longrightarrow> list_all (conn_event_ok idle) es \<Longrightarrow>
     conn_invar idle (n + length es) (fold conn_step es m)"
proof (induction es arbitrary: n m)
  case Nil
  then show ?case by simp
next
  case (Cons e es)
  then have "conn_invar idle (Suc n) (conn_step e m)" by (intro conn_invar_step) simp_all
  from Cons.IH [OF this] Cons.prems show ?case by simp
qed

lemma conn_invar_new: "conn_invar idle 0 (connman_new t c)"
  by (simp add: conn_invar_def connman_new_def inbound_count_def hm_values_def)

lemma fold_disconnect_config [simp]: "cm_config (fold disconnect_node is m) = cm_config m"
  by (simp add: fold_disconnect)

lemma conn_step_config: "cm_config (conn_step e m) = cm_config m"
proof -
  have connect: "cm_config (snd (conn_connect ord fresh now dial addr m')) = cm_config m'" for ord fresh now dial addr m'
    by (simp add: conn_connect_def register_node_def next_node_id_def split: option.splits)
  show ?thesis
    by (cases e) (simp_all add: connect add_node_state conn_accept_def register_node_def next_node_id_def disconnect_node_def
      node_finished_def disconnect_by_address_def remove_node_def ban_node_def unban_node_def clear_banned_def
      set_network_active_def ping_all_def)
qed

section \<open>What the operations do\<close>

lemma connected_after_connect:
  assumes "iteration_order ord" and "conn_connect ord fresh now dial addr m = (Inr i, m')"
  shows "list_ex (\<lambda>n. node_addr n = addr) (hm_values (nodes m'))"
proof (cases "List.find (\<lambda>n. node_addr n = addr) (ord (hm_values (nodes m)))")
  case None
  with assms(2) have m': "m' = snd (register_node fresh addr False m)"
    by (auto simp: conn_connect_def split: if_splits prod.splits)
  have "(k, v) \<in> set (hm_insert k v xs)" for k v and xs :: "(node_id, 'a conn_node) hmap" by (induction xs) auto
  then show ?thesis unfolding m'
    by (force simp: register_node_def next_node_id_def list_ex_iff hm_values_def)
next
  case (Some n)
  with assms(2) have "m' = m" by (simp add: conn_connect_def)
  moreover from Some obtain k where "k < length (ord (hm_values (nodes m)))" "n = ord (hm_values (nodes m)) ! k" "node_addr n = addr"
    by (auto simp: find_Some_iff)
  then have "n \<in> set (ord (hm_values (nodes m)))" "node_addr n = addr" by simp_all
  then have "n \<in> set (hm_values (nodes m))" "node_addr n = addr" by (simp_all add: iteration_orderD(1) [OF assms(1)])
  ultimately show ?thesis by (auto simp: list_ex_iff)
qed

lemma disconnected_by_address:
  "\<not> list_ex (\<lambda>n. node_addr n = addr) (hm_values (nodes (disconnect_by_address (\<lambda>_. False) addr m)))"
proof -
  have "set (fold hm_remove is ns) = {p \<in> set ns. fst p \<notin> set is}" for "is" and ns :: "(node_id, 'a conn_node) hmap"
    by (induction "is" arbitrary: ns) (auto simp: hm_remove_def)
  note removed = this
  show ?thesis
    by (auto simp: disconnect_by_address_def fold_disconnect removed list_ex_iff hm_values_def List.map_filter_def image_iff)
qed

text \<open>Any ban that has not expired refuses every new connection: the address is not looked at.\<close>

lemma ban_refuses_everyone:
  assumes "(subnet, entry) \<in> set (banned m)" and "sint (banned_until entry) > sint now"
  shows "conn_accept fresh now busy addr m = (Inl (NodeBanned addr), m)"
    and "list_all (\<lambda>n. node_addr n \<noteq> addr) (hm_values (nodes m)) \<Longrightarrow> iteration_order ord \<Longrightarrow>
      conn_connect ord fresh now dial addr m = (Inl (NodeBanned addr), m)"
proof -
  have "is_banned now addr m" using assms by (force simp: is_banned_def list_ex_iff hm_values_def)
  then show "conn_accept fresh now busy addr m = (Inl (NodeBanned addr), m)" by (simp add: conn_accept_def)
  assume "list_all (\<lambda>n. node_addr n \<noteq> addr) (hm_values (nodes m))" "iteration_order ord"
  then have "List.find (\<lambda>n. node_addr n = addr) (ord (hm_values (nodes m))) = None"
    by (auto simp: find_None_iff list_all_iff iteration_orderD(1))
  with \<open>is_banned now addr m\<close> show "conn_connect ord fresh now dial addr m = (Inl (NodeBanned addr), m)"
    by (simp add: conn_connect_def)
qed

text \<open>The task of a node holds its lock while it waits for a message.  Locked nodes are not
  counted, so with all of them waiting the inbound limit admits any number.\<close>

lemma waiting_nodes_not_counted:
  assumes "0 < max_inbound (cm_config m)" and "\<not> is_banned now addr m"
  shows "conn_accept fresh now (\<lambda>_. True) addr m = (Inr (next_id m), snd (register_node fresh addr True m))"
    and "get_peer_info info (\<lambda>_. True) m = []"
  using assms by (simp_all add: conn_accept_def inbound_count_def register_node_def next_node_id_def get_peer_info_def)

text \<open>A node whose connection fails stays among the added ones, and is listed again at the next try.\<close>

lemma failed_add_stays:
  assumes "conn_connect ord fresh now dial addr (m\<lparr>added_nodes := added_nodes m @ [addr]\<rparr>) = (Inl e, m')"
  shows "add_node ord fresh now dial addr m = (Inl e, m\<lparr>added_nodes := added_nodes m @ [addr]\<rparr>)"
  using assms by (auto simp: add_node_def conn_connect_def register_node_def next_node_id_def split: option.splits if_splits)

text \<open>Switching the network off has no effect on connecting.\<close>

lemma inactive_network_connects:
  "fst (conn_connect ord fresh now dial addr (set_network_active False m)) = fst (conn_connect ord fresh now dial addr m)"
  "fst (conn_accept fresh now busy addr (set_network_active False m)) = fst (conn_accept fresh now busy addr m)"
  by (simp_all add: conn_connect_def conn_accept_def set_network_active_def is_banned_def inbound_count_def register_node_def
    next_node_id_def split: option.splits)

text \<open>The bytes received are counted over every turn of the loop, modulo the width of the counter.\<close>

lemma node_turn_counts:
  assumes "node_turn N (n, s) = ((n', s'), ok)"
  shows "total_bytes_sent s' = total_bytes_sent s" and "start_time s' = start_time s"
    and "nd_receive N n = (k, Some msg) \<Longrightarrow> total_bytes_recv s' = total_bytes_recv s + nd_len N msg"
  using assms by (auto simp: node_turn_def Let_def split: prod.splits option.splits)

text \<open>Nothing counts the bytes sent, so their total stays what it was.\<close>

lemma bytes_sent_never_counted:
  "total_bytes_sent (snd (fst (node_loop k N (n, s)))) = total_bytes_sent s"
proof (induction k arbitrary: n s)
  case (Suc k)
  obtain n' s' ok where turn: "node_turn N (n, s) = ((n', s'), ok)" by (metis prod.exhaust)
  with Suc.IH [of n' s'] node_turn_counts(1) [OF turn] show ?case by (cases ok) simp_all
qed simp

end
