(* ===== verification/Rpc_Blockchain.thy ===== *)
theory Rpc_Blockchain
  imports Tx_Mempool Mempool_Graph Kernel_Wrapper
begin

text \<open>
  The RPC handlers of \<^verbatim>\<open>src/rpc/blockchain.rs\<close> and the routes of \<^verbatim>\<open>src/rpc/mod.rs\<close>.
  A handler answers with a status code or a JSON value.  The kernel is shared by
  reference counting: \<open>kernel_refs\<close> counts the \<open>Arc\<close>s, and the last one to go runs
  \<open>Drop\<close>.  Every request works on a clone of the application state, which is dropped
  with the request.  Printing and parsing of hashes are functions of the bitcoin
  crate; a worker task never panics, so joining it never fails.
\<close>

section \<open>Answers\<close>

datatype 'f json =
  JNull
| JBool bool
| JInt int
| JF64 'f
| JStr string
| JArr "'f json list"
| JObj "(string \<times> 'f json) list"

datatype status_code = INTERNAL_SERVER_ERROR | NOT_FOUND | BAD_REQUEST

record hash_text =
  hash_to_string :: "block_hash \<Rightarrow> string"
  hash_from_string :: "string \<Rightarrow> block_hash option"
  txid_to_string :: "txid \<Rightarrow> string"

abbreviation jint :: "i32 \<Rightarrow> 'f json" where
  "jint n \<equiv> JInt (sint n)"

definition result_obj :: "'f json \<Rightarrow> 'f json" where
  "result_obj v = JObj [(''result'', v)]"

section \<open>The application state\<close>

record 'c app_state =
  app_world :: "'c ffi_state"
  app_kernel :: kernel
  kernel_refs :: nat
  app_mempool :: mempool
  shutdown_tx :: bool
  shutdown_signals :: nat

definition arc_clone :: "'c app_state \<Rightarrow> 'c app_state" where
  "arc_clone s = s\<lparr>kernel_refs := kernel_refs s + 1\<rparr>"

definition arc_drop :: "'c app_state \<Rightarrow> 'c app_state" where
  "arc_drop s =
     (if kernel_refs s = 1
      then s\<lparr>kernel_refs := 0, app_world := kernel_drop (app_kernel s) (app_world s)\<rparr>
      else s\<lparr>kernel_refs := kernel_refs s - 1\<rparr>)"

text \<open>A query of the kernel from a worker task, which owns a clone of the \<open>Arc\<close>.\<close>

definition on_kernel ::
  "(kernel \<Rightarrow> 'c ffi_state \<Rightarrow> 'r \<times> 'c ffi_state) \<Rightarrow> 'c app_state \<Rightarrow> 'r \<times> 'c app_state" where
  "on_kernel f s =
     (let (r, w) = f (app_kernel s) (app_world (arc_clone s))
      in (r, arc_drop ((arc_clone s)\<lparr>app_world := w\<rparr>)))"

section \<open>The handlers\<close>

text \<open>The tip as the handlers print it: the height and the best block hash, empty when there
  is none.\<close>

definition best_hash_text :: "hash_text \<Rightarrow> wrapper_error + block_hash \<Rightarrow> string" where
  "best_hash_text T r = (case r of Inr h \<Rightarrow> hash_to_string T h | Inl _ \<Rightarrow> [])"

definition chain_tip_query ::
  "'c btck_api \<Rightarrow> hash_text \<Rightarrow> kernel \<Rightarrow> 'c ffi_state \<Rightarrow> (status_code + i32 \<times> string) \<times> 'c ffi_state" where
  "chain_tip_query A T k w =
     (case get_height A k w of
        (Inl _, w) \<Rightarrow> (Inl INTERNAL_SERVER_ERROR, w)
      | (Inr hgt, w) \<Rightarrow>
          let (r, w) = get_best_block_hash A k w in (Inr (hgt, best_hash_text T r), w))"

definition getblockchaininfo ::
  "'f f64_ops \<Rightarrow> 'c btck_api \<Rightarrow> hash_text \<Rightarrow> kernel \<Rightarrow> 'c ffi_state \<Rightarrow> (status_code + 'f json) \<times> 'c ffi_state" where
  "getblockchaininfo F A T k w =
     (case get_height A k w of
        (Inl _, w) \<Rightarrow> (Inl INTERNAL_SERVER_ERROR, w)
      | (Inr hgt, w) \<Rightarrow>
          let (best_blockhash, w) =
            (if 0 \<le> sint hgt then (let (r, w) = get_best_block_hash A k w in (best_hash_text T r, w)) else ([], w))
          in (Inr (JObj
                [(''chain'', JStr ''signet''), (''blocks'', jint hgt), (''headers'', jint hgt),
                 (''bestblockhash'', JStr best_blockhash), (''difficulty'', JF64 (f64_lit F 0 1)), (''mediantime'', JInt 0),
                 (''verificationprogress'', JF64 (f64_lit F 1 1)), (''initialblockdownload'', JBool False),
                 (''size_on_disk'', JInt 0)]), w))"

definition getbestblockhash ::
  "'c btck_api \<Rightarrow> hash_text \<Rightarrow> kernel \<Rightarrow> 'c ffi_state \<Rightarrow> (status_code + 'f json) \<times> 'c ffi_state" where
  "getbestblockhash A T k w =
     (case get_best_block_hash A k w of
        (Inl _, w) \<Rightarrow> (Inl INTERNAL_SERVER_ERROR, w)
      | (Inr h, w) \<Rightarrow> (Inr (result_obj (JStr (hash_to_string T h))), w))"

definition getblockcount :: "'c btck_api \<Rightarrow> kernel \<Rightarrow> 'c ffi_state \<Rightarrow> (status_code + 'f json) \<times> 'c ffi_state" where
  "getblockcount A k w =
     (case get_height A k w of
        (Inl _, w) \<Rightarrow> (Inl INTERNAL_SERVER_ERROR, w)
      | (Inr hgt, w) \<Rightarrow> (Inr (result_obj (jint hgt)), w))"

definition getblockhash ::
  "'c btck_api \<Rightarrow> hash_text \<Rightarrow> i32 \<Rightarrow> kernel \<Rightarrow> 'c ffi_state \<Rightarrow> (status_code + 'f json) \<times> 'c ffi_state" where
  "getblockhash A T hgt k w =
     (case get_block_hash A k hgt w of
        (Inl _, w) \<Rightarrow> (Inl NOT_FOUND, w)
      | (Inr h, w) \<Rightarrow> (Inr (result_obj (JStr (hash_to_string T h))), w))"

definition getblock :: "hash_text \<Rightarrow> string \<Rightarrow> u8 \<Rightarrow> status_code + 'f json" where
  "getblock T blockhash verbosity =
     (case hash_from_string T blockhash of
        None \<Rightarrow> Inl BAD_REQUEST
      | Some h \<Rightarrow> Inr (JObj [(''error'', JStr ''getblock not yet implemented''), (''blockhash'', JStr (hash_to_string T h))]))"

definition getblockheader :: "hash_text \<Rightarrow> string \<Rightarrow> bool \<Rightarrow> status_code + 'f json" where
  "getblockheader T blockhash verbose =
     (case hash_from_string T blockhash of
        None \<Rightarrow> Inl BAD_REQUEST
      | Some h \<Rightarrow> Inr (JObj [(''error'', JStr ''getblockheader not yet implemented''), (''blockhash'', JStr (hash_to_string T h))]))"

definition getblockstats :: "status_code + 'f json" where
  "getblockstats = Inr (JObj [(''error'', JStr ''getblockstats not yet implemented'')])"

definition getchaintips ::
  "'c btck_api \<Rightarrow> hash_text \<Rightarrow> kernel \<Rightarrow> 'c ffi_state \<Rightarrow> (status_code + 'f json) \<times> 'c ffi_state" where
  "getchaintips A T k w =
     (case chain_tip_query A T k w of
        (Inl e, w) \<Rightarrow> (Inl e, w)
      | (Inr (hgt, hash), w) \<Rightarrow>
          (Inr (JArr [JObj [(''height'', jint hgt), (''hash'', JStr hash), (''branchlen'', JInt 0),
             (''status'', JStr ''active'')]]), w))"

definition getchaintxstats :: "status_code + 'f json" where
  "getchaintxstats = Inr (JObj [(''error'', JStr ''getchaintxstats not yet implemented'')])"

definition getdifficulty :: "'f f64_ops \<Rightarrow> status_code + 'f json" where
  "getdifficulty F = Inr (result_obj (JF64 (f64_lit F 1 1)))"

definition getmempoolinfo :: "'f f64_ops \<Rightarrow> mempool \<Rightarrow> status_code + 'f json" where
  "getmempoolinfo F mp =
     (let stats = mempool_get_stats F mp
      in Inr (JObj
           [(''loaded'', JBool True), (''size'', JInt (int (ms_size stats))), (''bytes'', JInt (uint (ms_bytes stats))),
            (''usage'', JInt (uint (ms_usage stats))), (''maxmempool'', JInt (uint (ms_max_mempool stats))),
            (''mempoolminfee'', JF64 (ms_mempool_min_fee stats)), (''minrelaytxfee'', JF64 (ms_min_relay_tx_fee stats))]))"

definition getrawmempool ::
  "'f f64_ops \<Rightarrow> hash_text \<Rightarrow> (txid list \<Rightarrow> txid list) \<Rightarrow> bool \<Rightarrow> mempool \<Rightarrow> status_code + 'f json" where
  "getrawmempool F T ord verbose mp =
     (let txids = get_all_txids ord mp
      in if verbose
         then Inr (JObj (fold (\<lambda>t. hm_insert (txid_to_string T t)
                (JObj [(''vsize'', JInt 0), (''fee'', JF64 (f64_lit F 0 1)), (''time'', JInt 0)])) txids []))
         else Inr (JArr (map (\<lambda>t. JStr (txid_to_string T t)) txids)))"

definition gettxout :: "status_code + 'f json" where
  "gettxout = Inr JNull"

definition gettxoutsetinfo ::
  "'f f64_ops \<Rightarrow> 'c btck_api \<Rightarrow> hash_text \<Rightarrow> kernel \<Rightarrow> 'c ffi_state \<Rightarrow> (status_code + 'f json) \<times> 'c ffi_state" where
  "gettxoutsetinfo F A T k w =
     (case chain_tip_query A T k w of
        (Inl e, w) \<Rightarrow> (Inl e, w)
      | (Inr (hgt, hash), w) \<Rightarrow>
          (Inr (JObj [(''height'', jint hgt), (''bestblock'', JStr hash), (''transactions'', JInt 0), (''txouts'', JInt 0),
             (''bogosize'', JInt 0), (''hash_serialized_2'', JStr []), (''disk_size'', JInt 0),
             (''total_amount'', JF64 (f64_lit F 0 1))]), w))"

definition verifychain :: "u8 \<Rightarrow> i32 \<Rightarrow> status_code + 'f json" where
  "verifychain checklevel nblocks = Inr (result_obj (JBool True))"

definition stop :: "'c app_state \<Rightarrow> (status_code + 'f json) \<times> 'c app_state" where
  "stop s =
     (if shutdown_tx s
      then (Inr (result_obj (JStr ''Bitcoin server stopping'')),
            s\<lparr>shutdown_tx := False, shutdown_signals := shutdown_signals s + 1\<rparr>)
      else (Inr (result_obj (JStr ''Shutdown already in progress'')), s))"

text \<open>The handler owns the request's clone of the state and drops that clone's \<open>Arc\<close> itself.\<close>

definition flushstate :: "'c btck_api \<Rightarrow> 'c app_state \<Rightarrow> (status_code + 'f json) \<times> 'c app_state" where
  "flushstate A s =
     (let (height_before, s) = on_kernel (get_height A) s;
          s = arc_drop s
      in (Inr (result_obj (JObj [(''height'', jint (unwrap_or (- 1) height_before)),
            (''message'', JStr ''State flushed to disk. Restart node to continue syncing.'')])), s))"

section \<open>Requests\<close>

datatype rpc_request =
  GetBlockchainInfo | GetBestBlockHash | GetBlockCount | GetBlockHash i32 | GetBlock string u8
| GetBlockHeader string bool | GetChainTips | GetDifficulty | GetMempoolInfo | GetRawMempool bool
| GetTxOut | GetTxOutSetInfo | VerifyChain u8 i32 | Stop | FlushState

definition rpc_routes :: "string list" where
  "rpc_routes =
     [''/getblockchaininfo'', ''/getbestblockhash'', ''/getblockcount'', ''/getblockhash'', ''/getblock'',
      ''/getblockheader'', ''/getchaintips'', ''/getdifficulty'', ''/getmempoolinfo'', ''/getrawmempool'',
      ''/gettxout'', ''/gettxoutsetinfo'', ''/verifychain'', ''/stop'', ''/flushstate'']"

fun route_of :: "rpc_request \<Rightarrow> string" where
  "route_of GetBlockchainInfo = ''/getblockchaininfo''"
| "route_of GetBestBlockHash = ''/getbestblockhash''"
| "route_of GetBlockCount = ''/getblockcount''"
| "route_of (GetBlockHash _) = ''/getblockhash''"
| "route_of (GetBlock _ _) = ''/getblock''"
| "route_of (GetBlockHeader _ _) = ''/getblockheader''"
| "route_of GetChainTips = ''/getchaintips''"
| "route_of GetDifficulty = ''/getdifficulty''"
| "route_of GetMempoolInfo = ''/getmempoolinfo''"
| "route_of (GetRawMempool _) = ''/getrawmempool''"
| "route_of GetTxOut = ''/gettxout''"
| "route_of GetTxOutSetInfo = ''/gettxoutsetinfo''"
| "route_of (VerifyChain _ _) = ''/verifychain''"
| "route_of Stop = ''/stop''"
| "route_of FlushState = ''/flushstate''"

text \<open>A handler that ends with the request's clone of the state.\<close>

definition finish_request :: "'r \<times> 'c app_state \<Rightarrow> 'r \<times> 'c app_state" where
  "finish_request = (\<lambda>(r, s). (r, arc_drop s))"

fun rpc_handle ::
  "'f f64_ops \<Rightarrow> 'c btck_api \<Rightarrow> hash_text \<Rightarrow> (txid list \<Rightarrow> txid list) \<Rightarrow> rpc_request \<Rightarrow> 'c app_state \<Rightarrow>
   (status_code + 'f json) \<times> 'c app_state" where
  "rpc_handle F A T ord GetBlockchainInfo s = finish_request (on_kernel (getblockchaininfo F A T) (arc_clone s))"
| "rpc_handle F A T ord GetBestBlockHash s = finish_request (on_kernel (getbestblockhash A T) (arc_clone s))"
| "rpc_handle F A T ord GetBlockCount s = finish_request (on_kernel (getblockcount A) (arc_clone s))"
| "rpc_handle F A T ord (GetBlockHash n) s = finish_request (on_kernel (getblockhash A T n) (arc_clone s))"
| "rpc_handle F A T ord (GetBlock h v) s = finish_request (getblock T h v, arc_clone s)"
| "rpc_handle F A T ord (GetBlockHeader h v) s = finish_request (getblockheader T h v, arc_clone s)"
| "rpc_handle F A T ord GetChainTips s = finish_request (on_kernel (getchaintips A T) (arc_clone s))"
| "rpc_handle F A T ord GetDifficulty s = finish_request (getdifficulty F, arc_clone s)"
| "rpc_handle F A T ord GetMempoolInfo s = finish_request (getmempoolinfo F (app_mempool s), arc_clone s)"
| "rpc_handle F A T ord (GetRawMempool v) s = finish_request (getrawmempool F T ord v (app_mempool s), arc_clone s)"
| "rpc_handle F A T ord GetTxOut s = finish_request (gettxout, arc_clone s)"
| "rpc_handle F A T ord GetTxOutSetInfo s = finish_request (on_kernel (gettxoutsetinfo F A T) (arc_clone s))"
| "rpc_handle F A T ord (VerifyChain c n) s = finish_request (verifychain c n, arc_clone s)"
| "rpc_handle F A T ord Stop s = finish_request (stop (arc_clone s))"
| "rpc_handle F A T ord FlushState s = flushstate A (arc_clone s)"

section \<open>Queries leave the state alone\<close>

definition serving :: "'c app_state \<Rightarrow> bool" where
  "serving s \<longleftrightarrow> kernel_refs s \<ge> 1 \<and> kernel_live (app_kernel s) (app_world s)"

lemma serving_clone [simp]: "serving s \<Longrightarrow> serving (arc_clone s)"
  by (simp add: serving_def arc_clone_def)

lemma arc_drop_clone [simp]: "kernel_refs s \<ge> 1 \<Longrightarrow> arc_drop (arc_clone s) = s"
  by (simp add: arc_drop_def arc_clone_def)

text \<open>The contract of a query: it leaves the library's state as it is.\<close>

locale kernel_query =
  fixes query :: "kernel \<Rightarrow> 'c ffi_state \<Rightarrow> 'r \<times> 'c ffi_state"
  assumes query_pure: "kernel_live k w \<Longrightarrow> snd (query k w) = w"
begin

lemma on_kernel_pure: "serving s \<Longrightarrow> on_kernel query s = (fst (query (app_kernel s) (app_world s)), s)"
  using query_pure [of "app_kernel s" "app_world s"]
  by (simp add: on_kernel_def serving_def arc_clone_def arc_drop_def case_prod_beta)

lemma request_pure:
  assumes "serving s"
  shows "finish_request (on_kernel query (arc_clone s)) = (fst (query (app_kernel s) (app_world s)), s)"
proof -
  have "kernel_refs s \<ge> 1" using assms by (simp add: serving_def)
  then show ?thesis using on_kernel_pure [OF serving_clone [OF assms]]
    by (simp add: finish_request_def) (simp add: arc_clone_def)
qed

end

interpretation height_query: kernel_query "get_height A" for A
  by unfold_locales simp

interpretation tip_query: kernel_query "chain_tip_query A T" for A T
  by unfold_locales (simp add: chain_tip_query_def get_height_def active_height_def Let_def case_prod_beta split: sum.splits)

interpretation info_query: kernel_query "getblockchaininfo F A T" for F A T
  by unfold_locales (simp add: getblockchaininfo_def get_height_def active_height_def Let_def case_prod_beta split: sum.splits)

interpretation best_query: kernel_query "getbestblockhash A T" for A T
proof
  show "snd (getbestblockhash A T k w) = w" if "kernel_live k w" for k w
    using queries_live(4) [OF that, of A] by (cases "get_best_block_hash A k w") (auto simp: getbestblockhash_def split: sum.splits)
qed

interpretation count_query: kernel_query "getblockcount A" for A
  by unfold_locales (simp add: getblockcount_def get_height_def active_height_def Let_def case_prod_beta split: sum.splits)

interpretation hash_query: kernel_query "getblockhash A T n" for A T n
proof
  show "snd (getblockhash A T n k w) = w" if "kernel_live k w" for k w
    using queries_live(5) [OF that, of A n] by (cases "get_block_hash A k n w") (auto simp: getblockhash_def split: sum.splits)
qed

interpretation tips_query: kernel_query "getchaintips A T" for A T
proof
  show "snd (getchaintips A T k w) = w" if "kernel_live k w" for k w
    using tip_query.query_pure [OF that, of A T] by (cases "chain_tip_query A T k w") (auto simp: getchaintips_def split: sum.splits)
qed

interpretation utxo_query: kernel_query "gettxoutsetinfo F A T" for F A T
proof
  show "snd (gettxoutsetinfo F A T k w) = w" if "kernel_live k w" for k w
    using tip_query.query_pure [OF that, of A T] by (cases "chain_tip_query A T k w") (auto simp: gettxoutsetinfo_def split: sum.splits)
qed

lemmas requests_pure = info_query.request_pure best_query.request_pure count_query.request_pure hash_query.request_pure
  tips_query.request_pure utxo_query.request_pure

lemma flushstate_pure:
  assumes "serving s"
  shows "snd (flushstate A (arc_clone s)) = s"
proof -
  have "kernel_refs s \<ge> 1" using assms by (simp add: serving_def)
  with height_query.on_kernel_pure [OF serving_clone [OF assms], of A] show ?thesis by (simp add: flushstate_def)
qed

lemma rpc_handle_state:
  fixes F :: "'b f64_ops"
  assumes "serving s"
  shows "snd (rpc_handle F A T ord q s) =
    (if q = Stop \<and> shutdown_tx s then s\<lparr>shutdown_tx := False, shutdown_signals := shutdown_signals s + 1\<rparr> else s)"
proof -
  have "kernel_refs s \<ge> 1" using assms by (simp add: serving_def)
  then have "finish_request (r, arc_clone s) = (r, s)" for r :: "status_code + 'b json"
    by (simp add: finish_request_def)
  moreover have "snd (finish_request (stop (arc_clone s) :: (status_code + 'b json) \<times> _)) =
      (if shutdown_tx s then s\<lparr>shutdown_tx := False, shutdown_signals := shutdown_signals s + 1\<rparr> else s)"
    using \<open>kernel_refs s \<ge> 1\<close> by (simp add: finish_request_def stop_def arc_clone_def arc_drop_def)
  ultimately show ?thesis
    using assms by (cases q) (simp_all add: requests_pure flushstate_pure)
qed

section \<open>Properties\<close>


text \<open>The block queries agree: where the active chain has a tip, \<open>getbestblockhash\<close> answers
  what \<open>getblockhash\<close> answers at the height of \<open>getblockcount\<close>, and above it, where the
  chain has no entry, \<open>getblockhash\<close> answers 404.\<close>

theorem rpc_tip_consistent:
  assumes "kernel_live k w" and "hm_get (chains w) (k_chainman k) = Some c" and "active_chain A c = Some ch"
    and "chain_by_height ch (chain_height ch) = chain_tip ch" and "chain_tip ch = Some (Some h)"
    and "chain_by_height ch n = None"
  shows "fst (getblockcount A k w) = Inr (JObj [(''result'', JInt (sint (chain_height ch)) :: 'f json)]) \<and>
    fst (getblockhash A T (chain_height ch) k w) = Inr (JObj [(''result'', JStr (hash_to_string T h) :: 'f json)]) \<and>
    fst (getbestblockhash A T k w) = (fst (getblockhash A T (chain_height ch) k w) :: status_code + 'f json) \<and>
    fst (getblockhash A T n k w) = (Inl NOT_FOUND :: status_code + 'f json)"
  using assms
  by (simp add: getblockcount_def getblockhash_def getbestblockhash_def get_height_def active_height_def get_best_block_hash_def
      get_block_hash_def get_active_chain_def result_obj_def)

text \<open>The mempool queries agree with the pool and with each other: \<open>getrawmempool\<close> lists the
  id of every transaction exactly once, as many as \<open>getmempoolinfo\<close> reports, and the
  verbose form has exactly those ids as keys.\<close>

theorem rpc_mempool_views:
  assumes "hm_wf (entries mp)" and "iteration_order ord"
  shows "\<exists>ids fields. getrawmempool F T ord False mp = Inr (JArr (map (\<lambda>t. JStr (txid_to_string T t)) ids)) \<and>
    distinct ids \<and> set ids = {t. contains t mp} \<and>
    getmempoolinfo F mp = Inr (JObj fields) \<and> hm_get fields ''size'' = Some (JInt (int (length ids))) \<and>
    (\<exists>obj. getrawmempool F T ord True mp = Inr (JObj obj) \<and> fst ` set obj = txid_to_string T ` set ids)"
proof -
  let ?ids = "get_all_txids ord mp"
  have "distinct (hm_keys (entries mp))" using assms(1) by (simp add: hm_wf_def hm_keys_def)
  then have d: "distinct ?ids" "set ?ids = {t. contains t mp}" "length ?ids = length (entries mp)"
    using iteration_orderD [OF assms(2), of "hm_keys (entries mp)"]
    by (auto simp: get_all_txids_def contains_def hm_contains_iff hm_keys_def)
  have keys: "fst ` set (fold (\<lambda>t. hm_insert (txid_to_string T t) v) ts m) = txid_to_string T ` set ts \<union> fst ` set m" for ts v m
    by (induction ts arbitrary: m) (auto simp: dom_update)
  have "\<exists>fields. getmempoolinfo F mp = Inr (JObj fields) \<and> hm_get fields ''size'' = Some (JInt (int (length ?ids)))"
    using d(3) by (simp add: getmempoolinfo_def mempool_get_stats_def mempool_size_def Let_def)
  moreover have "\<exists>obj. getrawmempool F T ord True mp = Inr (JObj obj) \<and> fst ` set obj = txid_to_string T ` set ?ids"
    using keys [of _ ?ids "[]"] by (simp add: getrawmempool_def)
  moreover have "getrawmempool F T ord False mp = Inr (JArr (map (\<lambda>t. JStr (txid_to_string T t)) ?ids))"
    by (simp add: getrawmempool_def)
  ultimately show ?thesis using d(1,2) by blast
qed

section \<open>Concrete requests\<close>

definition unit_f64 :: "unit f64_ops" where
  "unit_f64 = \<lparr>f64_lit = (\<lambda>_ _. ()), f64_add = (\<lambda>_ _. ()), f64_sub = (\<lambda>_ _. ()), f64_mul = (\<lambda>_ _. ()),
     f64_div = (\<lambda>_ _. ()), f64_min = (\<lambda>_ _. ()), f64_max = (\<lambda>_ _. ()), f64_le = (\<lambda>_ _. True)\<rparr>"

definition sample_text :: hash_text where
  "sample_text = \<lparr>hash_to_string = (\<lambda>h. if h = 7 then ''seven'' else ''other''), hash_from_string = (\<lambda>s. Some (of_nat (length s))),
     txid_to_string = (\<lambda>t. replicate (unat t) CHR ''t'')\<rparr>"

definition serving_state :: "block_hash list app_state" where
  "serving_state = \<lparr>app_world = started, app_kernel = sample_kernel, kernel_refs = 3, app_mempool = mempool_new policy_default,
     shutdown_tx = True, shutdown_signals = 0\<rparr>"

lemma started_live: "kernel_live sample_kernel started"
  by (simp add: kernel_live_def ledger_ok_def started_def sample_kernel_def)

lemma serving_state_ok: "serving serving_state"
  by (simp add: serving_def serving_state_def started_live)


theorem rpc_tip_consistent_witness:
  "fst (getbestblockhash list_api sample_text sample_kernel started) = (Inr (JObj [(''result'', JStr ''seven'')]) :: status_code + unit json) \<and>
   fst (getblockhash list_api sample_text 1 sample_kernel started) = (Inl NOT_FOUND :: status_code + unit json)"
proof -
  have c: "hm_get (chains started) (k_chainman sample_kernel) = Some [7]" by (simp add: started_def sample_kernel_def)
  define ch where "ch = \<lparr>chain_height = 0, chain_genesis = Some (Some 7), chain_tip = Some (Some 7),
     chain_by_height = (\<lambda>n :: i32. if unat n < length [7 :: block_hash] then Some (Some ([7] ! unat n)) else None)\<rparr>"
  have "active_chain list_api [7] = Some ch" by (simp add: list_api_def list_chain_def ch_def)
  from rpc_tip_consistent [OF started_live c this, of 7 1 sample_text, where ?'f = unit] show ?thesis
    by (simp add: ch_def sample_text_def)
qed

theorem rpc_mempool_views_witness:
  "\<exists>fields. getmempoolinfo unit_f64 (mempool_new policy_default) = Inr (JObj fields) \<and> hm_get fields ''size'' = Some (JInt 0)"
proof -
  have "hm_wf (entries (mempool_new policy_default))" by (simp add: mempool_new_def)
  from rpc_mempool_views [OF this iteration_order_id, of unit_f64 sample_text] obtain ids fields where
    "set ids = {t. contains t (mempool_new policy_default)}" "getmempoolinfo unit_f64 (mempool_new policy_default) = Inr (JObj fields)"
    "hm_get fields ''size'' = Some (JInt (int (length ids)))" by blast
  then show ?thesis by (simp add: contains_def hm_contains_def mempool_new_def)
qed

section \<open>Departures from the intent\<close>

text \<open>\<open>flushstate\<close> says that the state was flushed and the kernel destroyed; the server's own
  \<open>Arc\<close> is still there, so nothing is dropped.\<close>

lemma flushstate_does_not_flush:
  assumes "serving s"
  shows "\<exists>h. rpc_handle F A T ord FlushState s =
    (Inr (result_obj (JObj [(''height'', h), (''message'', JStr ''State flushed to disk. Restart node to continue syncing.'')])), s)"
  using flushstate_pure [OF assms, of A] by (auto simp: flushstate_def Let_def case_prod_beta prod_eq_iff)

text \<open>\<open>getblockchaininfo\<close> reports signet on every network.\<close>

lemma chain_name_fixed:
  "fst (getblockchaininfo F A T k w) = Inr (JObj fs) \<Longrightarrow> hm_get fs ''chain'' = Some (JStr ''signet'')"
  by (auto simp: getblockchaininfo_def get_height_def active_height_def Let_def case_prod_beta split: if_splits)

end
