(* ===== verification/Rpc_Network.thy ===== *)
theory Rpc_Network
  imports Conn_Man Rpc_Blockchain
begin

text \<open>
  The handlers of \<^verbatim>\<open>src/rpc/network.rs\<close> over the connection manager, with the answers of
  \<open>Rpc_Blockchain\<close>.  Printing and parsing of socket addresses are the functions of the
  record \<open>addr_text\<close>.  \<open>busy\<close>, \<open>now\<close> and \<open>dial_ok\<close> are those of \<open>Conn_Man\<close>.
\<close>

record addr_text =
  addr_to_string :: "socket_addr \<Rightarrow> string"
  addr_from_string :: "string \<Rightarrow> socket_addr option"

text \<open>What the standard library documents: an address printed is parsed back.\<close>

definition addr_codec :: "addr_text \<Rightarrow> bool" where
  "addr_codec T \<longleftrightarrow> (\<forall>a. addr_from_string T (addr_to_string T a) = Some a)"

abbreviation null_result :: "status_code + 'f json" where
  "null_result \<equiv> Inr (result_obj JNull)"

section \<open>Queries\<close>

definition network_details :: "string \<Rightarrow> 'f json" where
  "network_details name =
     JObj [(''name'', JStr name), (''limited'', JBool False), (''reachable'', JBool True), (''proxy'', JStr []),
       (''proxy_randomize_credentials'', JBool False)]"

definition getnetworkinfo :: "'f f64_ops \<Rightarrow> bool \<Rightarrow> 'n connman \<Rightarrow> status_code + 'f json" where
  "getnetworkinfo F table_busy m =
     (let connections = num_connections table_busy m
      in Inr (JObj
        [(''version'', JInt 270000), (''subversion'', JStr ''/btck-rust-node:0.1.0/''), (''protocolversion'', JInt 70016),
         (''localservices'', JStr ''0000000000000409''),
         (''localservicesnames'', JArr [JStr ''NETWORK'', JStr ''WITNESS'']), (''localrelay'', JBool True),
         (''timeoffset'', JInt 0), (''networkactive'', JBool True), (''connections'', JInt (int connections)),
         (''networks'', JArr [network_details ''ipv4'', network_details ''ipv6'']),
         (''relayfee'', JF64 (f64_lit F 1 100000)), (''incrementalfee'', JF64 (f64_lit F 1 100000)),
         (''localaddresses'', JArr []), (''warnings'', JStr [])]))"

record 'f peer_info =
  pi_id :: u64
  pi_addr :: string
  pi_addrbind :: string
  pi_services :: string
  pi_servicesnames :: "string list"
  pi_relaytxes :: bool
  pi_lastsend :: i64
  pi_lastrecv :: i64
  pi_bytessent :: u64
  pi_bytesrecv :: u64
  pi_conntime :: i64
  pi_timeoffset :: i64
  pi_pingtime :: "'f option"
  pi_minping :: "'f option"
  pi_version :: i32
  pi_subver :: string
  pi_inbound :: bool
  pi_startingheight :: i32
  pi_banscore :: i32
  pi_synced_headers :: i32
  pi_synced_blocks :: i32

definition option_json :: "'f option \<Rightarrow> 'f json" where
  "option_json x = (case x of None \<Rightarrow> JNull | Some f \<Rightarrow> JF64 f)"

definition peer_info_json :: "'f peer_info \<Rightarrow> 'f json" where
  "peer_info_json p = JObj
     [(''id'', JInt (uint (pi_id p))), (''addr'', JStr (pi_addr p)), (''addrbind'', JStr (pi_addrbind p)),
      (''services'', JStr (pi_services p)), (''servicesnames'', JArr (map JStr (pi_servicesnames p))),
      (''relaytxes'', JBool (pi_relaytxes p)), (''lastsend'', JInt (sint (pi_lastsend p))),
      (''lastrecv'', JInt (sint (pi_lastrecv p))), (''bytessent'', JInt (uint (pi_bytessent p))),
      (''bytesrecv'', JInt (uint (pi_bytesrecv p))), (''conntime'', JInt (sint (pi_conntime p))),
      (''timeoffset'', JInt (sint (pi_timeoffset p))), (''pingtime'', option_json (pi_pingtime p)),
      (''minping'', option_json (pi_minping p)), (''version'', jint (pi_version p)), (''subver'', JStr (pi_subver p)),
      (''inbound'', JBool (pi_inbound p)), (''startingheight'', jint (pi_startingheight p)),
      (''banscore'', jint (pi_banscore p)), (''synced_headers'', jint (pi_synced_headers p)),
      (''synced_blocks'', jint (pi_synced_blocks p))]"

definition getpeerinfo :: "('n conn_node \<Rightarrow> 'f peer_info) \<Rightarrow> (node_id \<Rightarrow> bool) \<Rightarrow> 'n connman \<Rightarrow> status_code + 'f json" where
  "getpeerinfo info busy m = Inr (JArr (map peer_info_json (get_peer_info info busy m)))"

definition getconnectioncount :: "bool \<Rightarrow> 'n connman \<Rightarrow> status_code + 'f json" where
  "getconnectioncount table_busy m = Inr (result_obj (JInt (int (num_connections table_busy m))))"

section \<open>Commands\<close>

record add_node_params =
  an_node :: string
  an_command :: string

definition addnode ::
  "addr_text \<Rightarrow> ('n conn_node list \<Rightarrow> 'n conn_node list) \<Rightarrow> 'n \<Rightarrow> i64 \<Rightarrow> bool \<Rightarrow> (node_id \<Rightarrow> bool) \<Rightarrow> add_node_params \<Rightarrow>
   'n connman \<Rightarrow> (status_code + 'f json) \<times> 'n connman" where
  "addnode T ord fresh now dial_ok busy params m =
     (if an_command params = ''add'' then
        (case addr_from_string T (an_node params) of
           None \<Rightarrow> (Inl BAD_REQUEST, m)
         | Some addr \<Rightarrow>
             (case add_node ord fresh now dial_ok addr m of
                (Inl _, m) \<Rightarrow> (Inl INTERNAL_SERVER_ERROR, m)
              | (Inr _, m) \<Rightarrow> (null_result, m)))
      else if an_command params = ''remove'' then
        (case addr_from_string T (an_node params) of
           None \<Rightarrow> (Inl BAD_REQUEST, m)
         | Some addr \<Rightarrow> (null_result, remove_node busy addr m))
      else if an_command params = ''onetry'' then
        (case addr_from_string T (an_node params) of
           None \<Rightarrow> (Inl BAD_REQUEST, m)
         | Some addr \<Rightarrow>
             (case connect_onetry ord fresh now dial_ok addr m of
                (Inl _, m) \<Rightarrow> (Inl INTERNAL_SERVER_ERROR, m)
              | (Inr _, m) \<Rightarrow> (null_result, m)))
      else (Inl BAD_REQUEST, m))"

record disconnect_node_params =
  dn_address :: "string option"
  dn_nodeid :: "u64 option"

definition disconnectnode ::
  "addr_text \<Rightarrow> (node_id \<Rightarrow> bool) \<Rightarrow> disconnect_node_params \<Rightarrow> 'n connman \<Rightarrow> (status_code + 'f json) \<times> 'n connman" where
  "disconnectnode T busy params m =
     (case dn_nodeid params of
        Some nodeid \<Rightarrow> (null_result, disconnect_node nodeid m)
      | None \<Rightarrow>
          (case dn_address params of
             Some address \<Rightarrow>
               (case addr_from_string T address of
                  None \<Rightarrow> (Inl BAD_REQUEST, m)
                | Some addr \<Rightarrow> (null_result, disconnect_by_address busy addr m))
           | None \<Rightarrow> (Inl BAD_REQUEST, m)))"

definition added_node_json :: "added_node_info \<Rightarrow> 'f json" where
  "added_node_json a = JObj
     [(''addednode'', JStr (addednode a)), (''connected'', JBool (an_connected a)),
      (''addresses'', JArr (map (\<lambda>(x, c). JObj [(''address'', JStr x), (''connected'', JStr c)]) (an_addresses a)))]"

definition getaddednodeinfo ::
  "addr_text \<Rightarrow> (node_id \<Rightarrow> bool) \<Rightarrow> string option \<Rightarrow> 'n connman \<Rightarrow> status_code + 'f json" where
  "getaddednodeinfo T busy node m =
     (let added_nodes = get_added_nodes (addr_to_string T) busy m;
          result = (case node of Some node \<Rightarrow> filter (\<lambda>n. addednode n = node) added_nodes | None \<Rightarrow> added_nodes)
      in Inr (JArr (map added_node_json result)))"

definition getnettotals :: "i64 \<Rightarrow> 'n connman \<Rightarrow> status_code + 'f json" where
  "getnettotals timemillis m =
     (let (bytes_recv, bytes_sent) = get_net_totals m
      in Inr (JObj
        [(''totalbytesrecv'', JInt (uint bytes_recv)), (''totalbytessent'', JInt (uint bytes_sent)),
         (''timemillis'', JInt (sint timemillis)),
         (''uploadtarget'', JObj
            [(''timeframe'', JInt 86400), (''target'', JInt 0), (''target_reached'', JBool False),
             (''serve_historical_blocks'', JBool True), (''bytes_left_in_cycle'', JInt 0), (''time_left_in_cycle'', JInt 0)])]))"

definition getnetworkactive :: "'n connman \<Rightarrow> status_code + 'f json" where
  "getnetworkactive m = Inr (result_obj (JBool (is_network_active m)))"

definition setnetworkactive :: "bool \<Rightarrow> 'n connman \<Rightarrow> (status_code + 'f json) \<times> 'n connman" where
  "setnetworkactive state m = (Inr (result_obj (JBool state)), set_network_active state m)"

definition banned_node_json :: "banned_node \<Rightarrow> 'f json" where
  "banned_node_json b = JObj
     [(''address'', JStr (bn_address b)), (''banned_until'', JInt (sint (bn_banned_until b))),
      (''ban_created'', JInt (sint (bn_ban_created b))), (''ban_reason'', JStr (bn_ban_reason b))]"

definition listbanned ::
  "((string \<times> ban_entry) list \<Rightarrow> (string \<times> ban_entry) list) \<Rightarrow> 'n connman \<Rightarrow> status_code + 'f json" where
  "listbanned ord m = Inr (JArr (map banned_node_json (get_banned_list ord m)))"

record set_ban_params =
  sb_subnet :: string
  sb_command :: string
  sb_bantime :: "i64 option"
  sb_absolute :: bool

definition setban :: "i64 \<Rightarrow> set_ban_params \<Rightarrow> 'n connman \<Rightarrow> (status_code + 'f json) \<times> 'n connman" where
  "setban now params m =
     (if sb_command params = ''add'' then
        let bantime = (case sb_bantime params of Some t \<Rightarrow> t | None \<Rightarrow> 86400)
        in (null_result, ban_node now (sb_subnet params) bantime (sb_absolute params) m)
      else if sb_command params = ''remove'' then (null_result, unban_node (sb_subnet params) m)
      else (Inl BAD_REQUEST, m))"

definition clearbanned :: "'n connman \<Rightarrow> (status_code + 'f json) \<times> 'n connman" where
  "clearbanned m = (null_result, clear_banned m)"

definition ping :: "'n node_api \<Rightarrow> (node_id \<Rightarrow> bool) \<Rightarrow> 'n connman \<Rightarrow> (status_code + 'f json) \<times> 'n connman" where
  "ping N busy m = (null_result, ping_all N busy m)"

section \<open>Runs of requests\<close>

text \<open>The requests that may change the manager, with what the world answers in them, and the
  events that come from the network.\<close>

datatype 'n net_input =
  Rq_addnode "'n conn_node list \<Rightarrow> 'n conn_node list" 'n i64 bool "node_id \<Rightarrow> bool" add_node_params
| Rq_disconnectnode "node_id \<Rightarrow> bool" disconnect_node_params
| Rq_setnetworkactive bool
| Rq_setban i64 set_ban_params
| Rq_clearbanned
| Rq_ping "'n node_api" "node_id \<Rightarrow> bool"
| Net_event "'n conn_event"

fun net_input_step :: "addr_text \<Rightarrow> 'n net_input \<Rightarrow> 'n connman \<Rightarrow> 'n connman" where
  "net_input_step T (Rq_addnode ord fresh now dial busy params) m =
     snd (addnode T ord fresh now dial busy params m :: (status_code + unit json) \<times> _)"
| "net_input_step T (Rq_disconnectnode busy params) m = snd (disconnectnode T busy params m :: (status_code + unit json) \<times> _)"
| "net_input_step T (Rq_setnetworkactive b) m = snd (setnetworkactive b m :: (status_code + unit json) \<times> _)"
| "net_input_step T (Rq_setban now params) m = snd (setban now params m :: (status_code + unit json) \<times> _)"
| "net_input_step T Rq_clearbanned m = snd (clearbanned m :: (status_code + unit json) \<times> _)"
| "net_input_step T (Rq_ping N busy) m = snd (ping N busy m :: (status_code + unit json) \<times> _)"
| "net_input_step T (Net_event e) m = conn_step e m"

fun net_input_ok :: "bool \<Rightarrow> 'n net_input \<Rightarrow> bool" where
  "net_input_ok idle (Rq_addnode ord fresh now dial busy params) = iteration_order ord"
| "net_input_ok idle (Net_event e) = conn_event_ok idle e"
| "net_input_ok idle _ = True"

lemma addnode_state:
  "snd (addnode T ord fresh now dial busy params m) =
     (case addr_from_string T (an_node params) of
        None \<Rightarrow> m
      | Some addr \<Rightarrow>
          if an_command params = ''add'' then conn_step (Ev_add_node ord fresh now dial addr) m
          else if an_command params = ''remove'' then conn_step (Ev_remove_node busy addr) m
          else if an_command params = ''onetry'' then conn_step (Ev_connect ord fresh now dial addr) m
          else m)"
  by (simp add: addnode_def connect_onetry_def split: option.splits prod.splits sum.splits)

text \<open>A request is one event of the manager, or changes nothing.\<close>

lemma event_among:
  assumes "x \<in> insert m ((\<lambda>e. conn_step e m) ` E)" and "\<forall>e\<in>E. conn_event_ok idle e"
  shows "x = m \<or> (\<exists>e. conn_event_ok idle e \<and> x = conn_step e m)"
  using assms by blast

lemma addnode_is_event:
  assumes "iteration_order ord" and "x = snd (addnode T ord fresh now dial busy params m)"
  shows "x = m \<or> (\<exists>e. conn_event_ok idle e \<and> x = conn_step e m)"
proof (cases "addr_from_string T (an_node params)")
  case None
  with assms(2) show ?thesis by (simp add: addnode_state)
next
  case (Some addr)
  let ?E = "{Ev_add_node ord fresh now dial addr, Ev_remove_node busy addr, Ev_connect ord fresh now dial addr}"
  from Some assms(2) have "x \<in> insert m ((\<lambda>e. conn_step e m) ` ?E)"
    by (simp add: addnode_state del: conn_step.simps)
  then show ?thesis by (rule event_among) (use assms in simp)
qed

lemma net_input_is_event:
  assumes "net_input_ok idle i"
  shows "net_input_step T i m = m \<or> (\<exists>e. conn_event_ok idle e \<and> net_input_step T i m = conn_step e m)"
proof (cases i)
  case (Rq_addnode ord fresh now dial busy params)
  with assms addnode_is_event [OF _ refl] show ?thesis by simp
next
  case (Rq_disconnectnode busy params)
  let ?E = "case dn_nodeid params of Some k \<Rightarrow> {Ev_disconnect k} | None \<Rightarrow>
    (case dn_address params of Some a \<Rightarrow> (case addr_from_string T a of Some addr \<Rightarrow> {Ev_disconnect_by busy addr} | None \<Rightarrow> {}) | None \<Rightarrow> {})"
  have "net_input_step T i m \<in> insert m ((\<lambda>e. conn_step e m) ` ?E)"
    by (simp add: Rq_disconnectnode disconnectnode_def split: option.splits)
  then show ?thesis by (rule event_among) (simp split: option.splits)
next
  case (Rq_setnetworkactive b)
  then have "net_input_step T i m \<in> insert m ((\<lambda>e. conn_step e m) ` {Ev_set_active b})" by (simp add: setnetworkactive_def)
  then show ?thesis by (rule event_among) simp
next
  case (Rq_setban now params)
  let ?E = "{Ev_unban (sb_subnet params),
    Ev_ban now (sb_subnet params) (case sb_bantime params of Some t \<Rightarrow> t | None \<Rightarrow> 86400) (sb_absolute params)}"
  have "net_input_step T i m \<in> insert m ((\<lambda>e. conn_step e m) ` ?E)" by (simp add: Rq_setban setban_def)
  then show ?thesis by (rule event_among) simp
next
  case Rq_clearbanned
  then have "net_input_step T i m \<in> insert m ((\<lambda>e. conn_step e m) ` {Ev_clear_bans})" by (simp add: clearbanned_def)
  then show ?thesis by (rule event_among) simp
next
  case (Rq_ping N busy)
  then have "net_input_step T i m \<in> insert m ((\<lambda>e. conn_step e m) ` {Ev_ping_all N busy})" by (simp add: ping_def)
  then show ?thesis by (rule event_among) simp
next
  case (Net_event e)
  with assms show ?thesis by auto
qed

lemma net_run_invar:
  "conn_invar idle n m \<Longrightarrow> n + length is < 2 ^ 64 \<Longrightarrow> list_all (net_input_ok idle) is \<Longrightarrow>
     conn_invar idle (n + length is) (fold (net_input_step T) is m) \<and> cm_config (fold (net_input_step T) is m) = cm_config m"
proof (induction "is" arbitrary: n m)
  case Nil
  then show ?case by simp
next
  case (Cons i "is")
  from Cons.prems have ok: "net_input_ok idle i" and n: "Suc n < 2 ^ 64" by simp_all
  have "conn_invar idle (Suc n) (net_input_step T i m)"
    using net_input_is_event [OF ok, of T m] conn_invar_step [OF Cons.prems(1) n] conn_invar_mono [OF Cons.prems(1), of "Suc n"]
    by auto
  moreover have "cm_config (net_input_step T i m) = cm_config m"
    using net_input_is_event [OF ok, of T m] conn_step_config by auto
  ultimately show ?case using Cons.IH [of "Suc n" "net_input_step T i m"] Cons.prems by simp
qed


definition sample_addr_text :: addr_text where
  "sample_addr_text = \<lparr>addr_to_string = (\<lambda>a. case a of SocketAddrV4 h p \<Rightarrow> replicate (unat h) CHR ''4'' @ CHR '':'' # replicate (unat p) CHR ''p''
      | SocketAddrV6 h p \<Rightarrow> replicate (unat h) CHR ''6'' @ CHR '';'' # replicate (unat p) CHR ''p''),
     addr_from_string = (\<lambda>s. let h = takeWhile (\<lambda>c. c \<noteq> CHR '':'' \<and> c \<noteq> CHR '';'') s; r = drop (length h) s
       in case r of [] \<Rightarrow> None | c # p \<Rightarrow>
         Some (if c = CHR '':'' then SocketAddrV4 (of_nat (length h)) (of_nat (length p))
               else SocketAddrV6 (of_nat (length h)) (of_nat (length p))))\<rparr>"

lemma sample_addr_codec: "addr_codec sample_addr_text"
proof -
  have "takeWhile P (replicate n x @ c # ys) = replicate n x" if "P x" "\<not> P c" for P n and x :: char and c ys
    using that by (induction n) simp_all
  then show ?thesis by (simp add: addr_codec_def sample_addr_text_def Let_def split: socket_addr.splits)
qed

text \<open>A node added by request and one accepted, then both counted.\<close>

definition sample_inputs :: "unit net_input list" where
  "sample_inputs =
     [Rq_addnode (\<lambda>ns. ns) () 0 True (\<lambda>_. False) \<lparr>an_node = ''4:p'', an_command = ''add''\<rparr>,
      Net_event (Ev_accept () 0 (\<lambda>_. False) (SocketAddrV4 2 1)),
      Net_event (Ev_accept () 0 (\<lambda>_. False) (SocketAddrV4 3 1))]"

definition sample_config :: connection_config where
  "sample_config = connection_config_default\<lparr>max_inbound := 1\<rparr>"


section \<open>Round trips\<close>

lemma added_lines:
  assumes "addr_codec T"
  shows "getaddednodeinfo T busy (Some (addr_to_string T a)) m =
    Inr (JArr (replicate (count_list (added_nodes m) a) (JObj [(''addednode'', JStr (addr_to_string T a)),
      (''connected'', JBool (list_ex (\<lambda>n. \<not> busy (node_id n) \<and> node_addr n = a) (hm_values (nodes m)))), (''addresses'', JArr [])])))"
proof -
  have inj: "addr_to_string T b = addr_to_string T a \<longleftrightarrow> b = a" for b
    using assms by (metis addr_codec_def option.inject)
  have "map added_node_json (filter (\<lambda>n. addednode n = addr_to_string T a)
      (map (\<lambda>addr. \<lparr>addednode = addr_to_string T addr, an_connected = P addr, an_addresses = []\<rparr>) xs)) =
    replicate (count_list xs a) (JObj [(''addednode'', JStr (addr_to_string T a)), (''connected'', JBool (P a)), (''addresses'', JArr [])])"
    for P xs by (induction xs) (auto simp: inj added_node_json_def)
  then show ?thesis by (simp add: getaddednodeinfo_def get_added_nodes_def Let_def)
qed

lemma conn_connect_added: "added_nodes (snd (conn_connect ord fresh now dial addr m)) = added_nodes m"
  by (simp add: conn_connect_def register_node_def next_node_id_def split: option.splits)

lemma addnode_add_lines:
  fixes m :: "'n connman"
  assumes "addr_codec T" and "iteration_order ord"
    and add: "addnode T ord fresh now dial busy \<lparr>an_node = addr_to_string T a, an_command = ''add''\<rparr> m = (null_result :: status_code + 'f json, m1)"
  shows "added_nodes m1 = added_nodes m @ [a] \<and> list_ex (\<lambda>n. node_addr n = a) (hm_values (nodes m1))"
proof -
  let ?m = "m\<lparr>added_nodes := added_nodes m @ [a]\<rparr>"
  obtain i where "conn_connect ord fresh now dial a ?m = (Inr i, m1)"
    using add assms(1) by (auto simp: addnode_def add_node_def addr_codec_def split: prod.splits sum.splits)
  with connected_after_connect [OF assms(2) this] conn_connect_added [of ord fresh now dial a ?m] show ?thesis by simp
qed



definition ban_json :: "string \<Rightarrow> ban_entry \<Rightarrow> 'f json" where
  "ban_json subnet e = banned_node_json \<lparr>bn_address = subnet, bn_banned_until = banned_until e, bn_ban_created = ban_created e,
     bn_ban_reason = ban_reason e\<rparr>"

lemma listbanned_exact:
  assumes "hm_wf (banned m)" and "iteration_order ord"
  shows "\<exists>js. listbanned ord m = Inr (JArr js) \<and> length js = length (banned m) \<and>
    set js = {ban_json s e |s e. hm_get (banned m) s = Some e}"
proof -
  have "map banned_node_json (get_banned_list ord m) = map (\<lambda>(s, e). ban_json s e) (ord (banned m))"
    by (simp add: get_banned_list_def ban_json_def case_prod_beta)
  moreover have "set (map (\<lambda>(s, e). ban_json s e) (ord (banned m))) = {ban_json s e |s e. hm_get (banned m) s = Some e}"
    unfolding set_map iteration_orderD(1) [OF assms(2)] using hm_get_in_set [OF assms(1)] by force
  moreover have "length (ord (banned m)) = length (banned m)"
    by (rule iteration_orderD(2) [OF assms(2)])
  ultimately show ?thesis
    by (intro exI [of _ "map (\<lambda>(s, e). ban_json s e) (ord (banned m))"]) (simp add: listbanned_def)
qed

text \<open>The answer is \<open>null\<close>, and \<open>listbanned\<close> shows each of the bans, once.\<close>

definition bans_shown ::
  "((string \<times> ban_entry) list \<Rightarrow> (string \<times> ban_entry) list) \<Rightarrow> (status_code + 'f json) \<times> 'n connman \<Rightarrow> (string \<rightharpoonup> ban_entry) \<Rightarrow> bool" where
  "bans_shown ord = (\<lambda>(r, m') bans. r = null_result \<and>
     (\<exists>js. listbanned ord m' = Inr (JArr js) \<and> length js = card (dom bans) \<and>
       set js = {ban_json s e :: 'f json |s e. bans s = Some e}))"

lemma bans_shownI:
  assumes "hm_wf (banned m')" and "iteration_order ord" and "hm_get (banned m') = bans"
  shows "bans_shown ord (null_result, m') bans"
proof -
  have "card (dom bans) = length (banned m')"
    using assms(1,3) by (metis distinct_card dom_map_of_conv_image_fst hm_wf_def length_map list.set_map)
  with listbanned_exact [OF assms(1,2)] assms(3) show ?thesis by (auto simp: bans_shown_def)
qed

text \<open>Setting a ban: \<open>add\<close> makes \<open>listbanned\<close> show exactly the old bans with the subnet's entry
  replaced by one that ends after the given time, a day if none is given, counted from now unless
  it is absolute; \<open>remove\<close> takes exactly that entry away; any other command is refused and changes
  nothing; \<open>clearbanned\<close> leaves none.\<close>

theorem setban_roundtrip:
  fixes m :: "'n connman"
  assumes "hm_wf (banned m)" and "iteration_order ord" and "c \<notin> {''add'', ''remove''}"
  shows "bans_shown ord (setban now \<lparr>sb_subnet = s, sb_command = ''add'', sb_bantime = bt, sb_absolute = absolute\<rparr> m ::
        (status_code + 'f json) \<times> _)
      ((hm_get (banned m))(s \<mapsto> \<lparr>banned_until = (if absolute then 0 else now) + (case bt of Some t \<Rightarrow> t | None \<Rightarrow> 86400),
         ban_created = now, ban_reason = ''manually added''\<rparr>)) \<and>
    bans_shown ord (setban now \<lparr>sb_subnet = s, sb_command = ''remove'', sb_bantime = bt, sb_absolute = absolute\<rparr> m ::
        (status_code + 'f json) \<times> _) ((hm_get (banned m))(s := None)) \<and>
    setban now \<lparr>sb_subnet = s, sb_command = c, sb_bantime = bt, sb_absolute = absolute\<rparr> m =
      (Inl BAD_REQUEST :: status_code + 'f json, m) \<and>
    bans_shown ord (clearbanned m :: (status_code + 'f json) \<times> _) Map.empty"
proof (intro conjI)
  let ?entry = "\<lparr>banned_until = (if absolute then 0 else now) + (case bt of Some t \<Rightarrow> t | None \<Rightarrow> 86400),
    ban_created = now, ban_reason = ''manually added''\<rparr>"
  have added: "setban now \<lparr>sb_subnet = s, sb_command = ''add'', sb_bantime = bt, sb_absolute = absolute\<rparr> m =
      (null_result :: status_code + 'f json, m\<lparr>banned := hm_insert s ?entry (banned m)\<rparr>)"
    by (simp add: setban_def ban_node_def)
  have removed: "setban now \<lparr>sb_subnet = s, sb_command = ''remove'', sb_bantime = bt, sb_absolute = absolute\<rparr> m =
      (null_result :: status_code + 'f json, m\<lparr>banned := hm_remove s (banned m)\<rparr>)"
    by (simp add: setban_def unban_node_def)
  show "bans_shown ord (setban now \<lparr>sb_subnet = s, sb_command = ''add'', sb_bantime = bt, sb_absolute = absolute\<rparr> m ::
        (status_code + 'f json) \<times> _)
((hm_get (banned m))(s \<mapsto> ?entry))"
    unfolding added by (rule bans_shownI) (use assms in \<open>simp_all add: hm_wf_insert hm_simps\<close>)
  show "bans_shown ord (setban now \<lparr>sb_subnet = s, sb_command = ''remove'', sb_bantime = bt, sb_absolute = absolute\<rparr> m ::
        (status_code + 'f json) \<times> _) ((hm_get (banned m))(s := None))"
    unfolding removed by (rule bans_shownI) (use assms in \<open>simp_all add: hm_wf_remove hm_simps\<close>)
  show "setban now \<lparr>sb_subnet = s, sb_command = c, sb_bantime = bt, sb_absolute = absolute\<rparr> m =
      (Inl BAD_REQUEST :: status_code + 'f json, m)"
    using assms by (simp add: setban_def)
  show "bans_shown ord (clearbanned m :: (status_code + 'f json) \<times> _) Map.empty"
    unfolding clearbanned_def clear_banned_def
    using assms by (intro bans_shownI) simp_all
qed

theorem setban_roundtrip_witness:
  "bans_shown (\<lambda>bs. bs) (setban 100 \<lparr>sb_subnet = ''10.0.0.0/8'', sb_command = ''add'', sb_bantime = None, sb_absolute = False\<rparr>
       (connman_new 0 sample_config :: unit connman) :: (status_code + unit json) \<times> _)
     [''10.0.0.0/8'' \<mapsto> \<lparr>banned_until = 86500, ban_created = 100, ban_reason = ''manually added''\<rparr>]"
proof -
  have "hm_wf (banned (connman_new 0 sample_config :: unit connman))" and "''list'' \<notin> {''add'', ''remove''}"
    by (simp_all add: connman_new_def)
  note setban_roundtrip [where 'f = unit, OF this(1) iteration_order_id this(2), of 100 "''10.0.0.0/8''" None False]
  then show ?thesis by (simp add: connman_new_def)
qed

text \<open>The answer of \<open>getnetworkinfo\<close> does not depend on whether the network is switched on.\<close>

lemma networkactive_always_true: "getnetworkinfo F table_busy (set_network_active b m) = getnetworkinfo F table_busy m"
  by (simp add: getnetworkinfo_def num_connections_def set_network_active_def)

end
