(* ===== verification/Rpc_Types.thy ===== *)
theory Rpc_Types
  imports Rpc_Network
begin

text \<open>
  The types of the answers.  The structures that \<^verbatim>\<open>src/rpc/blockchain.rs\<close> and
  \<^verbatim>\<open>src/rpc/network.rs\<close> serialize are JSON types: the names of the fields, in the order
  they are declared, with the ranges of their integers.  Every handler answers with a
  value of the type of its route or with one of the status codes of its route.
\<close>

section \<open>JSON types\<close>

datatype json_type =
  TNull
| TBool
| TInt int int
| TF64
| TStr
| TOption json_type
| TArr json_type
| TObj "(string \<times> json_type) list"
| TMap json_type

abbreviation T_u16 :: json_type where "T_u16 \<equiv> TInt 0 (2 ^ 16)"
abbreviation T_u32 :: json_type where "T_u32 \<equiv> TInt 0 (2 ^ 32)"
abbreviation T_u64 :: json_type where "T_u64 \<equiv> TInt 0 (2 ^ 64)"
abbreviation T_usize :: json_type where "T_usize \<equiv> TInt 0 (2 ^ 64)"
abbreviation T_i32 :: json_type where "T_i32 \<equiv> TInt (- (2 ^ 31)) (2 ^ 31)"
abbreviation T_i64 :: json_type where "T_i64 \<equiv> TInt (- (2 ^ 63)) (2 ^ 63)"

fun has_type :: "json_type \<Rightarrow> 'f json \<Rightarrow> bool" and has_fields :: "(string \<times> json_type) list \<Rightarrow> (string \<times> 'f json) list \<Rightarrow> bool" where
  "has_type TNull JNull = True"
| "has_type TBool (JBool b) = True"
| "has_type (TInt lo hi) (JInt n) = (lo \<le> n \<and> n < hi)"
| "has_type TF64 (JF64 f) = True"
| "has_type TStr (JStr s) = True"
| "has_type (TOption t) v = (v = JNull \<or> has_type t v)"
| "has_type (TArr t) (JArr vs) = list_all (has_type t) vs"
| "has_type (TObj fs) (JObj kvs) = has_fields fs kvs"
| "has_type (TMap t) (JObj kvs) = (distinct (map fst kvs) \<and> list_all (\<lambda>kv. has_type t (snd kv)) kvs)"
| "has_type _ _ = False"
| "has_fields [] [] = True"
| "has_fields ((k, t) # fs) ((k', v) # kvs) = (k = k' \<and> has_type t v \<and> has_fields fs kvs)"
| "has_fields _ _ = False"

text \<open>A value of a 32-bit or 64-bit word is in the range of its type.\<close>

lemma word_ranges [simp]:
  fixes a :: i32 and b :: u64
  shows "- 2147483648 \<le> sint a" "sint a < 2147483648" "- 9223372036854775808 \<le> sint b" "sint b < 9223372036854775808"
    "uint b < 18446744073709551616"
  using sint_range_size [of a] sint_range_size [of b] uint_lt2p [of b] by (simp_all add: word_size)

section \<open>The structures\<close>

definition result_type :: "json_type \<Rightarrow> json_type" where
  "result_type t = TObj [(''result'', t)]"

definition blockchain_info_type :: json_type where
  "blockchain_info_type = TObj
     [(''chain'', TStr), (''blocks'', T_i32), (''headers'', T_i32), (''bestblockhash'', TStr), (''difficulty'', TF64),
      (''mediantime'', T_i64), (''verificationprogress'', TF64), (''initialblockdownload'', TBool), (''size_on_disk'', T_u64)]"

definition chain_tip_type :: json_type where
  "chain_tip_type = TObj [(''height'', T_i32), (''hash'', TStr), (''branchlen'', T_i32), (''status'', TStr)]"

definition mempool_info_type :: json_type where
  "mempool_info_type = TObj
     [(''loaded'', TBool), (''size'', T_usize), (''bytes'', T_usize), (''usage'', T_usize), (''maxmempool'', T_usize),
      (''mempoolminfee'', TF64), (''minrelaytxfee'', TF64)]"

definition tx_out_set_info_type :: json_type where
  "tx_out_set_info_type = TObj
     [(''height'', T_i32), (''bestblock'', TStr), (''transactions'', T_u64), (''txouts'', T_u64), (''bogosize'', T_u64),
      (''hash_serialized_2'', TStr), (''disk_size'', T_u64), (''total_amount'', TF64)]"

definition network_details_type :: json_type where
  "network_details_type = TObj
     [(''name'', TStr), (''limited'', TBool), (''reachable'', TBool), (''proxy'', TStr), (''proxy_randomize_credentials'', TBool)]"

definition local_address_type :: json_type where
  "local_address_type = TObj [(''address'', TStr), (''port'', T_u16), (''score'', T_i32)]"

definition network_info_type :: json_type where
  "network_info_type = TObj
     [(''version'', T_u32), (''subversion'', TStr), (''protocolversion'', T_u32), (''localservices'', TStr),
      (''localservicesnames'', TArr TStr), (''localrelay'', TBool), (''timeoffset'', T_i64), (''networkactive'', TBool),
      (''connections'', T_usize), (''networks'', TArr network_details_type), (''relayfee'', TF64), (''incrementalfee'', TF64),
      (''localaddresses'', TArr local_address_type), (''warnings'', TStr)]"

definition peer_info_type :: json_type where
  "peer_info_type = TObj
     [(''id'', T_u64), (''addr'', TStr), (''addrbind'', TStr), (''services'', TStr), (''servicesnames'', TArr TStr),
      (''relaytxes'', TBool), (''lastsend'', T_i64), (''lastrecv'', T_i64), (''bytessent'', T_u64), (''bytesrecv'', T_u64),
      (''conntime'', T_i64), (''timeoffset'', T_i64), (''pingtime'', TOption TF64), (''minping'', TOption TF64),
      (''version'', T_i32), (''subver'', TStr), (''inbound'', TBool), (''startingheight'', T_i32), (''banscore'', T_i32),
      (''synced_headers'', T_i32), (''synced_blocks'', T_i32)]"

definition added_node_info_type :: json_type where
  "added_node_info_type = TObj
     [(''addednode'', TStr), (''connected'', TBool), (''addresses'', TArr (TObj [(''address'', TStr), (''connected'', TStr)]))]"

definition upload_target_type :: json_type where
  "upload_target_type = TObj
     [(''timeframe'', T_u64), (''target'', T_u64), (''target_reached'', TBool), (''serve_historical_blocks'', TBool),
      (''bytes_left_in_cycle'', T_u64), (''time_left_in_cycle'', T_u64)]"

definition net_totals_type :: json_type where
  "net_totals_type = TObj
     [(''totalbytesrecv'', T_u64), (''totalbytessent'', T_u64), (''timemillis'', T_i64), (''uploadtarget'', upload_target_type)]"

definition banned_node_type :: json_type where
  "banned_node_type = TObj
     [(''address'', TStr), (''banned_until'', T_i64), (''ban_created'', T_i64), (''ban_reason'', TStr)]"

lemmas json_types = result_type_def blockchain_info_type_def chain_tip_type_def mempool_info_type_def tx_out_set_info_type_def
  network_details_type_def local_address_type_def network_info_type_def peer_info_type_def added_node_info_type_def
  upload_target_type_def net_totals_type_def banned_node_type_def

section \<open>The blockchain routes\<close>

fun answer_type :: "rpc_request \<Rightarrow> json_type" where
  "answer_type GetBlockchainInfo = blockchain_info_type"
| "answer_type GetBestBlockHash = result_type TStr"
| "answer_type GetBlockCount = result_type T_i32"
| "answer_type (GetBlockHash n) = result_type TStr"
| "answer_type (GetBlock h v) = TObj [(''error'', TStr), (''blockhash'', TStr)]"
| "answer_type (GetBlockHeader h v) = TObj [(''error'', TStr), (''blockhash'', TStr)]"
| "answer_type GetChainTips = TArr chain_tip_type"
| "answer_type GetDifficulty = result_type TF64"
| "answer_type GetMempoolInfo = mempool_info_type"
| "answer_type (GetRawMempool verbose) =
     (if verbose then TMap (TObj [(''vsize'', T_i32), (''fee'', TF64), (''time'', T_i32)]) else TArr TStr)"
| "answer_type GetTxOut = TNull"
| "answer_type GetTxOutSetInfo = tx_out_set_info_type"
| "answer_type (VerifyChain c n) = result_type TBool"
| "answer_type Stop = result_type TStr"
| "answer_type FlushState = result_type (TObj [(''height'', T_i32), (''message'', TStr)])"

fun answer_errors :: "rpc_request \<Rightarrow> status_code set" where
  "answer_errors (GetBlockHash n) = {NOT_FOUND}"
| "answer_errors (GetBlock h v) = {BAD_REQUEST}"
| "answer_errors (GetBlockHeader h v) = {BAD_REQUEST}"
| "answer_errors req =
     (if req \<in> {GetBlockchainInfo, GetBestBlockHash, GetBlockCount, GetChainTips, GetTxOutSetInfo} then {INTERNAL_SERVER_ERROR} else {})"

definition answered_as :: "status_code set \<Rightarrow> json_type \<Rightarrow> status_code + 'f json \<Rightarrow> bool" where
  "answered_as errors t r = (case r of Inl e \<Rightarrow> e \<in> errors | Inr v \<Rightarrow> has_type t v)"

lemma answered_as_simps [simp]:
  "answered_as es t (Inl e) \<longleftrightarrow> e \<in> es" "answered_as es t (Inr v) \<longleftrightarrow> has_type t v"
  by (simp_all add: answered_as_def)

lemma finish_request_fst [simp]: "fst (finish_request p) = fst p"
  by (simp add: finish_request_def case_prod_beta)

lemma on_kernel_fst: "fst (on_kernel f s) = fst (f (app_kernel s) (app_world s))"
  by (simp add: on_kernel_def arc_clone_def case_prod_beta)

lemma verbose_mempool_typed:
  "has_type (TMap t) (JObj kvs) \<Longrightarrow> has_type t v \<Longrightarrow> has_type (TMap t) (JObj (fold (\<lambda>x. hm_insert (f x) v) xs kvs))"
proof (induction xs arbitrary: kvs)
  case (Cons x xs)
  have "distinct (map fst (hm_insert (f x) v kvs))" using Cons.prems by (simp add: distinct_update)
  moreover have "list_all (\<lambda>kv. has_type t (snd kv)) (hm_insert (f x) v kvs)"
    using Cons.prems by (induction kvs) auto
  ultimately show ?case using Cons by simp
qed simp

lemma kernel_answers_typed:
  "answered_as {INTERNAL_SERVER_ERROR} blockchain_info_type (fst (getblockchaininfo F A T k w))"
  "answered_as {INTERNAL_SERVER_ERROR} (result_type TStr) (fst (getbestblockhash A T k w))"
  "answered_as {INTERNAL_SERVER_ERROR} (result_type T_i32) (fst (getblockcount A k w))"
  "answered_as {NOT_FOUND} (result_type TStr) (fst (getblockhash A T n k w))"
  "answered_as {INTERNAL_SERVER_ERROR} (TArr chain_tip_type) (fst (getchaintips A T k w))"
  "answered_as {INTERNAL_SERVER_ERROR} tx_out_set_info_type (fst (gettxoutsetinfo F A T k w))"
  by (simp_all add: getblockchaininfo_def getbestblockhash_def getblockcount_def getblockhash_def getchaintips_def gettxoutsetinfo_def
    chain_tip_query_def json_types result_obj_def Let_def split: prod.splits sum.splits if_splits)

lemma mempool_answers_typed:
  "length (entries mp) < 2 ^ 64 \<Longrightarrow> answered_as {} mempool_info_type (getmempoolinfo F mp)"
  "answered_as {} (TMap (TObj [(''vsize'', T_i32), (''fee'', TF64), (''time'', T_i32)])) (getrawmempool F T ord True mp)"
  "answered_as {} (TArr TStr) (getrawmempool F T ord False mp)"
proof -
  show "length (entries mp) < 2 ^ 64 \<Longrightarrow> answered_as {} mempool_info_type (getmempoolinfo F mp)"
    by (simp add: getmempoolinfo_def mempool_get_stats_def mempool_size_def json_types Let_def)
  show "answered_as {} (TMap (TObj [(''vsize'', T_i32), (''fee'', TF64), (''time'', T_i32)])) (getrawmempool F T ord True mp)"
    unfolding getrawmempool_def Let_def if_True answered_as_simps by (rule verbose_mempool_typed) simp_all
  show "answered_as {} (TArr TStr) (getrawmempool F T ord False mp)"
    by (simp add: getrawmempool_def list_all_iff)
qed


definition sample_app :: "block_hash list app_state" where
  "sample_app = \<lparr>app_world = started, app_kernel = sample_kernel, kernel_refs = 1, app_mempool = with_kernel policy_testnet KernelHandle,
     shutdown_tx = True, shutdown_signals = 0\<rparr>"


section \<open>The network routes\<close>

lemma peer_info_typed: "has_type peer_info_type (peer_info_json p)"
  by (simp add: peer_info_json_def option_json_def json_types list_all_iff split: option.splits)

text \<open>The same for the network requests: queries answer with their structure and never fail;
  commands answer \<open>null\<close> or, where they take text that may be malformed, one of their codes.\<close>

theorem network_answers_typed:
  assumes "length (nodes m) < 2 ^ 64"
  shows "answered_as {} network_info_type (getnetworkinfo F table_busy m) \<and>
    answered_as {} (TArr peer_info_type) (getpeerinfo info busy m) \<and>
    answered_as {} (result_type T_usize) (getconnectioncount table_busy m :: status_code + 'f json) \<and>
    answered_as {} (TArr added_node_info_type) (getaddednodeinfo T busy node m :: status_code + 'f json) \<and>
    answered_as {} net_totals_type (getnettotals timemillis m :: status_code + 'f json) \<and>
    answered_as {} (result_type TBool) (getnetworkactive m :: status_code + 'f json) \<and>
    answered_as {} (result_type TBool) (fst (setnetworkactive b m :: (status_code + 'f json) \<times> _)) \<and>
    answered_as {} (TArr banned_node_type) (listbanned bord m :: status_code + 'f json) \<and>
    answered_as {BAD_REQUEST, INTERNAL_SERVER_ERROR} (result_type TNull)
      (fst (addnode T ord fresh now dial busy params m :: (status_code + 'f json) \<times> _)) \<and>
    answered_as {BAD_REQUEST} (result_type TNull) (fst (disconnectnode T busy dparams m :: (status_code + 'f json) \<times> _)) \<and>
    answered_as {BAD_REQUEST} (result_type TNull) (fst (setban now bparams m :: (status_code + 'f json) \<times> _)) \<and>
    answered_as {} (result_type TNull) (fst (clearbanned m :: (status_code + 'f json) \<times> _)) \<and>
    answered_as {} (result_type TNull) (fst (ping N busy m :: (status_code + 'f json) \<times> _))"
proof (intro conjI)
  show "answered_as {} network_info_type (getnetworkinfo F table_busy m)"
    using assms by (simp add: getnetworkinfo_def network_details_def num_connections_def json_types Let_def)
  show "answered_as {} (TArr peer_info_type) (getpeerinfo info busy m)"
    by (simp add: getpeerinfo_def list_all_iff peer_info_typed)
  show "answered_as {} (result_type T_usize) (getconnectioncount table_busy m :: status_code + 'f json)"
    using assms by (simp add: getconnectioncount_def num_connections_def json_types result_obj_def)
  show "answered_as {} (TArr added_node_info_type) (getaddednodeinfo T busy node m :: status_code + 'f json)"
    by (simp add: getaddednodeinfo_def added_node_json_def json_types list_all_iff Let_def case_prod_beta)
  show "answered_as {} (TArr banned_node_type) (listbanned bord m :: status_code + 'f json)"
    by (simp add: listbanned_def banned_node_json_def json_types list_all_iff)
qed (simp_all add: getnettotals_def get_net_totals_def getnetworkactive_def setnetworkactive_def addnode_def disconnectnode_def setban_def
  clearbanned_def ping_def json_types result_obj_def Let_def split: option.splits prod.splits sum.splits)

theorem network_answers_typed_witness:
  "answered_as {} network_info_type (getnetworkinfo unit_f64 False (connman_new 0 sample_config :: unit connman))"
proof -
  have "length (nodes (connman_new 0 sample_config :: unit connman)) < 2 ^ 64" by (simp add: connman_new_def)
  from network_answers_typed [OF this, of unit_f64 False] show ?thesis by blast
qed

end
