(* ===== verification/Spec2Isabelle.thy ===== *)
theory Spec2Isabelle
  imports Inventory Addr_Man Node_Shutdown Block_Log Block_Delivery P2P_Modules Rpc_Types
begin

text \<open>
  Verification of the node's own logic (\<^verbatim>\<open>src/src/\<close>), a Bitcoin node around
  libbitcoinkernel: the mempool, the peer-to-peer download machinery and the
  parameters they use.

  \<^bold>\<open>Parts and theories.\<close>

  \<^item> \<open>Rust_Prelude\<close>: machine integers as words (release-profile arithmetic wraps),
    clocks (\<open>instant\<close>, \<open>duration\<close> in nanoseconds), indexing that may panic (\<open>None\<close>),
    iteration orders of hash containers, and the locale \<open>invariant_machine\<close>: an initial
    state and steps that keep an invariant keep it over every run.
  \<^item> \<open>Hash_Collections\<close>: \<open>HashMap\<close>, \<open>DashMap\<close> and \<open>HashSet\<close> as association lists and
    lists with distinct elements; the locale \<open>hash_map\<close> states the laws the clients
    use, interpreted as \<open>hm\<close>.
  \<^item> \<open>Mempool_Entry\<close>, \<open>Mempool_Policy\<close>, \<open>Fee_Estimator\<close>, \<open>Tx_Mempool\<close>, \<open>Block_Template\<close>:
    \<^verbatim>\<open>mempool/entry.rs\<close>, \<^verbatim>\<open>policy.rs\<close>, \<^verbatim>\<open>fees.rs\<close>, \<^verbatim>\<open>txmempool.rs\<close>.  \<open>Mempool_Graph\<close>
    holds the invariant and the abstract specification (a directed graph of
    transactions with the outputs they spend); \<open>Mempool_Admission\<close> the analysis of
    \<open>add_tx\<close>; \<open>Mempool_Properties\<close> the theorems and concrete pools for them.
  \<^item> \<open>Kernel_Checks\<close>: \<open>validate_transaction\<close> and \<open>check_tx_inputs\<close> of
    \<^verbatim>\<open>kernel/mod.rs\<close>, which the mempool calls before its own checks.
  \<^item> \<open>Net_Types\<close>, \<open>Downloader\<close>, \<open>Peer_Handshake\<close>, \<open>Header_Sync\<close>: \<^verbatim>\<open>p2p/legacy.rs\<close>.  The
    downloader promises its client that a pushed hash stays pending until its block
    arrives (locale \<open>download_queue\<close>, interpreted as \<open>dq\<close>).
  \<^item> \<open>Inventory\<close>: \<^verbatim>\<open>p2p/inventory.rs\<close>.
  \<^item> \<open>Chain_Params\<close>: \<^verbatim>\<open>chainparams.rs\<close>.
  \<^item> \<open>Peer_Manager\<close>: the rest of \<^verbatim>\<open>p2p/legacy.rs\<close> with \<^verbatim>\<open>seeds.rs\<close>: outbound
    connections, bootstrap, the message handlers and the event loop as a run of
    ticks, each with what the world answers in it.
  \<^item> \<open>Download_Progress\<close> and \<open>Block_Delivery\<close>: the downloader and the peer manager against
    peers that answer (every missing block arrives and reaches the block processor) and
    against peers that fall silent.
  \<^item> \<open>Addr_Man\<close>: \<^verbatim>\<open>addrman.rs\<close>.  A table with its buckets is the locale \<open>bucket_table\<close>,
    interpreted for the new and the tried table.
  \<^item> \<open>Kernel_Wrapper\<close>: the rest of \<^verbatim>\<open>kernel/mod.rs\<close>.  The library is a parameter behind a
    ledger of the handles it has given out and not yet taken back.
  \<^item> \<open>Rpc_Blockchain\<close>: \<^verbatim>\<open>rpc/blockchain.rs\<close> and \<^verbatim>\<open>rpc/mod.rs\<close>, with the reference counts of
    the shared kernel; the locale \<open>kernel_query\<close> is what a handler may do with it.
  \<^item> \<open>P2P_Modules\<close>: \<^verbatim>\<open>p2p/messages.rs\<close>, \<^verbatim>\<open>p2p/peer.rs\<close>, \<^verbatim>\<open>p2p/manager.rs\<close>: message types,
    framing on a stream, and the manager with overlapping calls of \<open>add_peer\<close>.
  \<^item> \<open>Conn_Man\<close> and \<open>Rpc_Network\<close>: \<^verbatim>\<open>network/connman.rs\<close> and \<^verbatim>\<open>rpc/network.rs\<close>, which the
    build leaves out for now; every request is shown to be one event of the manager.
  \<^item> \<open>Block_Log\<close>: the diagnostics of \<open>process_block\<close>, shown to change nothing.
  \<^item> \<open>Rpc_Types\<close>: the structures of the two RPC modules as JSON types, and that every answer
    has the type of its route.
  \<^item> \<open>Node_Main\<close>: \<^verbatim>\<open>main.rs\<close> up to the start of the tasks; \<open>Node_Shutdown\<close>: who holds the
    kernel until the end of the runtime, as a step relation over all tasks.  This theory
    holds the theorems about the whole node: the path of a block, the mempool behind the
    network, start and shutdown.

  \<^bold>\<open>Conventions.\<close>  An operation takes its state and returns the result with the new
  state; an error is on the left of a sum; a panic is \<open>None\<close>.  Clock readings, the
  iteration order of a hash container and the outcomes of I/O are arguments.
  Functions of the bitcoin crate are fields of the records \<open>tx_api\<close> and \<open>header_api\<close>
  or function arguments, with their documented behaviour as named hypotheses
  (\<open>hash_parser\<close>, \<open>header_codec\<close>) where a theorem needs it.  List lengths and
  plain counters are natural numbers; amounts, sizes and heights are words.
  Locks are taken per operation, so an operation is one step.

  \<^bold>\<open>What is shown.\<close>  The invariants hold in every run, whatever the order of the
  operations and of the hash containers; the mempool refines the abstract graph;
  loops end (ancestor search, locator, queue polling, header reading by measures
  on what remains); results of the queries are characterised; where the code
  departs from its intent a lemma gives the concrete run.

  \<^bold>\<open>Bounds and fuel.\<close>  Searches and readers recurse on a measure and need no fuel.  The
  event loop and the loop of a node have no exit of their own, so they run over a list
  of ticks or a number of turns; what is shown holds for all of them.  Identifiers and
  counters are exact below \<open>2 ^ 64\<close> operations, which the theorems state where it matters.

  \<^bold>\<open>Not modelled.\<close>  Logging; the rounding of \<open>f64\<close> (its operations are arguments); sockets,
  HTTP and JSON decoding; the bodies of libbitcoinkernel and of the bitcoin crate
  (parameters); argument parsing; the response structures that no handler produces
  (\<open>BlockStats\<close>, \<open>ChainTxStats\<close>, \<open>TxOut\<close>); the generated bindings of \<^verbatim>\<open>ffi.rs\<close> and the build script.  The \<open>Node\<close> type that
  \<^verbatim>\<open>connman.rs\<close> imports is not in the source and is a parameter.
\<close>

section \<open>Blocks from the network to the kernel\<close>

definition channel :: "peer_manager \<Rightarrow> (block_hash \<times> u8 list) list" where
  "channel m = (case block_tx m of None \<Rightarrow> [] | Some blocks \<Rightarrow> blocks)"


definition sample_args :: args where
  "sample_args = \<lparr>arg_chain = ''signet'', arg_datadir = ''data'', arg_blocksdir = None, arg_import = None,
     arg_rpc = ''127.0.0.1:38332'', arg_peer = []\<rparr>"


section \<open>Transactions from the network to the mempool\<close>

lemma on_tx_fold: "on_tx m = Some seen \<Longrightarrow> on_tx (fold on_tx_msg ts m) = Some (seen @ ts)"
  by (induction ts arbitrary: m seen) (auto simp: on_tx_msg_def)



section \<open>Start and shutdown\<close>

text \<open>Start and shutdown of the node: when the start fails, every object of the library
  made on the way has been released; when it succeeds, the node runs with a live kernel
  and an empty pool, and dropping the kernel at shutdown, after any use of it, releases
  everything.\<close>

theorem node_start_and_shutdown:
  assumes "ledger_ok w" and "main_setup A fs G a w = (r, w1)" and "\<not> has_nul (absolute_dir fs (arg_datadir a))"
    and "\<not> has_nul (absolute_dir fs (case arg_blocksdir a of Some d \<Rightarrow> d | None \<Rightarrow> path_join (arg_datadir a) ''blocks''))"
  shows "case r of
      Inl e \<Rightarrow> live w1 = live w \<and> faults w1 = faults w
    | Inr (k, mp) \<Rightarrow> kernel_live k w1 \<and> entries mp = [] \<and>
        live (kernel_drop k (fold (kernel_step A k) ops w1)) = live w \<and>
        faults (kernel_drop k (fold (kernel_step A k) ops w1)) = faults w"
proof -
  let ?blocksdir = "case arg_blocksdir a of Some d \<Rightarrow> d | None \<Rightarrow> path_join (arg_datadir a) ''blocks''"
  obtain r0 w0 where new: "kernel_new A fs G (arg_chain a) (arg_datadir a) ?blocksdir w = (r0, w0)" by fastforce
  note k0 = kernel_new_adds [OF assms(1,3,4) new]
  show ?thesis
  proof (cases r0)
    case (Inl e)
    with k0 new assms(2) show ?thesis by (auto simp: main_setup_def adds_def)
  next
    case (Inr k)
    then have own: "adds (owned k) w w0" and live0: "kernel_live k w0" using k0 by simp_all
    let ?files = "case arg_import a of None \<Rightarrow> [] | Some list \<Rightarrow> import_files list"
    let ?w2 = "if ?files = [] then w0 else snd (import_blocks A k ?files w0)"
    have w2: "steady k w0 ?w2"
      using steady_refl [OF live0] import_blocks_live [OF live0 prod.collapse [symmetric], of A ?files] by simp
    have out: "r = Inr (k, with_kernel (policy_for_chain (arg_chain a)) KernelHandle) \<and> w1 = ?w2 \<or>
        (\<exists>e. r = Inl e) \<and> w1 = kernel_drop k ?w2"
      using assms(2) new Inr by (auto simp: main_setup_def Let_def split: if_splits prod.splits sum.splits)
    have fin: "adds [] w (kernel_drop k w')" if "steady k w0 w'" for w' using owned_drop [OF owned_steady [OF own that]] .
    have live2: "kernel_live k ?w2" using steady_live [OF live0 w2] .
    have "steady k w0 (fold (kernel_step A k) ops ?w2)" using steady_trans [OF w2 kernel_run_steady [OF live2]] .
    from fin [OF this] fin [OF w2] out live2 show ?thesis by (auto simp: adds_def with_kernel_def)
  qed
qed

theorem node_start_and_shutdown_witness:
  "live (kernel_drop sample_kernel (fold (kernel_step list_api sample_kernel) [Process_block [8]] started)) = [] \<and>
   main_setup list_api plain_fs (\<lambda>_. Inr [7]) (sample_args\<lparr>arg_blocksdir := Some ''blocks''\<rparr>) no_handles =
     (Inr (sample_kernel, with_kernel policy_testnet KernelHandle), started)"
proof -
  have m: "main_setup list_api plain_fs (\<lambda>_. Inr [7]) (sample_args\<lparr>arg_blocksdir := Some ''blocks''\<rparr>) no_handles =
     (Inr (sample_kernel, with_kernel policy_testnet KernelHandle), started)"
    using sample_new by (simp add: main_setup_def sample_args_def policy_for_chain_def)
  from node_start_and_shutdown [OF ledger_ok_no_handles m, of "[Process_block [8]]"] m show ?thesis
    by (simp add: sample_args_def plain_fs_def absolute_dir_def has_nul_def no_handles_def)
qed

end
